(* ===== verification/IQ_Prelude.thy ===== *)
theory IQ_Prelude
  imports Main "HOL-Library.Word" "HOL-Library.Multiset" "HOL-Library.AList"
begin

text \<open>
  Shared vocabulary of the development: the exception classes the program throws and catches,
  with their hierarchy as an order, outcomes of fallible code, C++ characters and strings as
  bytes, the decimal and hexadecimal conversions of the C++ standard library that the program
  calls, and the list lemmas several components use.
\<close>

named_theorems iq_defs \<open>definitions of the model that proofs unfold\<close>
named_theorems iq_frame \<open>fields an operation leaves alone\<close>

subsection \<open>Exceptions\<close>

text \<open>
  An exception is represented by its class; the texts the program puts into its exceptions only
  reach the log. A handler \<open>catch (const C&)\<close> takes every class derived from \<open>C\<close>.
\<close>

datatype exn_class =
    StdException | LogicError | RuntimeError | InvalidArgument | OutOfRange | BadAnyCast
  | SystemError | FilesystemError | RegexError | BadAlloc
  | IqException | GelfException | GelfUncompressError | GelfParseError
  | JsonException | JsonParseError | ProcessorException | ConfigException
  | NlohmannException | NlohmannParseError

primrec exn_parents :: "exn_class \<Rightarrow> exn_class list" where
  "exn_parents StdException = []"
| "exn_parents LogicError = [StdException]"
| "exn_parents RuntimeError = [StdException]"
| "exn_parents InvalidArgument = [LogicError, StdException]"
| "exn_parents OutOfRange = [LogicError, StdException]"
| "exn_parents BadAnyCast = [StdException]"
| "exn_parents SystemError = [RuntimeError, StdException]"
| "exn_parents FilesystemError = [SystemError, RuntimeError, StdException]"
| "exn_parents RegexError = [RuntimeError, StdException]"
| "exn_parents BadAlloc = [StdException]"
| "exn_parents IqException = [LogicError, StdException]"
| "exn_parents GelfException = [IqException, LogicError, StdException]"
| "exn_parents GelfUncompressError = [GelfException, IqException, LogicError, StdException]"
| "exn_parents GelfParseError = [GelfException, IqException, LogicError, StdException]"
| "exn_parents JsonException = [IqException, LogicError, StdException]"
| "exn_parents JsonParseError = [JsonException, IqException, LogicError, StdException]"
| "exn_parents ProcessorException = [IqException, LogicError, StdException]"
| "exn_parents ConfigException = [IqException, LogicError, StdException]"
| "exn_parents NlohmannException = [StdException]"
| "exn_parents NlohmannParseError = [NlohmannException, StdException]"

instantiation exn_class :: order
begin

definition less_eq_exn_class :: "exn_class \<Rightarrow> exn_class \<Rightarrow> bool" where
  "less_eq_exn_class a b \<longleftrightarrow> a = b \<or> b \<in> set (exn_parents a)"

definition less_exn_class :: "exn_class \<Rightarrow> exn_class \<Rightarrow> bool" where
  "less_exn_class a b \<longleftrightarrow> a \<noteq> b \<and> b \<in> set (exn_parents a)"

instance
proof
  fix a b c :: exn_class
  show "a < b \<longleftrightarrow> a \<le> b \<and> \<not> b \<le> a"
    by (cases a; cases b) (simp_all add: less_eq_exn_class_def less_exn_class_def)
  show "a \<le> a"
    by (simp add: less_eq_exn_class_def)
  show "a \<le> b \<Longrightarrow> b \<le> c \<Longrightarrow> a \<le> c"
    by (cases a; cases b) (auto simp: less_eq_exn_class_def)
  show "a \<le> b \<Longrightarrow> b \<le> a \<Longrightarrow> a = b"
    by (cases a; cases b) (simp_all add: less_eq_exn_class_def)
qed

end

definition catches :: "exn_class \<Rightarrow> exn_class \<Rightarrow> bool" where
  "catches handler thrown \<longleftrightarrow> thrown \<le> handler"

lemma catches_iff [simp]:
  "catches h e \<longleftrightarrow> e = h \<or> h \<in> set (exn_parents e)"
  by (simp add: catches_def less_eq_exn_class_def)

lemma catches_all_std [simp]: "e = StdException \<or> StdException \<in> set (exn_parents e)"
  by (cases e) simp_all

subsection \<open>Outcomes of fallible code\<close>

type_synonym 'a outcome = "exn_class + 'a"

definition and_then :: "'e + 'a \<Rightarrow> ('a \<Rightarrow> 'e + 'b) \<Rightarrow> 'e + 'b" where
  "and_then r f = (case r of Inl e \<Rightarrow> Inl e | Inr a \<Rightarrow> f a)"

text \<open>
  The end of a run that keeps its state: a value, an exception, or the program has crashed, as when
  it goes through a null pointer. No result at all: the run has not returned.
\<close>

datatype 'a run_result = Returned 'a | Threw exn_class | Aborted

definition run_then :: "('st \<times> 'a run_result) option \<Rightarrow> ('st \<Rightarrow> 'a \<Rightarrow> ('st \<times> 'b run_result) option)
    \<Rightarrow> ('st \<times> 'b run_result) option" where
  "run_then r f =
     (case r of
        None \<Rightarrow> None
      | Some (st, Returned a) \<Rightarrow> f st a
      | Some (st, Threw e) \<Rightarrow> Some (st, Threw e)
      | Some (st, Aborted) \<Rightarrow> Some (st, Aborted))"

lemma takeWhile_until: "c \<notin> set l \<Longrightarrow> takeWhile (\<lambda>x. x \<noteq> c) (l @ c # r) = l"
  by (induction l) auto

lemma and_then_simps [simp]:
  "and_then (Inl e) f = Inl e"
  "and_then (Inr a) f = f a"
  by (simp_all add: and_then_def)

lemma and_then_Inr_iff:
  "and_then r f = Inr b \<longleftrightarrow> (\<exists>a. r = Inr a \<and> f a = Inr b)"
  by (cases r) simp_all

lemma and_then_Inl_iff:
  "and_then r f = Inl e \<longleftrightarrow> r = Inl e \<or> (\<exists>a. r = Inr a \<and> f a = Inl e)"
  by (cases r) simp_all

lemma and_then_cong [fundef_cong]:
  "r = r' \<Longrightarrow> (\<And>a. r' = Inr a \<Longrightarrow> f a = f' a) \<Longrightarrow> and_then r f = and_then r' f'"
  by (cases r') simp_all

fun outcome_map :: "('a \<Rightarrow> 'e + 'b) \<Rightarrow> 'a list \<Rightarrow> 'e + 'b list" where
  "outcome_map f [] = Inr []"
| "outcome_map f (x # xs) =
     and_then (f x) (\<lambda>y. and_then (outcome_map f xs) (\<lambda>ys. Inr (y # ys)))"

lemma outcome_map_length:
  "outcome_map f xs = Inr ys \<Longrightarrow> length ys = length xs"
  by (induction xs arbitrary: ys) (auto simp: and_then_Inr_iff)

lemma outcome_map_nth:
  "outcome_map f xs = Inr ys \<Longrightarrow> i < length xs \<Longrightarrow> f (xs ! i) = Inr (ys ! i)"
  by (induction xs arbitrary: ys i) (auto simp: and_then_Inr_iff nth_Cons split: nat.splits)

subsection \<open>Characters and strings\<close>

text \<open>
  \<open>char\<close> is a byte. The program is built for x86, where C++ \<open>char\<close> is signed: \<open>schar\<close> is the
  value a character has when it is converted to \<open>int\<close>.
\<close>

abbreviation byte :: "char \<Rightarrow> nat" where
  "byte c \<equiv> of_char c"

definition schar :: "char \<Rightarrow> int" where
  "schar c = (if byte c < 128 then int (byte c) else int (byte c) - 256)"

definition to_char :: "int \<Rightarrow> char" where
  "to_char v = char_of (nat (v mod 256))"

definition c_str :: "string \<Rightarrow> string" where
  "c_str s = takeWhile (\<lambda>c. c \<noteq> CHR 0x00) s"

definition is_space :: "char \<Rightarrow> bool" where
  "is_space c \<longleftrightarrow> byte c = 32 \<or> (9 \<le> byte c \<and> byte c \<le> 13)"

definition is_dec :: "char \<Rightarrow> bool" where
  "is_dec c \<longleftrightarrow> 48 \<le> byte c \<and> byte c \<le> 57"

definition is_xdigit :: "char \<Rightarrow> bool" where
  "is_xdigit c \<longleftrightarrow> is_dec c \<or> (65 \<le> byte c \<and> byte c \<le> 70) \<or> (97 \<le> byte c \<and> byte c \<le> 102)"

definition xdigit_val :: "char \<Rightarrow> nat" where
  "xdigit_val c =
     (if is_dec c then byte c - 48
      else if byte c \<le> 70 then byte c - 55 else byte c - 87)"

definition dec_digit :: "nat \<Rightarrow> char" where
  "dec_digit d = char_of (48 + d)"

lemma byte_less [simp]: "byte c < 256"
  by (metis of_char_mod_256 mod_less_divisor zero_less_numeral)

lemma byte_char_of [simp]: "n < 256 \<Longrightarrow> byte (char_of n) = n"
  by simp

lemma byte_dec_digit [simp]: "d < 10 \<Longrightarrow> byte (dec_digit d) = 48 + d"
  by (simp add: dec_digit_def)

lemma is_dec_dec_digit [simp]: "d < 10 \<Longrightarrow> is_dec (dec_digit d)"
  by (simp add: is_dec_def)

lemma to_char_schar [simp]: "to_char (schar c) = c"
proof -
  have b: "int (byte c) < 256" using byte_less [of c] by linarith
  then have "schar c mod 256 = int (byte c)"
    by (auto simp: schar_def)
  then show ?thesis by (simp add: to_char_def)
qed

lemma schar_range: "- 128 \<le> schar c \<and> schar c < 128"
  using byte_less [of c] by (auto simp: schar_def simp del: byte_less)

subsection \<open>\<open>std::to_string\<close>, \<open>std::stoi\<close> and \<open>std::hex\<close> input\<close>

fun to_string :: "nat \<Rightarrow> string" where
  "to_string n = (if n < 10 then [dec_digit n] else to_string (n div 10) @ [dec_digit (n mod 10)])"

declare to_string.simps [simp del]

definition dec_val :: "string \<Rightarrow> nat" where
  "dec_val ds = foldl (\<lambda>a c. 10 * a + (byte c - 48)) 0 ds"

definition hex_val :: "string \<Rightarrow> nat" where
  "hex_val ds = foldl (\<lambda>a c. 16 * a + xdigit_val c) 0 ds"

definition split_sign :: "string \<Rightarrow> bool \<times> string" where
  "split_sign s =
     (case s of
        [] \<Rightarrow> (False, [])
      | c # r \<Rightarrow> if c = CHR ''-'' then (True, r)
                 else if c = CHR ''+'' then (False, r) else (False, s))"

definition fits_int32 :: "int \<Rightarrow> bool" where
  "fits_int32 v \<longleftrightarrow> - (2 ^ 31) \<le> v \<and> v < 2 ^ 31"

text \<open>
  \<open>std::stoi\<close>: leading white space, a sign, then the longest run of digits; no digit is
  \<open>std::invalid_argument\<close>, a value outside \<open>int\<close> is \<open>std::out_of_range\<close>.
\<close>

definition stoi :: "string \<Rightarrow> int outcome" where
  "stoi s =
     (let (neg, s2) = split_sign (dropWhile is_space (c_str s));
          ds = takeWhile is_dec s2;
          v = (if neg then - int (dec_val ds) else int (dec_val ds))
      in if ds = [] then Inl InvalidArgument
         else if fits_int32 v then Inr v else Inl OutOfRange)"

text \<open>
  \<open>istream >> std::hex >> value\<close> for an \<open>int\<close>: white space is skipped, a sign and a \<open>0x\<close>
  prefix are taken, then the longest run of hexadecimal digits; what follows stays unread.
\<close>

definition istream_hex :: "string \<Rightarrow> int option" where
  "istream_hex s =
     (let (neg, s2) = split_sign (dropWhile is_space s);
          s3 = (case s2 of
                  a # b # r \<Rightarrow> if a = CHR ''0'' \<and> (b = CHR ''x'' \<or> b = CHR ''X'') then r else s2
                | _ \<Rightarrow> s2);
          ds = takeWhile is_xdigit s3;
          v = (if neg then - int (hex_val ds) else int (hex_val ds))
      in if ds = [] then None else if fits_int32 v then Some v else None)"

lemma to_string_digits: "list_all is_dec (to_string n)"
proof (induction n rule: to_string.induct)
  case (1 n)
  then show ?case by (subst to_string.simps) auto
qed

lemma to_string_not_Nil [simp]: "to_string n \<noteq> []"
  by (subst to_string.simps) simp

lemma dec_val_snoc: "dec_val (ds @ [c]) = 10 * dec_val ds + (byte c - 48)"
  by (simp add: dec_val_def)

lemma dec_val_to_string [simp]: "dec_val (to_string n) = n"
proof (induction n rule: to_string.induct)
  case (1 n)
  show ?case
  proof (cases "n < 10")
    case True
    then show ?thesis by (subst to_string.simps) (simp add: dec_val_def)
  next
    case False
    with 1 show ?thesis by (subst to_string.simps) (simp add: dec_val_snoc)
  qed
qed

lemma to_string_inj: "to_string m = to_string n \<Longrightarrow> m = n"
  by (metis dec_val_to_string)

lemma to_string_Cons: "\<exists>c cs. to_string n = c # cs \<and> is_dec c"
  using to_string_digits [of n] by (cases "to_string n") auto

lemma is_dec_not_special:
  assumes "is_dec c"
  shows "\<not> is_space c" "c \<noteq> CHR ''-''" "c \<noteq> CHR ''+''" "c \<noteq> CHR 0x00"
  using assms by (auto simp: is_dec_def is_space_def)

lemma stoi_to_string:
  assumes "n < 2 ^ 31"
  shows "stoi (to_string n) = Inr (int n)"
proof -
  obtain c cs where c: "to_string n = c # cs" "is_dec c" using to_string_Cons by blast
  have all: "takeWhile is_dec (to_string n) = to_string n"
    using to_string_digits [of n] by (simp add: list_all_iff)
  have cz: "c_str (to_string n) = to_string n"
    using to_string_digits [of n]
    by (auto simp: c_str_def list_all_iff takeWhile_eq_all_conv dest: is_dec_not_special)
  have "split_sign (dropWhile is_space (to_string n)) = (False, to_string n)"
    using c is_dec_not_special [OF c(2)] by (simp add: split_sign_def)
  then show ?thesis
    using assms by (simp add: stoi_def cz all Let_def fits_int32_def)
qed

subsection \<open>Lists and multisets\<close>

lemma mset_take_drop [simp]: "mset (take n xs) + mset (drop n xs) = mset xs"
  by (metis append_take_drop_id mset_append)

lemma mset_drop_take [simp]: "mset (drop n xs) + mset (take n xs) = mset xs"
  by (metis mset_take_drop union_commute)

lemma concat_map_single [simp]: "concat (map (\<lambda>x. [x]) xs) = xs"
  by (induction xs) simp_all

lemma map_filter_length: "length (List.map_filter f xs) \<le> length xs"
  by (induction xs) (auto simp: List.map_filter_simps split: option.splits)

lemma map_filter_append [simp]:
  "List.map_filter f (xs @ ys) = List.map_filter f xs @ List.map_filter f ys"
  by (simp add: List.map_filter_def)

text \<open>What is left of a bag of items after each goes through a conversion that may refuse it.\<close>

definition mconv :: "('a \<Rightarrow> 'b option) \<Rightarrow> 'a multiset \<Rightarrow> 'b multiset" where
  "mconv f M = image_mset (\<lambda>x. the (f x)) (filter_mset (\<lambda>x. f x \<noteq> None) M)"

lemma mconv_empty [simp]: "mconv f {#} = {#}"
  by (simp add: mconv_def)

lemma mconv_union [simp]: "mconv f (A + B) = mconv f A + mconv f B"
  by (simp add: mconv_def)

lemma mconv_mset [simp]: "mconv f (mset xs) = mset (List.map_filter f xs)"
  by (induction xs) (auto simp: mconv_def split: option.splits)

subsection \<open>\<open>std::map\<close> as a list sorted by key\<close>

fun ord_put :: "'k::linorder \<Rightarrow> 'v \<Rightarrow> ('k \<times> 'v) list \<Rightarrow> ('k \<times> 'v) list" where
  "ord_put k v [] = [(k, v)]"
| "ord_put k v ((k', v') # r) =
     (if k < k' then (k, v) # (k', v') # r
      else if k = k' then (k, v) # r
      else (k', v') # ord_put k v r)"

definition ord_keys :: "('k::linorder \<times> 'v) list \<Rightarrow> bool" where
  "ord_keys l \<longleftrightarrow> sorted_wrt (<) (map fst l)"

lemma ord_keys_simps [simp]:
  "ord_keys []"
  "ord_keys ((k, v) # l) \<longleftrightarrow> (\<forall>p \<in> set l. k < fst p) \<and> ord_keys l"
  by (simp_all add: ord_keys_def)

lemma set_ord_put: "ord_keys l \<Longrightarrow> set (ord_put k v l) = insert (k, v) {p \<in> set l. fst p \<noteq> k}"
  by (induction k v l rule: ord_put.induct) (auto dest: order.strict_trans)

lemma ord_keys_put: "ord_keys l \<Longrightarrow> ord_keys (ord_put k v l)"
  by (induction k v l rule: ord_put.induct) (auto simp: set_ord_put dest: order.strict_trans)

lemma ord_put_not_Nil [simp]: "ord_put k v l \<noteq> []"
  by (induction k v l rule: ord_put.induct) simp_all

lemma ord_keys_distinct: "ord_keys l \<Longrightarrow> distinct (map fst l)"
  unfolding ord_keys_def using strict_sorted_iff by blast

lemma ord_keys_length: "ord_keys l \<Longrightarrow> length l = card (set l)"
  by (metis distinct_card distinct_map ord_keys_distinct)

lemma ord_keys_unique:
  assumes "ord_keys l" "ord_keys l'" "set l = set l'"
  shows "l = l'"
proof (rule map_sorted_distinct_set_unique)
  show "inj_on fst (set l \<union> set l')"
    using assms ord_keys_distinct [of l] by (simp add: distinct_map)
  show "sorted (map fst l)" "sorted (map fst l')"
    using assms(1,2) by (simp_all add: ord_keys_def strict_sorted_iff)
qed (use assms ord_keys_distinct in auto)

subsection \<open>Streams that arrive in pieces\<close>

text \<open>
  A component that reads a stream keeps a state between reads. When consuming two pieces one after
  the other is consuming them joined, how the stream was cut into pieces does not matter.
\<close>

fun feed_all :: "('s \<Rightarrow> 'c list \<Rightarrow> 's \<times> 'o list) \<Rightarrow> 's \<Rightarrow> 'c list list \<Rightarrow> 's \<times> 'o list" where
  "feed_all fd s [] = (s, [])"
| "feed_all fd s (x # xs) =
     (let (s1, o1) = fd s x; (s2, o2) = feed_all fd s1 xs in (s2, o1 @ o2))"

locale stream_reader =
  fixes feed :: "'s \<Rightarrow> 'c list \<Rightarrow> 's \<times> 'o list"
    and settled :: "'s \<Rightarrow> bool"
  assumes feed_empty: "settled s \<Longrightarrow> feed s [] = (s, [])"
    and feed_join: "settled s \<Longrightarrow> feed s (x @ y) =
      (let (s1, o1) = feed s x; (s2, o2) = feed s1 y in (s2, o1 @ o2))"
    and feed_settled: "settled s \<Longrightarrow> settled (fst (feed s x))"
begin

lemma feed_pieces: "settled s \<Longrightarrow> feed_all feed s xs = feed s (concat xs)"
proof (induction xs arbitrary: s)
  case Nil
  then show ?case by (simp add: feed_empty)
next
  case (Cons x xs)
  obtain s1 o1 where f: "feed s x = (s1, o1)" by fastforce
  with feed_settled [OF Cons.prems, of x] Cons show ?case by (simp add: feed_join)
qed

lemma feed_cut_irrelevant:
  "settled s \<Longrightarrow> concat xs = concat ys \<Longrightarrow> feed_all feed s xs = feed_all feed s ys"
  by (simp add: feed_pieces)

end

end
