(* ===== verification/IQ_Task.thy ===== *)
theory IQ_Task
  imports IQ_Prelude
begin

text \<open>
  The life cycle every server, input, output and exporter of the program inherits
  (src/core/TaskInterface.h), and the once-only life cycle of the input modules
  (src/Module.h). A task is its two atomic flags and the state of the derived class; the
  virtual functions \<open>initImpl\<close>, \<open>startImpl\<close> and \<open>stopImpl\<close> are arguments. An operation returns
  the task it leaves and the exception it throws, if any: a flag set before a throw stays set.
  The second half is the interleaving of calls from many threads, where the flags are changed
  by atomic exchanges.
\<close>

subsection \<open>One caller\<close>

record 's task =
  m_inited :: bool
  m_started :: bool
  impl :: 's

type_synonym 's impl_fun = "'s task \<Rightarrow> 's task \<times> exn_class option"

definition new_task :: "'s \<Rightarrow> 's task" where
  "new_task s = \<lparr>m_inited = False, m_started = False, impl = s\<rparr>"

definition task_init :: "'s impl_fun \<Rightarrow> 's impl_fun" where
  "task_init initImpl t =
     (if \<not> m_inited t then
        (case initImpl (t\<lparr>m_inited := True\<rparr>) of
           (t', None) \<Rightarrow> (t', None)
         | (t', Some e) \<Rightarrow> (t', Some (if catches BadAnyCast e then LogicError else e)))
      else (t, Some LogicError))"

definition task_start :: "'s impl_fun \<Rightarrow> 's impl_fun" where
  "task_start startImpl t =
     (if \<not> m_started t then
        (let t1 = t\<lparr>m_started := True\<rparr>
         in if m_inited t1 then startImpl t1 else (t1, Some LogicError))
      else (t, Some LogicError))"

definition task_stop :: "'s impl_fun \<Rightarrow> 's impl_fun" where
  "task_stop stopImpl t =
     (if m_started t then stopImpl (t\<lparr>m_started := False\<rparr>) else (t, Some LogicError))"

definition isInited :: "'s task \<Rightarrow> bool" where
  "isInited t = m_inited t"

definition isRunning :: "'s task \<Rightarrow> bool" where
  "isRunning t = m_started t"

text \<open>
  An implementation hook that neither looks at nor changes the two flags: what every derived
  class of the program but one provides.
\<close>

definition plain_hook :: "('s \<Rightarrow> 's \<times> exn_class option) \<Rightarrow> 's impl_fun" where
  "plain_hook f t = (case f (impl t) of (s, e) \<Rightarrow> (t\<lparr>impl := s\<rparr>, e))"

lemma plain_hook_flags:
  "plain_hook f t = (t', e) \<Longrightarrow> m_inited t' = m_inited t \<and> m_started t' = m_started t"
  by (auto simp: plain_hook_def split: prod.splits)

datatype task_op = OpInit | OpStart | OpStop

definition task_step :: "(task_op \<Rightarrow> 's \<Rightarrow> 's \<times> exn_class option) \<Rightarrow> task_op \<Rightarrow> 's impl_fun" where
  "task_step f op =
     (case op of
        OpInit \<Rightarrow> task_init (plain_hook (f OpInit))
      | OpStart \<Rightarrow> task_start (plain_hook (f OpStart))
      | OpStop \<Rightarrow> task_stop (plain_hook (f OpStop)))"

fun task_run :: "(task_op \<Rightarrow> 's \<Rightarrow> 's \<times> exn_class option) \<Rightarrow> 's task \<Rightarrow> task_op list
    \<Rightarrow> 's task \<times> exn_class option list" where
  "task_run f t [] = (t, [])"
| "task_run f t (op # ops) =
     (case task_step f op t of
        (t1, e) \<Rightarrow> (case task_run f t1 ops of (t2, es) \<Rightarrow> (t2, e # es)))"

lemma task_step_inited_mono: "task_step f op t = (t', e) \<Longrightarrow> m_inited t \<Longrightarrow> m_inited t'"
  by (cases op)
     (auto simp: task_step_def task_init_def task_start_def task_stop_def plain_hook_def Let_def
        split: prod.splits if_splits option.splits)

text \<open>What the flags become depends on the flags and the operation alone.\<close>

lemma task_step_flags:
  assumes "task_step f op t = (t', e)"
  shows "m_inited t' = (m_inited t \<or> op = OpInit)"
    and "m_started t' = (op = OpStart \<or> m_started t \<and> op \<noteq> OpStop)"
  using assms
  by (cases op;
      auto simp: task_step_def task_init_def task_start_def task_stop_def plain_hook_def Let_def
        split: prod.splits if_splits option.splits)+

subsection \<open>Many callers\<close>

text \<open>
  Each thread is outside, or has won an exchange and runs a hook. The exchange is one atomic
  step; a start that finds the task not inited throws right after its exchange. The counters are
  history: how often each hook was entered.
\<close>

datatype task_pc = Outside | InInit | InStart | InStop

record shared_task =
  sh_inited :: bool
  sh_started :: bool
  sh_pc :: "nat \<Rightarrow> task_pc"
  n_init :: nat
  n_start :: nat
  n_bad_start :: nat
  n_stop :: nat

definition shared_new :: shared_task where
  "shared_new = \<lparr>sh_inited = False, sh_started = False, sh_pc = (\<lambda>_. Outside),
     n_init = 0, n_start = 0, n_bad_start = 0, n_stop = 0\<rparr>"

inductive shared_step :: "shared_task \<Rightarrow> shared_task \<Rightarrow> bool" where
  init_win: "sh_pc s i = Outside \<Longrightarrow> \<not> sh_inited s \<Longrightarrow>
     shared_step s (s\<lparr>sh_inited := True, sh_pc := (sh_pc s)(i := InInit), n_init := Suc (n_init s)\<rparr>)"
| init_lose: "sh_pc s i = Outside \<Longrightarrow> sh_inited s \<Longrightarrow> shared_step s s"
| start_win: "sh_pc s i = Outside \<Longrightarrow> \<not> sh_started s \<Longrightarrow> sh_inited s \<Longrightarrow>
     shared_step s (s\<lparr>sh_started := True, sh_pc := (sh_pc s)(i := InStart), n_start := Suc (n_start s)\<rparr>)"
| start_bad: "sh_pc s i = Outside \<Longrightarrow> \<not> sh_started s \<Longrightarrow> \<not> sh_inited s \<Longrightarrow>
     shared_step s (s\<lparr>sh_started := True, n_bad_start := Suc (n_bad_start s)\<rparr>)"
| start_lose: "sh_pc s i = Outside \<Longrightarrow> sh_started s \<Longrightarrow> shared_step s s"
| stop_win: "sh_pc s i = Outside \<Longrightarrow> sh_started s \<Longrightarrow>
     shared_step s (s\<lparr>sh_started := False, sh_pc := (sh_pc s)(i := InStop), n_stop := Suc (n_stop s)\<rparr>)"
| stop_lose: "sh_pc s i = Outside \<Longrightarrow> \<not> sh_started s \<Longrightarrow> shared_step s s"
| finish: "sh_pc s i \<noteq> Outside \<Longrightarrow> shared_step s (s\<lparr>sh_pc := (sh_pc s)(i := Outside)\<rparr>)"

inductive shared_reach :: "shared_task \<Rightarrow> bool" where
  reach_new: "shared_reach shared_new"
| reach_step: "shared_reach s \<Longrightarrow> shared_step s t \<Longrightarrow> shared_reach t"

inductive_cases shared_stepE: "shared_step s t"

definition shared_inv :: "shared_task \<Rightarrow> bool" where
  "shared_inv s \<longleftrightarrow>
     n_init s = (if sh_inited s then 1 else 0)
     \<and> n_start s + n_bad_start s = n_stop s + (if sh_started s then 1 else 0)
     \<and> (\<forall>i. sh_pc s i = InStart \<longrightarrow> sh_inited s)
     \<and> (\<forall>i j. sh_pc s i = InInit \<longrightarrow> sh_pc s j = InInit \<longrightarrow> i = j)
     \<and> (\<not> sh_inited s \<longrightarrow> (\<forall>i. sh_pc s i \<noteq> InInit))"

lemma shared_inv_new: "shared_inv shared_new"
  by (simp add: shared_inv_def shared_new_def)

lemma shared_inv_step: "shared_step s t \<Longrightarrow> shared_inv s \<Longrightarrow> shared_inv t"
  by (erule shared_stepE) (auto simp: shared_inv_def split: if_splits)

lemma shared_reach_inv: "shared_reach s \<Longrightarrow> shared_inv s"
  by (induction rule: shared_reach.induct) (auto intro: shared_inv_new shared_inv_step)

subsection \<open>Modules\<close>

text \<open>
  \<open>Module<T>\<close> guards its three hooks with \<open>std::call_once\<close>: the first call that returns
  normally sets the flag; a hook that throws leaves it unset. The constructor calls \<open>init\<close>.
\<close>

record 's module_obj =
  inited_flag :: bool
  started_flag :: bool
  stopped_flag :: bool
  mod_impl :: 's

type_synonym 's mod_hook = "'s \<Rightarrow> 's \<times> exn_class option"

definition module_init :: "'s mod_hook \<Rightarrow> 's module_obj \<Rightarrow> 's module_obj \<times> exn_class option" where
  "module_init h m =
     (if inited_flag m then (m, None)
      else case h (mod_impl m) of
        (s, None) \<Rightarrow> (m\<lparr>inited_flag := True, mod_impl := s\<rparr>, None)
      | (s, Some e) \<Rightarrow> (m\<lparr>mod_impl := s\<rparr>, Some e))"

definition module_start :: "'s mod_hook \<Rightarrow> 's module_obj \<Rightarrow> 's module_obj \<times> exn_class option" where
  "module_start h m =
     (if started_flag m then (m, None)
      else case h (mod_impl m) of
        (s, None) \<Rightarrow> (m\<lparr>started_flag := True, mod_impl := s\<rparr>, None)
      | (s, Some e) \<Rightarrow> (m\<lparr>mod_impl := s\<rparr>, Some e))"

definition module_stop :: "'s mod_hook \<Rightarrow> 's module_obj \<Rightarrow> 's module_obj \<times> exn_class option" where
  "module_stop h m =
     (if stopped_flag m then (m, None)
      else case h (mod_impl m) of
        (s, None) \<Rightarrow> (m\<lparr>stopped_flag := True, mod_impl := s\<rparr>, None)
      | (s, Some e) \<Rightarrow> (m\<lparr>mod_impl := s\<rparr>, Some e))"

definition module_new :: "'s mod_hook \<Rightarrow> 's \<Rightarrow> 's module_obj \<times> exn_class option" where
  "module_new h s =
     module_init h \<lparr>inited_flag = False, started_flag = False, stopped_flag = False, mod_impl = s\<rparr>"

text \<open>Starting the module once per input of its kind runs the hook once.\<close>

fun start_n :: "nat \<Rightarrow> 's mod_hook \<Rightarrow> 's module_obj \<Rightarrow> 's module_obj" where
  "start_n 0 h m = m"
| "start_n (Suc n) h m = start_n n h (fst (module_start h m))"

lemma start_n_started: "started_flag m \<Longrightarrow> start_n n h m = m"
  by (induction n) (simp_all add: module_start_def)

lemma module_start_once:
  assumes "h (mod_impl m) = (s, None)" and "\<not> started_flag m"
  shows "start_n (Suc n) h m = m\<lparr>started_flag := True, mod_impl := s\<rparr>"
  using assms by (simp add: module_start_def start_n_started)

end
