(* ===== verification/IQ_Formats.thy ===== *)
theory IQ_Formats
  imports IQ_Prelude
begin

text \<open>
  The data the formats share (src/formats/Object.h, src/utils/Json.h) and the plain message
  formats: tail, journal, JSON, dummy and processor messages (src/formats, src/processor).
  JSON documents are the values of \<open>json\<close>. The two JSON libraries and the floating-point
  operations are not part of the repository: \<open>json_lib\<close> and \<open>dbl_ops\<close> are arguments of the
  definitions. What a message writes is the sequence of calls it makes on a
  rapidjson::Writer; the text these calls produce is the library's \<open>jl_render\<close>.
\<close>

subsection \<open>JSON documents and the libraries\<close>

datatype 'd json =
    JNull | JBool bool | JInt int | JFloat 'd | JStr string
  | JArr "'d json list" | JObj "(string \<times> 'd json) list"

datatype 'd writer_call =
    WStartObject | WEndObject | WStartArray | WEndArray
  | WKey string | WString string | WInt int | WDouble 'd | WBool bool | WNull | WRaw string

record 'd dbl_ops =
  d_of_int :: "int \<Rightarrow> 'd"
  d_exact :: "int \<Rightarrow> bool"
  d_less :: "'d \<Rightarrow> 'd \<Rightarrow> bool"
  d_div :: "'d \<Rightarrow> 'd \<Rightarrow> 'd"
  d_stod :: "string \<Rightarrow> 'd outcome"
  d_to_uchar :: "'d \<Rightarrow> 8 word"
  d_show :: "'d \<Rightarrow> string"

text \<open>
  \<open>jl_parse\<close>, \<open>jl_dump\<close> and the accessors are those of nlohmann::json; \<open>jl_rj_parse\<close> is
  rapidjson's \<open>Document::Parse\<close>, which may fail, and \<open>jl_render\<close> the text of a writer.
\<close>

record 'd json_lib =
  jl_parse :: "string \<Rightarrow> 'd json outcome"
  jl_dump :: "'d json \<Rightarrow> string"
  jl_at :: "'d json \<Rightarrow> string \<Rightarrow> 'd json outcome"
  jl_get_string :: "'d json \<Rightarrow> string outcome"
  jl_get_int :: "'d json \<Rightarrow> int outcome"
  jl_get_uint64 :: "'d json \<Rightarrow> 64 word outcome"
  jl_get_ushort :: "'d json \<Rightarrow> 16 word outcome"
  jl_get_long :: "'d json \<Rightarrow> int outcome"
  jl_get_bool :: "'d json \<Rightarrow> bool outcome"
  jl_get_double :: "'d json \<Rightarrow> 'd outcome"
  jl_rj_parse :: "string \<Rightarrow> 'd json option"
  jl_render :: "'d writer_call list \<Rightarrow> string"

text \<open>
  The documented accessors of nlohmann::json the code uses: \<open>at\<close> wants an object with the key,
  \<open>get\<close> a value of the type; all errors, and those of \<open>parse\<close>, are of the library's own classes.
\<close>

definition json_lib_ok :: "'d json_lib \<Rightarrow> bool" where
  "json_lib_ok L \<longleftrightarrow>
     (\<forall>s e. jl_parse L s = Inl e \<longrightarrow> e = NlohmannParseError)
     \<and> (\<forall>o' k. jl_at L (JObj o') k = (case map_of o' k of None \<Rightarrow> Inl NlohmannException | Some v \<Rightarrow> Inr v))
     \<and> (\<forall>j k. (\<forall>o'. j \<noteq> JObj o') \<longrightarrow> jl_at L j k = Inl NlohmannException)
     \<and> (\<forall>s. jl_get_string L (JStr s) = Inr s)
     \<and> (\<forall>j. (\<forall>s. j \<noteq> JStr s) \<longrightarrow> jl_get_string L j = Inl NlohmannException)
     \<and> (\<forall>n. fits_int32 n \<longrightarrow> jl_get_int L (JInt n) = Inr n)
     \<and> (\<forall>n. jl_get_uint64 L (JInt n) = Inr (word_of_int n))
     \<and> (\<forall>n. jl_get_ushort L (JInt n) = Inr (word_of_int n))
     \<and> (\<forall>b. jl_get_bool L (JBool b) = Inr b)"

text \<open>The calls that write a JSON document.\<close>

fun json_calls :: "'d json \<Rightarrow> 'd writer_call list" where
  "json_calls JNull = [WNull]"
| "json_calls (JBool b) = [WBool b]"
| "json_calls (JInt n) = [WInt n]"
| "json_calls (JFloat d) = [WDouble d]"
| "json_calls (JStr s) = [WString s]"
| "json_calls (JArr xs) = WStartArray # concat (map json_calls xs) @ [WEndArray]"
| "json_calls (JObj fs) = WStartObject # concat (map (\<lambda>p. WKey (fst p) # json_calls (snd p)) fs) @ [WEndObject]"

text \<open>Both libraries read back what a writer has written for one document.\<close>

definition reads_back :: "'d json_lib \<Rightarrow> 'd json \<Rightarrow> bool" where
  "reads_back L j \<longleftrightarrow>
     jl_parse L (c_str (jl_render L (json_calls j))) = Inr j
     \<and> jl_rj_parse L (c_str (jl_render L (json_calls j))) = Some j"

subsection \<open>Objects\<close>

datatype 'd variant = VStr string | VInt int | VDbl 'd | VBool bool

type_synonym 'd object = "(string \<times> 'd variant) list"

text \<open>
  An \<open>unordered_map\<close> as an association list in its order of iteration; \<open>emplace\<close> keeps a value
  that is already there.
\<close>

definition emplace :: "string \<Rightarrow> 'v \<Rightarrow> (string \<times> 'v) list \<Rightarrow> (string \<times> 'v) list" where
  "emplace k v m = (if map_of m k = None then m @ [(k, v)] else m)"

lemma map_of_emplace: "map_of (emplace k v m) x = (case map_of m x of None \<Rightarrow> if x = k then Some v else None | y \<Rightarrow> y)"
  by (auto simp: emplace_def map_add_def split: option.splits)

primrec variant_json :: "'d variant \<Rightarrow> 'd json" where
  "variant_json (VStr s) = JStr s"
| "variant_json (VInt n) = JInt n"
| "variant_json (VDbl d) = JFloat d"
| "variant_json (VBool b) = JBool b"

definition variant_from_json :: "'d json_lib \<Rightarrow> 'd json \<Rightarrow> 'd variant outcome" where
  "variant_from_json L j =
     (case j of
        JInt n \<Rightarrow> and_then (jl_get_int L j) (\<lambda>v. Inr (VInt v))
      | JFloat d \<Rightarrow> Inr (VDbl d)
      | JBool b \<Rightarrow> Inr (VBool b)
      | JStr s \<Rightarrow> Inr (VStr s)
      | _ \<Rightarrow> Inl NlohmannException)"

definition writeValue :: "'d variant \<Rightarrow> 'd writer_call" where
  "writeValue v =
     (case v of VStr s \<Rightarrow> WString s | VInt n \<Rightarrow> WInt n | VBool b \<Rightarrow> WBool b | VDbl d \<Rightarrow> WDouble d)"

lemma writeValue_calls: "json_calls (variant_json v) = [writeValue v]"
  by (cases v) (simp_all add: writeValue_def)

definition write_object :: "'d object \<Rightarrow> 'd writer_call list" where
  "write_object m = concat (map (\<lambda>(k, v). [WKey (c_str k), writeValue v]) m)"

definition object_json :: "'d object \<Rightarrow> 'd json" where
  "object_json m = JObj (map (\<lambda>(k, v). (c_str k, variant_json v)) m)"

lemma object_json_calls: "json_calls (object_json m) = WStartObject # write_object m @ [WEndObject]"
  by (simp add: object_json_def write_object_def comp_def case_prod_unfold writeValue_calls)

text \<open>A document as an object: \<open>get<Object>\<close> of a document that is no object is an error.\<close>

fun object_fields :: "'d json_lib \<Rightarrow> (string \<times> 'd json) list \<Rightarrow> 'd object outcome" where
  "object_fields L [] = Inr []"
| "object_fields L ((k, j) # r) =
     and_then (variant_from_json L j) (\<lambda>v. and_then (object_fields L r) (\<lambda>m. Inr ((k, v) # m)))"

definition object_from_json :: "'d json_lib \<Rightarrow> 'd json \<Rightarrow> 'd object outcome" where
  "object_from_json L j = (case j of JObj fs \<Rightarrow> object_fields L fs | _ \<Rightarrow> Inl NlohmannException)"

definition small_ints :: "'d object \<Rightarrow> bool" where
  "small_ints m \<longleftrightarrow> list_all (\<lambda>(k, v). case v of VInt n \<Rightarrow> fits_int32 n | _ \<Rightarrow> True) m"

lemma variant_json_roundtrip:
  assumes "json_lib_ok L" "case v of VInt n \<Rightarrow> fits_int32 n | _ \<Rightarrow> True"
  shows "variant_from_json L (variant_json v) = Inr v"
  using assms by (cases v) (simp_all add: variant_from_json_def json_lib_ok_def)

lemma object_json_roundtrip:
  assumes "json_lib_ok L" "small_ints m"
  shows "object_from_json L (object_json m) = Inr (map (\<lambda>(k, v). (c_str k, v)) m)"
proof -
  have "object_fields L (map (\<lambda>(k, v). (c_str k, variant_json v)) m) = Inr (map (\<lambda>(k, v). (c_str k, v)) m)"
    using assms(2)
    by (induction m) (auto simp: small_ints_def variant_json_roundtrip [OF assms(1)])
  then show ?thesis by (simp add: object_from_json_def object_json_def)
qed

subsection \<open>Strings as C strings\<close>

lemma c_str_idem [simp]: "c_str (c_str s) = c_str s"
  by (simp add: c_str_def takeWhile_idem)

lemma c_str_Nil [simp]: "c_str [] = []"
  by (simp add: c_str_def)

lemma c_str_Cons: "c_str (c # s) = (if c = CHR 0x00 then [] else c # c_str s)"
  by (simp add: c_str_def)

subsection \<open>Tail messages\<close>

record tail_source =
  ts_filename :: string
  ts_symlink :: "string option"

definition TailSource :: "string \<Rightarrow> string option \<Rightarrow> tail_source" where
  "TailSource f s = \<lparr>ts_filename = f, ts_symlink = s\<rparr>"

definition show_tail_source :: "tail_source \<Rightarrow> string" where
  "show_tail_source s =
     ''[FILE: '' @ ts_filename s
     @ (case ts_symlink s of None \<Rightarrow> [] | Some l \<Rightarrow> '' SYMLINK: '' @ l) @ '' ]''"

record tail_message =
  tm_input :: string
  tm_data :: string
  tm_source :: tail_source

definition TailMessage :: "string \<Rightarrow> string \<Rightarrow> tail_source \<Rightarrow> tail_message" where
  "TailMessage input data source = \<lparr>tm_input = input, tm_data = data, tm_source = source\<rparr>"

definition tail_calls :: "tail_message \<Rightarrow> 'd writer_call list" where
  "tail_calls m =
     [WStartObject, WKey ''data'', WString (tm_data m), WKey ''filename'', WString (ts_filename (tm_source m))]
     @ (case ts_symlink (tm_source m) of
          None \<Rightarrow> [] | Some l \<Rightarrow> [WKey ''symlink_filename'', WString l])
     @ [WKey ''input'', WString (tm_input m), WEndObject]"

definition tail_json :: "tail_message \<Rightarrow> 'd json" where
  "tail_json m =
     JObj ([(''data'', JStr (tm_data m)), (''filename'', JStr (ts_filename (tm_source m)))]
       @ (case ts_symlink (tm_source m) of None \<Rightarrow> [] | Some l \<Rightarrow> [(''symlink_filename'', JStr l)])
       @ [(''input'', JStr (tm_input m))])"

lemma tail_calls_json: "tail_calls m = json_calls (tail_json m)"
  by (simp add: tail_calls_def tail_json_def split: option.splits)

subsection \<open>Journal messages\<close>

record 'd journal_message =
  jm_input :: string
  jm_data :: "'d object"
  jm_timestamp :: "64 word"

definition JournalMessage :: "string \<Rightarrow> 'd object \<Rightarrow> 64 word \<Rightarrow> 'd journal_message" where
  "JournalMessage input data timestamp = \<lparr>jm_input = input, jm_data = data, jm_timestamp = timestamp\<rparr>"

definition JournalMessage_json :: "'d json_lib \<Rightarrow> string \<Rightarrow> string \<Rightarrow> 'd journal_message outcome" where
  "JournalMessage_json L input json =
     (case and_then (jl_parse L json) (\<lambda>j.
             and_then (and_then (jl_at L j ''data'') (object_from_json L)) (\<lambda>data.
             and_then (and_then (jl_at L j ''timestamp'') (jl_get_uint64 L)) (\<lambda>timestamp.
             Inr (JournalMessage input data timestamp)))) of
        Inl e \<Rightarrow> Inl (if catches StdException e then IqException else e)
      | Inr m \<Rightarrow> Inr m)"

definition journal_exportMessage :: "'d json_lib \<Rightarrow> 'd journal_message \<Rightarrow> string" where
  "journal_exportMessage L m = jl_dump L (JObj (map (\<lambda>(k, v). (k, variant_json v)) (jm_data m)))"

text \<open>\<open>Int64\<close> takes the unsigned timestamp as a signed number.\<close>

definition journal_calls :: "'d journal_message \<Rightarrow> 'd writer_call list" where
  "journal_calls m =
     [WStartObject, WKey ''data'', WStartObject] @ write_object (jm_data m) @ [WEndObject]
     @ [WKey ''timestamp'', WInt (sint (jm_timestamp m)), WKey ''input'', WString (jm_input m), WEndObject]"

definition journal_json :: "'d journal_message \<Rightarrow> 'd json" where
  "journal_json m = JObj [(''data'', object_json (jm_data m)),
     (''timestamp'', JInt (sint (jm_timestamp m))), (''input'', JStr (jm_input m))]"

lemma journal_calls_json: "journal_calls m = json_calls (journal_json m)"
  by (simp add: journal_calls_def journal_json_def object_json_calls)

subsection \<open>JSON, dummy and processor messages\<close>

record ('d, 'ep) json_message =
  js_input :: string
  js_json :: "'d json"
  js_endpoint :: 'ep

definition JsonMessage :: "'d json_lib \<Rightarrow> string \<Rightarrow> string \<Rightarrow> 'ep \<Rightarrow> ('d, 'ep) json_message outcome" where
  "JsonMessage L input message endpoint =
     (case jl_parse L message of
        Inl e \<Rightarrow> Inl (if catches NlohmannParseError e then JsonParseError else e)
      | Inr j \<Rightarrow> Inr \<lparr>js_input = input, js_json = j, js_endpoint = endpoint\<rparr>)"

definition json_exportMessage :: "'d json_lib \<Rightarrow> ('d, 'ep) json_message \<Rightarrow> string" where
  "json_exportMessage L m = jl_dump L (js_json m)"

text \<open>
  What iteration over a document visits: the fields of an object, the elements of an array, the
  document itself when it is neither and not null. An element that is no field has no key.
\<close>

primrec json_items :: "'d json \<Rightarrow> (string option \<times> 'd json) list" where
  "json_items JNull = []"
| "json_items (JBool b) = [(None, JBool b)]"
| "json_items (JInt n) = [(None, JInt n)]"
| "json_items (JFloat d) = [(None, JFloat d)]"
| "json_items (JStr s) = [(None, JStr s)]"
| "json_items (JArr xs) = map (Pair None) xs"
| "json_items (JObj fs) = map (\<lambda>(k, v). (Some k, v)) fs"

record dummy_message =
  dm_input :: string
  dm_data :: string

definition DummyMessage :: "string \<Rightarrow> string \<Rightarrow> dummy_message" where
  "DummyMessage input data = \<lparr>dm_input = input, dm_data = data\<rparr>"

definition dummy_calls :: "dummy_message \<Rightarrow> 'd writer_call list" where
  "dummy_calls m = [WStartObject, WKey ''data'', WString (dm_data m),
     WKey ''input'', WString (dm_input m), WEndObject]"

text \<open>A processor message is its text, which both exports return.\<close>

definition ProcessorMessage :: "string \<Rightarrow> string" where
  "ProcessorMessage json = json"

definition processor_exportMessage :: "string \<Rightarrow> string" where
  "processor_exportMessage data = data"

subsection \<open>Concrete libraries\<close>

text \<open>Integers stand for the floating-point numbers in the concrete runs.\<close>

definition int_dbl :: "int dbl_ops" where
  "int_dbl = \<lparr>d_of_int = (\<lambda>n. n), d_exact = (\<lambda>_. True), d_less = (<), d_div = (div), d_stod = stoi,
     d_to_uchar = word_of_int, d_show = (\<lambda>n. to_string (nat n))\<rparr>"

text \<open>A library that knows one document, named by its text.\<close>

definition one_doc_lib :: "string \<Rightarrow> 'd json \<Rightarrow> 'd json_lib" where
  "one_doc_lib s j = \<lparr>
     jl_parse = (\<lambda>t. if t = s then Inr j else Inl NlohmannParseError), jl_dump = (\<lambda>_. s),
     jl_at = (\<lambda>j k. case j of JObj o' \<Rightarrow> (case map_of o' k of None \<Rightarrow> Inl NlohmannException | Some v \<Rightarrow> Inr v)
                            | _ \<Rightarrow> Inl NlohmannException),
     jl_get_string = (\<lambda>j. case j of JStr t \<Rightarrow> Inr t | _ \<Rightarrow> Inl NlohmannException),
     jl_get_int = (\<lambda>j. case j of JInt n \<Rightarrow> Inr n | _ \<Rightarrow> Inl NlohmannException),
     jl_get_uint64 = (\<lambda>j. case j of JInt n \<Rightarrow> Inr (word_of_int n) | _ \<Rightarrow> Inl NlohmannException),
     jl_get_ushort = (\<lambda>j. case j of JInt n \<Rightarrow> Inr (word_of_int n) | _ \<Rightarrow> Inl NlohmannException),
     jl_get_long = (\<lambda>j. case j of JInt n \<Rightarrow> Inr n | _ \<Rightarrow> Inl NlohmannException),
     jl_get_bool = (\<lambda>j. case j of JBool b \<Rightarrow> Inr b | _ \<Rightarrow> Inl NlohmannException),
     jl_get_double = (\<lambda>j. case j of JFloat d \<Rightarrow> Inr d | _ \<Rightarrow> Inl NlohmannException),
     jl_rj_parse = (\<lambda>t. if t = s then Some j else None), jl_render = (\<lambda>_. s)\<rparr>"

lemma one_doc_lib_ok: "json_lib_ok (one_doc_lib s j)"
  by (auto simp: json_lib_ok_def one_doc_lib_def split: json.splits)

lemma one_doc_reads_back: "c_str s = s \<Longrightarrow> reads_back (one_doc_lib s j) j"
  by (simp add: reads_back_def one_doc_lib_def)

subsection \<open>Properties\<close>



end
