(* ===== verification/IQ_Gelf_Format.thy ===== *)
theory IQ_Gelf_Format
  imports IQ_Formats
begin

text \<open>
  GELF messages (src/formats/gelf): decompression by magic bytes, the validation of a GELF
  document, the setting of fields by the outputs, and the two exports. The inflate routines of
  boost are the arguments \<open>gunzip\<close> and \<open>inflate\<close>; the wall clock and the host name are arguments.
  A string read through \<open>GetString()\<close> ends at its first NUL (\<open>c_str\<close>).
\<close>

subsection \<open>The message\<close>

record 'd gelf =
  gf_version :: string
  gf_host :: string
  gf_short_message :: string
  gf_full_message :: string
  gf_timestamp :: 'd
  gf_level :: "8 word"
  gf_additionalFields :: "'d object"

record ('d, 'ep) gelf_message =
  gm_input :: string
  gm_gelf :: "'d gelf"
  gm_endpoint :: 'ep

definition gelf_default :: "string \<Rightarrow> 'd \<Rightarrow> 'd gelf" where
  "gelf_default hostname now =
     \<lparr>gf_version = ''1.1'', gf_host = hostname, gf_short_message = [], gf_full_message = [],
      gf_timestamp = now, gf_level = 1, gf_additionalFields = []\<rparr>"

definition min_timestamp :: "'d dbl_ops \<Rightarrow> 'd" where
  "min_timestamp D = d_of_int D 1546300800"

definition isSystemField :: "string \<Rightarrow> bool" where
  "isSystemField key \<longleftrightarrow>
     key = ''version'' \<or> key = ''host'' \<or> key = ''short_message'' \<or> key = ''full_message''
     \<or> key = ''timestamp'' \<or> key = ''level''"

text \<open>The name under which an additional field is kept; \<open>key[0]\<close> of an empty key is NUL.\<close>

definition field_name :: "string \<Rightarrow> string" where
  "field_name key = (case key of c # _ \<Rightarrow> if c = CHR ''_'' then key else CHR ''_'' # key | [] \<Rightarrow> ''_'')"

subsection \<open>Parsing\<close>

definition gelf_version :: "(string \<times> 'd json) list \<Rightarrow> string outcome" where
  "gelf_version fs =
     (case map_of fs ''version'' of
        Some (JStr s) \<Rightarrow> (if c_str s = ''1.1'' then Inr (c_str s) else Inl GelfParseError)
      | _ \<Rightarrow> Inl GelfParseError)"

text \<open>The host and the short message: present, a string, not empty.\<close>

definition gelf_required :: "string \<Rightarrow> (string \<times> 'd json) list \<Rightarrow> string outcome" where
  "gelf_required key fs =
     (case map_of fs key of
        Some (JStr s) \<Rightarrow> (if c_str s = [] then Inl GelfParseError else Inr (c_str s))
      | _ \<Rightarrow> Inl GelfParseError)"

definition gelf_full_message :: "(string \<times> 'd json) list \<Rightarrow> string outcome" where
  "gelf_full_message fs =
     (case map_of fs ''full_message'' of
        None \<Rightarrow> Inr []
      | Some (JStr s) \<Rightarrow> Inr (c_str s)
      | Some _ \<Rightarrow> Inl GelfParseError)"

text \<open>A number is taken when its conversion to \<open>double\<close> loses nothing.\<close>

definition gelf_timestamp :: "'d dbl_ops \<Rightarrow> 'd \<Rightarrow> (string \<times> 'd json) list \<Rightarrow> 'd outcome" where
  "gelf_timestamp D now fs =
     (case map_of fs ''timestamp'' of
        None \<Rightarrow> Inr now
      | Some v \<Rightarrow>
          and_then
            (case v of
               JFloat d \<Rightarrow> Inr d
             | JInt n \<Rightarrow> (if d_exact D n then Inr (d_of_int D n) else Inl GelfParseError)
             | JStr s \<Rightarrow> d_stod D (c_str s)
             | _ \<Rightarrow> Inl GelfParseError)
            (\<lambda>t. if d_less D t (min_timestamp D) then Inl GelfParseError else Inr t))"

text \<open>The level is an \<open>unsigned char\<close>: the integer is cut to eight bits before it is checked.\<close>

definition gelf_level :: "(string \<times> 'd json) list \<Rightarrow> (8 word) outcome" where
  "gelf_level fs =
     (case map_of fs ''level'' of
        None \<Rightarrow> Inr 1
      | Some v \<Rightarrow>
          and_then
            (case v of
               JInt n \<Rightarrow> (if fits_int32 n then Inr (word_of_int n) else Inl GelfParseError)
             | JStr s \<Rightarrow> and_then (stoi (c_str s)) (\<lambda>n. Inr (word_of_int n))
             | _ \<Rightarrow> Inl GelfParseError)
            (\<lambda>l. if l < 1 \<or> 10 \<le> l then Inl GelfParseError else Inr l))"

definition gelf_field_value :: "'d json \<Rightarrow> 'd variant outcome" where
  "gelf_field_value v =
     (case v of
        JStr s \<Rightarrow> Inr (VStr (c_str s))
      | JInt n \<Rightarrow> (if fits_int32 n then Inr (VInt n) else Inl GelfParseError)
      | JFloat d \<Rightarrow> Inr (VDbl d)
      | JBool b \<Rightarrow> Inr (VBool b)
      | _ \<Rightarrow> Inl GelfParseError)"

fun gelf_fields :: "(string \<times> 'd json) list \<Rightarrow> 'd object \<Rightarrow> 'd object outcome" where
  "gelf_fields [] m = Inr m"
| "gelf_fields ((name, v) # r) m =
     (let key = c_str name
      in if isSystemField key then gelf_fields r m
         else and_then (gelf_field_value v) (\<lambda>x. gelf_fields r (emplace (field_name key) x m)))"

definition gelf_of_members :: "'d dbl_ops \<Rightarrow> 'd \<Rightarrow> (string \<times> 'd json) list \<Rightarrow> 'd gelf outcome" where
  "gelf_of_members D now fs =
     and_then (gelf_version fs) (\<lambda>version.
     and_then (gelf_required ''host'' fs) (\<lambda>host.
     and_then (gelf_required ''short_message'' fs) (\<lambda>short_message.
     and_then (gelf_full_message fs) (\<lambda>full_message.
     and_then (gelf_timestamp D now fs) (\<lambda>timestamp.
     and_then (gelf_level fs) (\<lambda>level.
     and_then (gelf_fields fs []) (\<lambda>additionalFields.
     Inr \<lparr>gf_version = version, gf_host = host, gf_short_message = short_message,
          gf_full_message = full_message, gf_timestamp = timestamp, gf_level = level,
          gf_additionalFields = additionalFields\<rparr>)))))))"

definition gelf_parse :: "'d dbl_ops \<Rightarrow> 'd json_lib \<Rightarrow> 'd \<Rightarrow> string \<Rightarrow> 'd gelf outcome" where
  "gelf_parse D L now message =
     (case jl_rj_parse L (c_str message) of
        Some (JObj fs) \<Rightarrow> gelf_of_members D now fs
      | _ \<Rightarrow> Inl GelfParseError)"

definition gelf_magic :: "string \<Rightarrow> bool" where
  "gelf_magic b \<longleftrightarrow>
     (b ! 0 = CHR 0x1F \<and> b ! 1 = CHR 0x8B) \<or> (b ! 0 = CHR 0x78 \<and> b ! 1 = CHR 0x01)
     \<or> (b ! 0 = CHR 0x78 \<and> b ! 1 = CHR 0x9C) \<or> (b ! 0 = CHR 0x78 \<and> b ! 1 = CHR 0xDA)"

definition decompress :: "(string \<Rightarrow> string option) \<Rightarrow> (string \<Rightarrow> string option) \<Rightarrow> string \<Rightarrow> string outcome" where
  "decompress gunzip inflate buffer =
     (if length buffer \<le> 2 then Inl GelfException
      else if gelf_magic buffer then
        (case (if buffer ! 0 = CHR 0x1F then gunzip buffer else inflate buffer) of
           None \<Rightarrow> Inl GelfUncompressError
         | Some s \<Rightarrow> Inr s)
      else Inr buffer)"

definition GelfMessage :: "'d dbl_ops \<Rightarrow> 'd json_lib \<Rightarrow> (string \<Rightarrow> string option) \<Rightarrow> (string \<Rightarrow> string option)
    \<Rightarrow> 'd \<Rightarrow> string \<Rightarrow> string \<Rightarrow> 'ep \<Rightarrow> ('d, 'ep) gelf_message outcome" where
  "GelfMessage D L gunzip inflate now input message endpoint =
     and_then (decompress gunzip inflate message) (\<lambda>text.
     and_then (gelf_parse D L now text) (\<lambda>g.
     Inr \<lparr>gm_input = input, gm_gelf = g, gm_endpoint = endpoint\<rparr>))"

subsection \<open>Setting fields\<close>

text \<open>
  \<open>setField\<close> is a template; these are the types the program calls it with. A document assigned
  to a string, a \<open>double\<close> or an \<open>unsigned char\<close> goes through the conversion operator of its
  library, which the compiler may not find (\<open>Inr None\<close>, the branch with the warning).
\<close>

datatype 'd field_arg = FString string | FInt int | FDouble 'd | FBool bool | FJson "'d json"

record 'd json_assign =
  ja_string :: "'d json \<Rightarrow> string option outcome"
  ja_double :: "'d json \<Rightarrow> 'd option outcome"
  ja_uchar :: "'d json \<Rightarrow> (8 word) option outcome"

definition arg_string :: "'d json_assign \<Rightarrow> 'd field_arg \<Rightarrow> string option outcome" where
  "arg_string A v = (case v of FString s \<Rightarrow> Inr (Some s) | FJson j \<Rightarrow> ja_string A j | _ \<Rightarrow> Inr None)"

definition arg_double :: "'d dbl_ops \<Rightarrow> 'd json_assign \<Rightarrow> 'd field_arg \<Rightarrow> 'd option outcome" where
  "arg_double D A v =
     (case v of
        FInt n \<Rightarrow> Inr (Some (d_of_int D n))
      | FDouble d \<Rightarrow> Inr (Some d)
      | FBool b \<Rightarrow> Inr (Some (d_of_int D (if b then 1 else 0)))
      | FString s \<Rightarrow> and_then (d_stod D s) (\<lambda>d. Inr (Some d))
      | FJson j \<Rightarrow> ja_double A j)"

definition arg_uchar :: "'d dbl_ops \<Rightarrow> 'd json_assign \<Rightarrow> 'd field_arg \<Rightarrow> (8 word) option outcome" where
  "arg_uchar D A v =
     (case v of
        FInt n \<Rightarrow> Inr (Some (word_of_int n))
      | FDouble d \<Rightarrow> Inr (Some (d_to_uchar D d))
      | FBool b \<Rightarrow> Inr (Some (if b then 1 else 0))
      | FString s \<Rightarrow> and_then (stoi s) (\<lambda>n. Inr (Some (word_of_int n)))
      | FJson j \<Rightarrow> ja_uchar A j)"

definition arg_variant :: "'d json_lib \<Rightarrow> 'd field_arg \<Rightarrow> 'd variant outcome" where
  "arg_variant L v =
     (case v of FString s \<Rightarrow> Inr (VStr s) | FInt n \<Rightarrow> Inr (VInt n) | FDouble d \<Rightarrow> Inr (VDbl d)
      | FBool b \<Rightarrow> Inr (VBool b) | FJson j \<Rightarrow> variant_from_json L j)"

definition assign_with :: "'v option outcome \<Rightarrow> ('v \<Rightarrow> 'd gelf \<Rightarrow> 'd gelf) \<Rightarrow> 'd gelf \<Rightarrow> 'd gelf outcome" where
  "assign_with r upd g = and_then r (\<lambda>v'. Inr (case v' of None \<Rightarrow> g | Some v \<Rightarrow> upd v g))"

definition setField :: "'d dbl_ops \<Rightarrow> 'd json_lib \<Rightarrow> 'd json_assign \<Rightarrow> string \<Rightarrow> 'd field_arg
    \<Rightarrow> 'd gelf \<Rightarrow> 'd gelf outcome" where
  "setField D L A key value g =
     (if key = [] then Inr g
      else if key = ''version'' then assign_with (arg_string A value) (\<lambda>s. gf_version_update (\<lambda>_. s)) g
      else if key = ''host'' then assign_with (arg_string A value) (\<lambda>s. gf_host_update (\<lambda>_. s)) g
      else if key = ''short_message'' then assign_with (arg_string A value) (\<lambda>s. gf_short_message_update (\<lambda>_. s)) g
      else if key = ''full_message'' then assign_with (arg_string A value) (\<lambda>s. gf_full_message_update (\<lambda>_. s)) g
      else if key = ''timestamp'' then assign_with (arg_double D A value) (\<lambda>d. gf_timestamp_update (\<lambda>_. d)) g
      else if key = ''level'' then assign_with (arg_uchar D A value) (\<lambda>l. gf_level_update (\<lambda>_. l)) g
      else and_then (arg_variant L value) (\<lambda>v. Inr (g\<lparr>gf_additionalFields :=
             emplace (field_name key) v (gf_additionalFields g)\<rparr>)))"

subsection \<open>Export\<close>

definition gelf_calls :: "'d gelf \<Rightarrow> 'd writer_call list" where
  "gelf_calls g =
     [WStartObject, WKey ''version'', WString (gf_version g), WKey ''host'', WString (gf_host g),
      WKey ''short_message'', WString (gf_short_message g)]
     @ (if gf_full_message g \<noteq> [] then [WKey ''full_message'', WString (gf_full_message g)] else [])
     @ [WKey ''timestamp'', WDouble (gf_timestamp g)]
     @ (if gf_level g \<noteq> 0 then [WKey ''level'', WInt (uint (gf_level g))] else [])
     @ write_object (gf_additionalFields g) @ [WEndObject]"

definition gelf_dump :: "'d json_lib \<Rightarrow> 'd gelf \<Rightarrow> string" where
  "gelf_dump L g = c_str (jl_render L (gelf_calls g))"

definition gelf_exportMessage :: "'d json_lib \<Rightarrow> ('d, 'ep) gelf_message \<Rightarrow> string" where
  "gelf_exportMessage L m = gelf_dump L (gm_gelf m)"

definition gelf_exportMessage2Json :: "'d json_lib \<Rightarrow> ('d, 'ep) gelf_message \<Rightarrow> string" where
  "gelf_exportMessage2Json L m =
     c_str (jl_render L [WStartObject, WKey ''input'', WString (gm_input m),
       WKey ''data'', WRaw (gelf_dump L (gm_gelf m)), WEndObject])"

text \<open>The document a dump writes.\<close>

definition gelf_json :: "'d gelf \<Rightarrow> 'd json" where
  "gelf_json g =
     JObj ([(''version'', JStr (gf_version g)), (''host'', JStr (gf_host g)),
            (''short_message'', JStr (gf_short_message g))]
       @ (if gf_full_message g \<noteq> [] then [(''full_message'', JStr (gf_full_message g))] else [])
       @ [(''timestamp'', JFloat (gf_timestamp g))]
       @ (if gf_level g \<noteq> 0 then [(''level'', JInt (uint (gf_level g)))] else [])
       @ map (\<lambda>(k, v). (c_str k, variant_json v)) (gf_additionalFields g))"

lemma gelf_calls_json: "gelf_calls g = json_calls (gelf_json g)"
  by (simp add: gelf_calls_def gelf_json_def write_object_def comp_def case_prod_unfold writeValue_calls)

subsection \<open>Additional fields\<close>

definition field_ok :: "string \<times> 'd variant \<Rightarrow> bool" where
  "field_ok p \<longleftrightarrow> (\<exists>r. fst p = CHR ''_'' # r) \<and> c_str (fst p) = fst p
     \<and> (case snd p of VStr s \<Rightarrow> c_str s = s | VInt n \<Rightarrow> fits_int32 n | _ \<Rightarrow> True)"

definition fields_ok :: "'d object \<Rightarrow> bool" where
  "fields_ok m \<longleftrightarrow> distinct (map fst m) \<and> (\<forall>p \<in> set m. field_ok p)"

lemma c_str_field_name: "c_str key = key \<Longrightarrow> c_str (field_name key) = field_name key"
  by (auto simp: field_name_def c_str_Cons split: list.splits)

lemma field_name_shape: "\<exists>r. field_name key = CHR ''_'' # r"
  by (cases key) (auto simp: field_name_def)

lemma distinct_emplace: "distinct (map fst m) \<Longrightarrow> distinct (map fst (emplace k v m))"
  by (auto simp: emplace_def map_of_eq_None_iff)

lemma set_emplace: "set (emplace k v m) \<subseteq> insert (k, v) (set m)"
  by (auto simp: emplace_def)

lemma gelf_field_value_ok:
  "gelf_field_value j = Inr v \<Longrightarrow> c_str key = key \<Longrightarrow> field_ok (field_name key, v)"
  by (auto simp: gelf_field_value_def field_ok_def c_str_field_name field_name_shape
      split: json.splits if_splits)

lemma gelf_fields_ok: "gelf_fields fs m = Inr m' \<Longrightarrow> fields_ok m \<Longrightarrow> fields_ok m'"
proof (induction fs m rule: gelf_fields.induct)
  case (2 name v r m)
  show ?case
  proof (cases "isSystemField (c_str name)")
    case True
    with 2 show ?thesis by (simp add: Let_def)
  next
    case False
    with 2(3) obtain x where x: "gelf_field_value v = Inr x"
        "gelf_fields r (emplace (field_name (c_str name)) x m) = Inr m'"
      by (auto simp: Let_def and_then_Inr_iff)
    have "fields_ok (emplace (field_name (c_str name)) x m)"
      using 2(4) gelf_field_value_ok [OF x(1) c_str_idem]
        set_emplace [of "field_name (c_str name)" x m]
      by (auto simp: fields_ok_def distinct_emplace)
    with 2(2) False x show ?thesis by blast
  qed
qed simp

definition extra_members :: "(string \<times> 'd json) list \<Rightarrow> (string \<times> 'd json) list" where
  "extra_members fs = filter (\<lambda>p. \<not> isSystemField (c_str (fst p))) fs"

definition extra_field :: "string \<times> 'd json \<Rightarrow> string \<times> 'd variant" where
  "extra_field p = (field_name (c_str (fst p)), projr (gelf_field_value (snd p)))"

lemma gelf_fields_map_of:
  "gelf_fields fs m = Inr m' \<Longrightarrow>
   map_of m' k = (case map_of m k of None \<Rightarrow> map_of (map extra_field (extra_members fs)) k | y \<Rightarrow> y)"
proof (induction fs m rule: gelf_fields.induct)
  case (2 name v r m)
  show ?case
  proof (cases "isSystemField (c_str name)")
    case True
    then have "extra_members ((name, v) # r) = extra_members r" by (simp add: extra_members_def)
    with 2 True show ?thesis by (cases "map_of m k") (simp_all add: Let_def)
  next
    case False
    with 2(3) obtain x where x: "gelf_field_value v = Inr x"
        "gelf_fields r (emplace (field_name (c_str name)) x m) = Inr m'"
      by (auto simp: Let_def and_then_Inr_iff)
    have "extra_members ((name, v) # r) = (name, v) # extra_members r" "extra_field (name, v) = (field_name (c_str name), x)"
      using x(1) False by (simp_all add: extra_members_def extra_field_def)
    with 2(2) [OF refl False x] show ?thesis
      by (auto simp: map_of_emplace split: option.splits)
  qed
qed (simp add: extra_members_def split: option.splits)

lemma gelf_fields_errors: "gelf_fields fs m = Inl e \<Longrightarrow> e = GelfParseError"
  by (induction fs m rule: gelf_fields.induct)
     (auto simp: Let_def and_then_Inl_iff gelf_field_value_def split: if_splits json.splits)

lemma not_system: "fst p = CHR ''_'' # r \<Longrightarrow> \<not> isSystemField (fst p)"
  by (simp add: isSystemField_def)

lemma gelf_field_value_json: "field_ok (k, v) \<Longrightarrow> gelf_field_value (variant_json v) = Inr v"
  by (cases v) (simp_all add: field_ok_def gelf_field_value_def)

lemma field_name_ok: "field_ok p \<Longrightarrow> field_name (fst p) = fst p"
  by (auto simp: field_ok_def field_name_def)

lemma gelf_fields_reread:
  "distinct (map fst (acc @ m)) \<Longrightarrow> \<forall>p \<in> set m. field_ok p \<Longrightarrow>
   gelf_fields (map (\<lambda>(k, v). (c_str k, variant_json v)) m) acc = Inr (acc @ m)"
proof (induction m arbitrary: acc)
  case (Cons p m)
  obtain k v where p: "p = (k, v)" by fastforce
  have ok: "field_ok (k, v)" using Cons.prems(2) p by simp
  then have "\<not> isSystemField k" "c_str k = k"
    using not_system [of "(k, v)"] by (auto simp: field_ok_def)
  moreover have "map_of acc k = None"
    using Cons.prems(1) p by (auto simp: map_of_eq_None_iff)
  moreover have "gelf_fields (map (\<lambda>(k, v). (c_str k, variant_json v)) m) (acc @ [(k, v)]) = Inr ((acc @ [(k, v)]) @ m)"
    using Cons.prems p by (intro Cons.IH) auto
  ultimately show ?case
    using p ok gelf_field_value_json [OF ok] field_name_ok [OF ok] by (simp add: Let_def emplace_def)
qed simp

subsection \<open>What a parsed message satisfies\<close>

definition gelf_ok :: "'d gelf \<Rightarrow> bool" where
  "gelf_ok g \<longleftrightarrow>
     gf_version g = ''1.1'' \<and> gf_host g \<noteq> [] \<and> c_str (gf_host g) = gf_host g
     \<and> gf_short_message g \<noteq> [] \<and> c_str (gf_short_message g) = gf_short_message g
     \<and> c_str (gf_full_message g) = gf_full_message g
     \<and> 1 \<le> gf_level g \<and> gf_level g < 10 \<and> fields_ok (gf_additionalFields g)"

lemma gelf_required_Inr: "gelf_required key fs = Inr s \<Longrightarrow> s \<noteq> [] \<and> c_str s = s"
  by (auto simp: gelf_required_def split: option.splits json.splits if_splits)

lemma gelf_level_check:
  "(if l < 1 \<or> 10 \<le> l then Inl e else Inr l) = Inr (k :: 8 word) \<Longrightarrow> 1 \<le> k \<and> k < 10"
  by (metis Inl_Inr_False Inr_inject not_less not_le)

lemma gelf_level_Inr: "gelf_level fs = Inr l \<Longrightarrow> 1 \<le> l \<and> l < 10"
  unfolding gelf_level_def
  by (cases "map_of fs ''level''")
     (force simp: and_then_Inr_iff dest: gelf_level_check simp del: word_less_1 not_less not_le)+

lemma gelf_timestamp_Inr:
  "gelf_timestamp D now fs = Inr t \<Longrightarrow> map_of fs ''timestamp'' \<noteq> None \<Longrightarrow> \<not> d_less D t (min_timestamp D)"
  by (auto simp: gelf_timestamp_def and_then_Inr_iff split: option.splits if_splits)

lemma gelf_of_members_Inr:
  assumes "gelf_of_members D now fs = Inr g"
  shows "gelf_ok g" "gelf_timestamp D now fs = Inr (gf_timestamp g)"
    "map_of (gf_additionalFields g) = map_of (map extra_field (extra_members fs))"
proof -
  from assms obtain v h s f t l a where
    p: "gelf_version fs = Inr v" "gelf_required ''host'' fs = Inr h"
       "gelf_required ''short_message'' fs = Inr s" "gelf_full_message fs = Inr f"
       "gelf_timestamp D now fs = Inr t" "gelf_level fs = Inr l" "gelf_fields fs [] = Inr a"
    and g: "g = \<lparr>gf_version = v, gf_host = h, gf_short_message = s, gf_full_message = f,
       gf_timestamp = t, gf_level = l, gf_additionalFields = a\<rparr>"
    by (auto simp: gelf_of_members_def and_then_Inr_iff)
  have "v = ''1.1''"
    using p(1) by (auto simp: gelf_version_def split: option.splits json.splits if_splits)
  moreover have "c_str f = f"
    using p(4) by (auto simp: gelf_full_message_def split: option.splits json.splits)
  moreover have "fields_ok a" by (rule gelf_fields_ok [OF p(7)]) (simp add: fields_ok_def)
  ultimately show "gelf_ok g"
    using gelf_required_Inr [OF p(2)] gelf_required_Inr [OF p(3)] gelf_level_Inr [OF p(6)] g
    by (simp add: gelf_ok_def)
  show "gelf_timestamp D now fs = Inr (gf_timestamp g)" using p(5) g by simp
  show "map_of (gf_additionalFields g) = map_of (map extra_field (extra_members fs))"
    using gelf_fields_map_of [OF p(7)] g by auto
qed

text \<open>A message that is well formed is read back from its own dump.\<close>

lemma map_of_fields_ok: "\<forall>p \<in> set m. field_ok p \<Longrightarrow> c \<noteq> CHR ''_'' \<Longrightarrow>
    map_of (map (\<lambda>(k, v). (c_str k, variant_json v)) m) (c # r) = None"
  by (induction m) (auto simp: field_ok_def)

lemma word8_fits: "fits_int32 (uint (l :: 8 word))"
proof -
  have "uint l < 256" "0 \<le> uint l" using uint_bounded [of l] by simp_all
  then have "- 2147483648 \<le> uint l" "uint l < 2147483648" by linarith+
  then show ?thesis by (simp add: fits_int32_def)
qed

lemma gelf_of_members_json:
  assumes "gelf_ok g" "\<not> d_less D (gf_timestamp g) (min_timestamp D)" "gelf_json g = JObj fs"
  shows "gelf_of_members D now fs = Inr g"
proof -
  let ?extra = "map (\<lambda>(k, v). (c_str k, variant_json v)) (gf_additionalFields g)"
  have ok: "\<forall>p \<in> set (gf_additionalFields g). field_ok p" "distinct (map fst (gf_additionalFields g))"
    using assms(1) by (simp_all add: gelf_ok_def fields_ok_def)
  have l: "gf_level g \<noteq> 0" using assms(1) by (auto simp: gelf_ok_def)
  have sys: "c_str ''version'' = ''version''" "c_str ''host'' = ''host''" "c_str ''short_message'' = ''short_message''"
      "c_str ''full_message'' = ''full_message''" "c_str ''timestamp'' = ''timestamp''" "c_str ''level'' = ''level''"
      "c_str ''1.1'' = ''1.1''"
    by (simp_all add: c_str_def)
  have extra: "gelf_fields ?extra [] = Inr (gf_additionalFields g)"
    using gelf_fields_reread [of "[]"] ok by simp
  have "gelf_fields fs [] = Inr (gf_additionalFields g)"
    using assms(3) l extra by (auto simp: gelf_json_def isSystemField_def Let_def sys split: if_splits)
  moreover have "gelf_level fs = Inr (gf_level g)"
    using assms(1,3) l by (auto simp: gelf_json_def gelf_level_def gelf_ok_def word8_fits)
  moreover have "gelf_full_message fs = Inr (gf_full_message g)"
    using assms(1,3) map_of_fields_ok [OF ok(1), of "CHR ''f''" "''ull_message''"]
    by (auto simp: gelf_json_def gelf_full_message_def gelf_ok_def)
  ultimately show ?thesis
    using assms by (auto simp: gelf_json_def gelf_of_members_def gelf_version_def gelf_required_def
        gelf_timestamp_def gelf_ok_def sys)
qed

subsection \<open>Setting fields\<close>

lemma assign_with_Inr: "assign_with r upd g = Inr g' \<Longrightarrow> g' = g \<or> (\<exists>v. g' = upd v g)"
  by (auto simp: assign_with_def and_then_Inr_iff split: option.splits)

lemma setField_other:
  assumes "\<not> isSystemField key" "key \<noteq> []"
  shows "setField D L A key value g = and_then (arg_variant L value) (\<lambda>v. Inr (g\<lparr>gf_additionalFields :=
             emplace (field_name key) v (gf_additionalFields g)\<rparr>))"
  using assms by (simp add: setField_def isSystemField_def)

lemma setField_fields:
  assumes "setField D L A key value g = Inr g'"
  shows "gf_additionalFields g' = gf_additionalFields g
    \<or> (\<exists>v. gf_additionalFields g' = emplace (field_name key) v (gf_additionalFields g))"
  using assms
  by (auto simp: setField_def and_then_Inr_iff dest!: assign_with_Inr split: if_splits)

subsection \<open>Properties\<close>

text \<open>
  C12: A GELF document that is accepted has version 1.1, a host and a short message that are not
  empty, a level from 1 to 9, and, when it names a timestamp, one not before the limit (that is
  not less than it); every member that is no system field is kept, under its name with an
  underscore in front when it has none, and of members with one name the first counts.
\<close>

theorem gelf_parse_accepts:
  assumes "gelf_parse D L now text = Inr g"
  shows "\<exists>fs. jl_rj_parse L (c_str text) = Some (JObj fs) \<and> gelf_ok g
    \<and> map_of (gf_additionalFields g) = map_of (map extra_field (extra_members fs))
    \<and> (if map_of fs ''timestamp'' = None then gf_timestamp g = now
       else \<not> d_less D (gf_timestamp g) (min_timestamp D))"
proof -
  from assms obtain fs where fs: "jl_rj_parse L (c_str text) = Some (JObj fs)" "gelf_of_members D now fs = Inr g"
    by (auto simp: gelf_parse_def split: option.splits json.splits)
  moreover have "if map_of fs ''timestamp'' = None then gf_timestamp g = now
      else \<not> d_less D (gf_timestamp g) (min_timestamp D)"
    using gelf_of_members_Inr(2) [OF fs(2)] gelf_timestamp_Inr [of D now fs "gf_timestamp g"]
    by (auto simp: gelf_timestamp_def)
  ultimately show ?thesis using gelf_of_members_Inr(1,3) [OF fs(2)] by blast
qed

definition sample_members :: "(string \<times> int json) list" where
  "sample_members = [(''version'', JStr ''1.1''), (''host'', JStr ''h''), (''short_message'', JStr ''hi''),
     (''level'', JInt 3), (''user'', JStr ''bob''), (''_user'', JStr ''eve'')]"

definition sample_gelf :: "int gelf" where
  "sample_gelf = \<lparr>gf_version = ''1.1'', gf_host = ''h'', gf_short_message = ''hi'', gf_full_message = [],
     gf_timestamp = 1600000000, gf_level = 3, gf_additionalFields = [(''_user'', VStr ''bob'')]\<rparr>"

lemma sample_parse: "gelf_parse int_dbl (one_doc_lib ''doc'' (JObj sample_members)) 1600000000 ''doc'' = Inr sample_gelf"
  by code_simp

lemma gelf_parse_accepts_witness:
  "\<exists>fs. jl_rj_parse (one_doc_lib ''doc'' (JObj sample_members)) ''doc'' = Some (JObj fs) \<and> gelf_ok sample_gelf
    \<and> map_of (gf_additionalFields sample_gelf) = map_of (map extra_field (extra_members fs))"
  using gelf_parse_accepts [OF sample_parse] by (auto simp: c_str_def)

text \<open>
  A GELF document that is refused is refused with a GELF parse error, which the importing input
  handles, or with what \<open>std::stod\<close> throws on a timestamp given as a string, or \<open>std::stoi\<close> on
  such a level; these two are not the program's exceptions and the input does not catch them.
\<close>

theorem gelf_parse_errors:
  assumes "gelf_parse D L now text = Inl e"
  shows "e = GelfParseError
    \<or> (\<exists>fs s. jl_rj_parse L (c_str text) = Some (JObj fs) \<and>
         (map_of fs ''timestamp'' = Some (JStr s) \<and> d_stod D (c_str s) = Inl e
          \<or> map_of fs ''level'' = Some (JStr s) \<and> stoi (c_str s) = Inl e))"
proof (cases "\<exists>fs. jl_rj_parse L (c_str text) = Some (JObj fs)")
  case True
  then obtain fs where fs: "jl_rj_parse L (c_str text) = Some (JObj fs)" "gelf_of_members D now fs = Inl e"
    using assms by (auto simp: gelf_parse_def)
  have simple: "gelf_version fs = Inl x \<Longrightarrow> x = GelfParseError" "gelf_required k fs = Inl x \<Longrightarrow> x = GelfParseError"
      "gelf_full_message fs = Inl x \<Longrightarrow> x = GelfParseError" for k x
    by (auto simp: gelf_version_def gelf_required_def gelf_full_message_def
        split: option.splits json.splits if_splits)
  have ts: "x = GelfParseError \<or> (\<exists>s. map_of fs ''timestamp'' = Some (JStr s) \<and> d_stod D (c_str s) = Inl x)"
    if "gelf_timestamp D now fs = Inl x" for x
    using that by (auto simp: gelf_timestamp_def and_then_Inl_iff split: option.splits json.splits if_splits)
  have lv: "x = GelfParseError \<or> (\<exists>s. map_of fs ''level'' = Some (JStr s) \<and> stoi (c_str s) = Inl x)"
    if "gelf_level fs = Inl x" for x
    using that by (auto simp: gelf_level_def and_then_Inl_iff split: option.splits json.splits if_splits)
  from fs show ?thesis
    by (auto simp: gelf_of_members_def and_then_Inl_iff dest: simple gelf_fields_errors ts lv)
next
  case False
  with assms show ?thesis by (auto simp: gelf_parse_def split: option.splits json.splits)
qed

definition bad_level_members :: "(string \<times> int json) list" where
  "bad_level_members = [(''version'', JStr ''1.1''), (''host'', JStr ''h''), (''short_message'', JStr ''hi''),
     (''level'', JStr ''high'')]"

lemma gelf_parse_errors_witness:
  "gelf_parse int_dbl (one_doc_lib ''doc'' (JObj bad_level_members)) 0 ''doc'' = Inl InvalidArgument
   \<and> (\<exists>fs s. jl_rj_parse (one_doc_lib ''doc'' (JObj bad_level_members)) (c_str ''doc'') = Some (JObj fs)
        \<and> stoi (c_str s) = Inl InvalidArgument)"
proof -
  have r: "gelf_parse int_dbl (one_doc_lib ''doc'' (JObj bad_level_members)) 0 ''doc'' = Inl InvalidArgument"
    by code_simp
  from gelf_parse_errors [OF r] r show ?thesis by (auto simp: int_dbl_def)
qed

text \<open>
  C11: What a message dumps is accepted again: from the text a parsed message writes, given a JSON
  library that reads back what it wrote, the parser gets the same message, field by field.
\<close>

theorem gelf_reparse:
  assumes "gelf_parse D L now text = Inr g"
    and "reads_back L (gelf_json g)" "\<not> d_less D now (min_timestamp D)"
  shows "gelf_parse D L now' (gelf_dump L g) = Inr g"
proof -
  from assms(1) obtain fs where fs: "gelf_of_members D now fs = Inr g"
    by (auto simp: gelf_parse_def split: option.splits json.splits)
  note g = gelf_of_members_Inr [OF fs]
  have t: "\<not> d_less D (gf_timestamp g) (min_timestamp D)"
  proof (cases "map_of fs ''timestamp''")
    case None
    then show ?thesis using g(2) assms(3) by (simp add: gelf_timestamp_def)
  next
    case Some
    then show ?thesis using gelf_timestamp_Inr [OF g(2)] by simp
  qed
  obtain fs' where "gelf_json g = JObj fs'" by (simp add: gelf_json_def)
  with gelf_of_members_json [OF g(1) t this] assms(2) show ?thesis
    by (simp add: gelf_parse_def gelf_dump_def gelf_calls_json reads_back_def)
qed

lemma gelf_reparse_witness:
  "gelf_dump (one_doc_lib ''doc'' (gelf_json sample_gelf)) sample_gelf = ''doc''
   \<and> gelf_parse int_dbl (one_doc_lib ''doc'' (gelf_json sample_gelf)) 5 ''doc'' = Inr sample_gelf"
proof -
  have p: "gelf_parse int_dbl (one_doc_lib ''doc'' (gelf_json sample_gelf)) 1600000000 ''doc'' = Inr sample_gelf"
    by code_simp
  have "gelf_dump (one_doc_lib ''doc'' (gelf_json sample_gelf)) sample_gelf = ''doc''"
    by (simp add: gelf_dump_def one_doc_lib_def c_str_def)
  with gelf_reparse [OF p one_doc_reads_back, of 5] show ?thesis
    by (simp add: int_dbl_def min_timestamp_def c_str_def)
qed

text \<open>
  The level is checked after it was cut to eight bits: an integer level outside 1 to 9 is accepted
  when its low byte is in that range, such as 257, which becomes level 1.
\<close>

theorem gelf_level_truncated:
  assumes "map_of fs ''level'' = Some (JInt n)" "fits_int32 n" "1 \<le> n mod 256" "n mod 256 < 10"
  shows "gelf_level fs = Inr (word_of_int n) \<and> uint (word_of_int n :: 8 word) = n mod 256"
proof -
  have u: "uint (word_of_int n :: 8 word) = n mod 256" by (simp add: uint_word_of_int)
  then have "\<not> (word_of_int n :: 8 word) < 1" "\<not> 10 \<le> (word_of_int n :: 8 word)"
    using assms(3,4) by (simp_all add: word_less_def word_le_def)
  with assms(1,2) u show ?thesis by (simp add: gelf_level_def)
qed

lemma gelf_level_truncated_witness:
  "gelf_level [(''level'', JInt 257 :: int json)] = Inr (word_of_int 257) \<and> uint (word_of_int 257 :: 8 word) = 257 mod 256"
  by (rule gelf_level_truncated) (simp_all add: fits_int32_def)

text \<open>
  Setting a field keeps the additional fields a map with distinct names that all begin with an
  underscore, never changes a field that is there, and a field with a value of the right type is
  there afterwards.
\<close>

theorem setField_additional:
  assumes "distinct (map fst (gf_additionalFields g))"
    and "\<forall>p \<in> set (gf_additionalFields g). \<exists>r. fst p = CHR ''_'' # r"
    and "setField D L A key value g = Inr g'"
  shows "distinct (map fst (gf_additionalFields g'))
    \<and> (\<forall>p \<in> set (gf_additionalFields g'). \<exists>r. fst p = CHR ''_'' # r)
    \<and> (\<forall>k v. map_of (gf_additionalFields g) k = Some v \<longrightarrow> map_of (gf_additionalFields g') k = Some v)
    \<and> (\<not> isSystemField key \<and> key \<noteq> [] \<longrightarrow> map_of (gf_additionalFields g') (field_name key) \<noteq> None)"
proof -
  have "\<not> isSystemField key \<Longrightarrow> key \<noteq> [] \<Longrightarrow> map_of (gf_additionalFields g') (field_name key) \<noteq> None"
    using assms(3) by (auto simp: setField_other and_then_Inr_iff map_of_emplace split: option.splits)
  moreover from setField_fields [OF assms(3)]
  have "distinct (map fst (gf_additionalFields g'))
    \<and> (\<forall>p \<in> set (gf_additionalFields g'). \<exists>r. fst p = CHR ''_'' # r)
    \<and> (\<forall>k v. map_of (gf_additionalFields g) k = Some v \<longrightarrow> map_of (gf_additionalFields g') k = Some v)"
  proof
    assume "\<exists>v. gf_additionalFields g' = emplace (field_name key) v (gf_additionalFields g)"
    then obtain v where v: "gf_additionalFields g' = emplace (field_name key) v (gf_additionalFields g)" by blast
    have "\<exists>r. fst p = CHR ''_'' # r" if "p \<in> set (gf_additionalFields g')" for p
      using that v assms(2) set_emplace [of "field_name key" v "gf_additionalFields g"] field_name_shape [of key]
      by auto
    with v assms(1) show ?thesis by (simp add: distinct_emplace map_of_emplace)
  qed (use assms(1,2) in simp)
  ultimately show ?thesis by blast
qed

lemma setField_additional_witness:
  "map_of (gf_additionalFields (sample_gelf\<lparr>gf_additionalFields := [(''_user'', VStr ''bob''), (''_n'', VInt 4)]\<rparr>)) ''_user''
     = Some (VStr ''bob'')"
proof -
  let ?A = "\<lparr>ja_string = \<lambda>_. Inr None, ja_double = \<lambda>_. Inr None, ja_uchar = \<lambda>_. Inr None\<rparr>"
  have s: "setField int_dbl (one_doc_lib ''doc'' JNull) ?A ''n'' (FInt 4) sample_gelf
      = Inr (sample_gelf\<lparr>gf_additionalFields := [(''_user'', VStr ''bob''), (''_n'', VInt 4)]\<rparr>)"
    by (simp add: setField_def sample_gelf_def arg_variant_def emplace_def field_name_def)
  show ?thesis
    using setField_additional [OF _ _ s] by (simp add: sample_gelf_def)
qed

end
