(* ===== verification/IQ_Message.thy ===== *)
theory IQ_Message
  imports IQ_Gelf_Format
begin

text \<open>
  The message variant that travels through the main queue (src/formats, src/outputs/gelf/Gelf.h):
  one of the messages of the five input formats or a message a processor made, with the two
  exports every alternative implements (src/formats/MessageInterface.h).
\<close>

datatype ('d, 'ep) message =
    MTail tail_message | MJournal "'d journal_message" | MGelf "('d, 'ep) gelf_message"
  | MJson "('d, 'ep) json_message" | MDummy dummy_message | MProcessor string

primrec exportMessage :: "'d json_lib \<Rightarrow> ('d, 'ep) message \<Rightarrow> string" where
  "exportMessage L (MTail m) = tm_data m"
| "exportMessage L (MJournal m) = journal_exportMessage L m"
| "exportMessage L (MGelf m) = gelf_exportMessage L m"
| "exportMessage L (MJson m) = json_exportMessage L m"
| "exportMessage L (MDummy m) = dm_data m"
| "exportMessage L (MProcessor s) = processor_exportMessage s"

primrec exportMessage2Json :: "'d json_lib \<Rightarrow> ('d, 'ep) message \<Rightarrow> string" where
  "exportMessage2Json L (MTail m) = c_str (jl_render L (tail_calls m))"
| "exportMessage2Json L (MJournal m) = c_str (jl_render L (journal_calls m))"
| "exportMessage2Json L (MGelf m) = gelf_exportMessage2Json L m"
| "exportMessage2Json L (MJson m) = json_exportMessage L m"
| "exportMessage2Json L (MDummy m) = c_str (jl_render L (dummy_calls m))"
| "exportMessage2Json L (MProcessor s) = processor_exportMessage s"

end
