(* ===== verification/IQ_Queue.thy ===== *)
theory IQ_Queue
  imports IQ_Prelude
begin

text \<open>
  The bounded message queue between the stages of the program (src/MessageQueue.h) with its
  overflow strategies (src/config/core/QueueOverflowStrategy.h). The lock-free queue under it,
  moodycamel::ConcurrentQueue, is not part of the repository: its operations are the fields of
  \<open>cq_lib\<close>, an argument of the model, and \<open>cq_ok\<close> states what its documentation promises.
  The interface the stages rely on is the locale \<open>bulk_queue\<close>, interpreted at the end on the
  operations of the model.
\<close>

subsection \<open>Overflow strategies\<close>

datatype overflow_type = OV_UNDEFINED | OV_THROTTLE | OV_DROP

definition strategy_to_str :: "overflow_type \<Rightarrow> string" where
  "strategy_to_str t =
     (case t of OV_UNDEFINED \<Rightarrow> ''undefined'' | OV_THROTTLE \<Rightarrow> ''throttle'' | OV_DROP \<Rightarrow> ''drop'')"

text \<open>\<open>frozen::unordered_map::at\<close> throws \<open>std::out_of_range\<close> for a missing key.\<close>

definition strategy_from_str :: "string \<Rightarrow> overflow_type outcome" where
  "strategy_from_str s =
     (if s = ''undefined'' then Inr OV_UNDEFINED
      else if s = ''throttle'' then Inr OV_THROTTLE
      else if s = ''drop'' then Inr OV_DROP
      else Inl OutOfRange)"

lemma strategy_roundtrip: "strategy_from_str (strategy_to_str t) = Inr t"
  by (cases t) (simp_all add: strategy_from_str_def strategy_to_str_def)

subsection \<open>The concurrent queue underneath\<close>

record ('q, 'a) cq_lib =
  cq_size_approx :: "'q \<Rightarrow> nat"
  cq_enqueue :: "'q \<Rightarrow> 'a \<Rightarrow> 'q \<times> bool"
  cq_enqueue_bulk :: "'q \<Rightarrow> 'a list \<Rightarrow> 'q \<times> bool"
  cq_try_dequeue :: "'q \<Rightarrow> 'q \<times> 'a option"
  cq_try_dequeue_bulk :: "'q \<Rightarrow> nat \<Rightarrow> 'q \<times> 'a list"
  cq_elems :: "'q \<Rightarrow> 'a multiset"

text \<open>
  \<open>cq_elems\<close> names what a queue holds. An accepted enqueue adds its items, a refused one adds
  nothing; a dequeue takes at most as many items as asked and takes some when there are some.
  No order between items is promised, as several producers may be active.
\<close>

definition cq_ok :: "('q, 'a) cq_lib \<Rightarrow> bool" where
  "cq_ok L \<longleftrightarrow>
     (\<forall>q a q' ok. cq_enqueue L q a = (q', ok) \<longrightarrow>
        cq_elems L q' = (if ok then add_mset a (cq_elems L q) else cq_elems L q))
     \<and> (\<forall>q xs q' ok. cq_enqueue_bulk L q xs = (q', ok) \<longrightarrow>
        cq_elems L q' = (if ok then cq_elems L q + mset xs else cq_elems L q))
     \<and> (\<forall>q q'. cq_try_dequeue L q = (q', None) \<longrightarrow> cq_elems L q' = cq_elems L q)
     \<and> (\<forall>q q' a. cq_try_dequeue L q = (q', Some a) \<longrightarrow> cq_elems L q = add_mset a (cq_elems L q'))
     \<and> (\<forall>q n q' xs. cq_try_dequeue_bulk L q n = (q', xs) \<longrightarrow>
        cq_elems L q = cq_elems L q' + mset xs \<and> length xs \<le> n
        \<and> (0 < n \<longrightarrow> xs = [] \<longrightarrow> cq_elems L q = {#}))"

lemma cq_okD:
  assumes "cq_ok L"
  shows "cq_enqueue L q a = (q', ok) \<Longrightarrow>
      cq_elems L q' = (if ok then add_mset a (cq_elems L q) else cq_elems L q)"
    and "cq_enqueue_bulk L q xs = (q', ok) \<Longrightarrow>
      cq_elems L q' = (if ok then cq_elems L q + mset xs else cq_elems L q)"
    and "cq_try_dequeue L q = (q', None) \<Longrightarrow> cq_elems L q' = cq_elems L q"
    and "cq_try_dequeue L q = (q', Some b) \<Longrightarrow> cq_elems L q = add_mset b (cq_elems L q')"
    and "cq_try_dequeue_bulk L q n = (q', ys) \<Longrightarrow> cq_elems L q = cq_elems L q' + mset ys"
    and "cq_try_dequeue_bulk L q n = (q', ys) \<Longrightarrow> length ys \<le> n"
    and "cq_try_dequeue_bulk L q n = (q', []) \<Longrightarrow> 0 < n \<Longrightarrow> cq_elems L q = {#}"
  using assms unfolding cq_ok_def by blast+

subsection \<open>MessageQueue\<close>

definition max_queue_bulk_size :: nat where
  "max_queue_bulk_size = 10000"

record 'q message_queue =
  mq_name :: string
  m_messageQueue :: 'q
  m_max_queue_size :: nat
  m_overflow_strategy :: overflow_type
  m_dropped :: "64 word"
  m_throttled :: "64 word"

definition MessageQueue_default :: "string \<Rightarrow> 'q \<Rightarrow> 'q message_queue" where
  "MessageQueue_default name q0 =
     \<lparr>mq_name = name, m_messageQueue = q0, m_max_queue_size = 10000,
      m_overflow_strategy = OV_THROTTLE, m_dropped = 0, m_throttled = 0\<rparr>"

definition MessageQueue :: "string \<Rightarrow> nat \<Rightarrow> overflow_type \<Rightarrow> 'q \<Rightarrow> 'q message_queue" where
  "MessageQueue name mx st q0 =
     \<lparr>mq_name = name, m_messageQueue = q0, m_max_queue_size = mx,
      m_overflow_strategy = st, m_dropped = 0, m_throttled = 0\<rparr>"

text \<open>
  What other threads do to the queue while a throttled producer sleeps: consumers take, other
  producers put. The environment of an enqueue is one list of such actions per sleep. The
  producer's loop looks at the size, sleeps, and looks again; it has not returned (\<open>None\<close>) when
  the environment ends with the queue still full.
\<close>

datatype 'a other_act = OtherTakes nat | OtherPuts "'a list"

fun other_acts :: "('q, 'a) cq_lib \<Rightarrow> 'q \<Rightarrow> 'a other_act list \<Rightarrow> 'q \<times> 'a list \<times> 'a list" where
  "other_acts L q [] = (q, [], [])"
| "other_acts L q (OtherTakes n # as) =
     (let (q1, xs) = cq_try_dequeue_bulk L q n; (q2, t, p) = other_acts L q1 as
      in (q2, xs @ t, p))"
| "other_acts L q (OtherPuts ys # as) =
     (let (q1, ok) = cq_enqueue_bulk L q ys; (q2, t, p) = other_acts L q1 as
      in (q2, t, (if ok then ys else []) @ p))"

fun wait_room :: "('q, 'a) cq_lib \<Rightarrow> nat \<Rightarrow> 'q \<Rightarrow> 'a other_act list list
    \<Rightarrow> ('q \<times> 'a list \<times> 'a list) option" where
  "wait_room L mx q [] = (if mx \<le> cq_size_approx L q then None else Some (q, [], []))"
| "wait_room L mx q (as # env) =
     (if mx \<le> cq_size_approx L q then
        (let (q1, t, p) = other_acts L q as
         in case wait_room L mx q1 env of
              None \<Rightarrow> None
            | Some (q2, t', p') \<Rightarrow> Some (q2, t @ t', p @ p'))
      else Some (q, [], []))"

text \<open>
  The result of an enqueue: the queue, the returned flag, and what other threads took and put
  while the producer slept.
\<close>

type_synonym ('q, 'a) push_result = "('q message_queue \<times> bool \<times> 'a list \<times> 'a list) option"

definition mq_enqueue_bulk :: "('q, 'a) cq_lib \<Rightarrow> 'a other_act list list \<Rightarrow> 'q message_queue
    \<Rightarrow> 'a list \<Rightarrow> ('q, 'a) push_result" where
  "mq_enqueue_bulk L env mq items =
     (if m_max_queue_size mq \<le> cq_size_approx L (m_messageQueue mq) then
        (case m_overflow_strategy mq of
           OV_DROP \<Rightarrow> Some (mq\<lparr>m_dropped := m_dropped mq + of_nat (length items)\<rparr>, False, [], [])
         | OV_THROTTLE \<Rightarrow>
             (case wait_room L (m_max_queue_size mq) (m_messageQueue mq) env of
                None \<Rightarrow> None
              | Some (q, t, p) \<Rightarrow>
                  (let (q', ok) = cq_enqueue_bulk L q items
                   in Some (mq\<lparr>m_throttled := m_throttled mq + of_nat (length items),
                               m_messageQueue := q'\<rparr>, ok, t, p)))
         | OV_UNDEFINED \<Rightarrow> Some (mq, False, [], []))
      else
        (let (q', ok) = cq_enqueue_bulk L (m_messageQueue mq) items
         in Some (mq\<lparr>m_messageQueue := q'\<rparr>, ok, [], [])))"

definition mq_enqueue :: "('q, 'a) cq_lib \<Rightarrow> 'a other_act list list \<Rightarrow> 'q message_queue
    \<Rightarrow> 'a \<Rightarrow> ('q, 'a) push_result" where
  "mq_enqueue L env mq item =
     (if m_max_queue_size mq \<le> cq_size_approx L (m_messageQueue mq) then
        (case m_overflow_strategy mq of
           OV_DROP \<Rightarrow> Some (mq\<lparr>m_dropped := m_dropped mq + 1\<rparr>, False, [], [])
         | OV_THROTTLE \<Rightarrow>
             (case wait_room L (m_max_queue_size mq) (m_messageQueue mq) env of
                None \<Rightarrow> None
              | Some (q, t, p) \<Rightarrow>
                  (let (q', ok) = cq_enqueue L q item
                   in Some (mq\<lparr>m_throttled := m_throttled mq + 1, m_messageQueue := q'\<rparr>, ok, t, p)))
         | OV_UNDEFINED \<Rightarrow> Some (mq, False, [], []))
      else
        (let (q', ok) = cq_enqueue L (m_messageQueue mq) item
         in Some (mq\<lparr>m_messageQueue := q'\<rparr>, ok, [], [])))"

definition mq_try_dequeue :: "('q, 'a) cq_lib \<Rightarrow> 'q message_queue \<Rightarrow> 'q message_queue \<times> 'a option" where
  "mq_try_dequeue L mq =
     (case cq_try_dequeue L (m_messageQueue mq) of (q', r) \<Rightarrow> (mq\<lparr>m_messageQueue := q'\<rparr>, r))"

definition mq_try_dequeue_bulk :: "('q, 'a) cq_lib \<Rightarrow> 'q message_queue \<Rightarrow> nat
    \<Rightarrow> 'q message_queue \<times> 'a list" where
  "mq_try_dequeue_bulk L mq mx =
     (case cq_try_dequeue_bulk L (m_messageQueue mq) mx of (q', xs) \<Rightarrow> (mq\<lparr>m_messageQueue := q'\<rparr>, xs))"

text \<open>The metrics a queue registers, with the value each callback reads.\<close>

definition registerMetrics :: "('q, 'a) cq_lib \<Rightarrow> 'q message_queue
    \<Rightarrow> (string \<times> ('q message_queue \<Rightarrow> 64 word)) list" where
  "registerMetrics L mq =
     [(mq_name mq @ ''.length'', \<lambda>m. of_nat (cq_size_approx L (m_messageQueue m))),
      (mq_name mq @ ''.dropped'', m_dropped),
      (mq_name mq @ ''.throttled'', m_throttled)]"

definition mq_held :: "('q, 'a) cq_lib \<Rightarrow> 'q message_queue \<Rightarrow> 'a multiset" where
  "mq_held L mq = cq_elems L (m_messageQueue mq)"

subsection \<open>Conservation\<close>

lemma other_acts_conserves:
  assumes "cq_ok L"
  shows "other_acts L q as = (q', t, p) \<Longrightarrow> cq_elems L q' + mset t = cq_elems L q + mset p"
proof (induction as arbitrary: q q' t p)
  case Nil
  then show ?case by simp
next
  case (Cons a as)
  show ?case
  proof (cases a)
    case (OtherTakes n)
    obtain q1 xs where d: "cq_try_dequeue_bulk L q n = (q1, xs)" by fastforce
    with Cons.prems OtherTakes obtain t1 where "other_acts L q1 as = (q', t1, p)" "t = xs @ t1"
      by (auto split: prod.splits)
    with Cons.IH cq_okD(5) [OF assms d] show ?thesis by fastforce
  next
    case (OtherPuts ys)
    obtain q1 ok where d: "cq_enqueue_bulk L q ys = (q1, ok)" by fastforce
    with Cons.prems OtherPuts obtain p1
      where "other_acts L q1 as = (q', t, p1)" "p = (if ok then ys else []) @ p1"
      by (auto split: prod.splits)
    with Cons.IH cq_okD(2) [OF assms d] show ?thesis by fastforce
  qed
qed

lemma wait_room_conserves:
  assumes "cq_ok L"
  shows "wait_room L mx q env = Some (q', t, p) \<Longrightarrow>
    cq_elems L q' + mset t = cq_elems L q + mset p"
proof (induction env arbitrary: q q' t p)
  case Nil
  then show ?case by (simp split: if_splits)
next
  case (Cons as env)
  show ?case
  proof (cases "mx \<le> cq_size_approx L q")
    case True
    obtain q1 t1 p1 where a: "other_acts L q as = (q1, t1, p1)" by (metis prod_cases3)
    with Cons.prems True obtain t2 p2
      where w: "wait_room L mx q1 env = Some (q', t2, p2)" "t = t1 @ t2" "p = p1 @ p2"
      by (auto split: option.splits)
    have "cq_elems L q' + mset t2 + mset t1 = cq_elems L q1 + mset p2 + mset t1"
      using Cons.IH [OF w(1)] by simp
    also have "\<dots> = cq_elems L q + mset p1 + mset p2"
      using other_acts_conserves [OF assms a] by (metis union_assoc union_commute)
    finally show ?thesis using w by (simp add: ac_simps)
  next
    case False
    with Cons.prems show ?thesis by simp
  qed
qed

lemma wait_room_below: "wait_room L mx q env = Some (q', t, p) \<Longrightarrow> cq_size_approx L q' < mx"
  by (induction env arbitrary: q t p) (auto simp: Let_def split: if_splits prod.splits option.splits)

text \<open>
  A throttled producer gets on as soon as one look finds room, however the other threads
  behaved before.
\<close>

lemma wait_room_returns:
  "cq_size_approx L q < mx \<Longrightarrow> wait_room L mx q env = Some (q, [], [])"
  by (cases env) simp_all

definition push_balance :: "('q, 'a) cq_lib \<Rightarrow> 'q message_queue \<Rightarrow> 'a list \<Rightarrow> 'q message_queue
    \<times> bool \<times> 'a list \<times> 'a list \<Rightarrow> bool" where
  "push_balance L mq xs r =
     (case r of (mq', ok, t, p) \<Rightarrow>
        mq_held L mq' + mset t = mq_held L mq + mset p + (if ok then mset xs else {#}))"

lemma mq_enqueue_bulk_balance:
  assumes "cq_ok L" and "mq_enqueue_bulk L env mq xs = Some r"
  shows "push_balance L mq xs r"
  using assms(2)
  by (auto simp: mq_enqueue_bulk_def push_balance_def mq_held_def Let_def ac_simps
      split: if_splits overflow_type.splits option.splits prod.splits
      dest!: wait_room_conserves [OF assms(1)] cq_okD(2) [OF assms(1)])

lemma mq_enqueue_balance:
  assumes "cq_ok L" and "mq_enqueue L env mq x = Some r"
  shows "push_balance L mq [x] r"
  using assms(2)
  by (auto simp: mq_enqueue_def push_balance_def mq_held_def Let_def ac_simps
      split: if_splits overflow_type.splits option.splits prod.splits
      dest!: wait_room_conserves [OF assms(1)] cq_okD(1) [OF assms(1)])

lemma mq_try_dequeue_bulk_balance:
  assumes "cq_ok L" and "mq_try_dequeue_bulk L mq n = (mq', xs)"
  shows "mq_held L mq = mq_held L mq' + mset xs" and "length xs \<le> n"
    and "0 < n \<Longrightarrow> xs = [] \<Longrightarrow> mq_held L mq = {#}"
  using assms(2) cq_okD(5-7) [OF assms(1)]
  by (auto simp: mq_try_dequeue_bulk_def mq_held_def split: prod.splits)

subsection \<open>The interface of a queue between two stages\<close>

text \<open>
  A consumer empties a queue by pulling until it gets nothing. \<open>rounds\<close> bounds the pulls.
\<close>

fun drain :: "('s \<Rightarrow> nat \<Rightarrow> 's \<times> 'a list) \<Rightarrow> nat \<Rightarrow> nat \<Rightarrow> 's \<Rightarrow> 's \<times> 'a list" where
  "drain pl 0 n s = (s, [])"
| "drain pl (Suc rounds) n s =
     (let (s1, xs) = pl s n
      in if xs = [] then (s1, []) else (let (s2, ys) = drain pl rounds n s1 in (s2, xs @ ys)))"

locale bulk_queue =
  fixes good :: "'l \<Rightarrow> bool"
    and held :: "'l \<Rightarrow> 's \<Rightarrow> 'a multiset"
    and push :: "'l \<Rightarrow> 'e \<Rightarrow> 's \<Rightarrow> 'a list \<Rightarrow> ('s \<times> bool \<times> 'a list \<times> 'a list) option"
    and pull :: "'l \<Rightarrow> 's \<Rightarrow> nat \<Rightarrow> 's \<times> 'a list"
  assumes push_law: "good l \<Longrightarrow> push l env s xs = Some (s', ok, t, p) \<Longrightarrow>
      held l s' + mset t = held l s + mset p + (if ok then mset xs else {#})"
    and pull_law: "good l \<Longrightarrow> pull l s n = (s', ys) \<Longrightarrow> held l s = held l s' + mset ys"
    and pull_bound: "good l \<Longrightarrow> pull l s n = (s', ys) \<Longrightarrow> length ys \<le> n"
    and pull_progress: "good l \<Longrightarrow> 0 < n \<Longrightarrow> pull l s n = (s', []) \<Longrightarrow> held l s = {#}"
begin

lemma drain_conserves:
  "good l \<Longrightarrow> drain (pull l) r n s = (s', ys) \<Longrightarrow> held l s = held l s' + mset ys"
proof (induction r arbitrary: s s' ys)
  case (Suc r)
  obtain s1 xs where p: "pull l s n = (s1, xs)" by fastforce
  with Suc.prems Suc.IH pull_law [OF Suc.prems(1) p] show ?case
    by (fastforce simp: ac_simps split: if_splits prod.splits)
qed simp

lemma drain_empties:
  "good l \<Longrightarrow> 0 < n \<Longrightarrow> size (held l s) < r \<Longrightarrow> drain (pull l) r n s = (s', ys) \<Longrightarrow>
   held l s' = {#} \<and> mset ys = held l s"
proof (induction r arbitrary: s s' ys)
  case (Suc r)
  obtain s1 xs where p: "pull l s n = (s1, xs)" by fastforce
  show ?case
  proof (cases "xs = []")
    case True
    have "held l s = {#}" using pull_progress Suc.prems(1,2) p True by blast
    moreover have "held l s1 = {#}" using pull_law [OF Suc.prems(1) p] calculation by simp
    ultimately show ?thesis using Suc.prems(4) p True by simp
  next
    case False
    obtain zs where d: "drain (pull l) r n s1 = (s', zs)" "ys = xs @ zs"
      using Suc.prems(4) p False by (auto split: prod.splits)
    have law: "held l s = held l s1 + mset xs" by (rule pull_law [OF Suc.prems(1) p])
    then have "size (held l s) = size (held l s1) + length xs" by simp
    moreover have "0 < length xs" using False by simp
    ultimately have "size (held l s1) < r" using Suc.prems(3) by linarith
    from Suc.IH [OF Suc.prems(1,2) this d(1)] law d(2) show ?thesis by simp
  qed
qed simp

lemma push_empty_env: "good l \<Longrightarrow> push l env s xs = Some (s', False, [], []) \<Longrightarrow> held l s' = held l s"
  using push_law by fastforce

end

text \<open>A stage that pulls from one queue, converts, and pushes into another.\<close>

locale queue_pair =
  src: bulk_queue good1 held1 push1 pull1 + dst: bulk_queue good2 held2 push2 pull2
  for good1 :: "'l \<Rightarrow> bool" and held1 :: "'l \<Rightarrow> 's \<Rightarrow> 'a multiset"
    and push1 :: "'l \<Rightarrow> 'e \<Rightarrow> 's \<Rightarrow> 'a list \<Rightarrow> ('s \<times> bool \<times> 'a list \<times> 'a list) option"
    and pull1 :: "'l \<Rightarrow> 's \<Rightarrow> nat \<Rightarrow> 's \<times> 'a list"
    and good2 :: "'m \<Rightarrow> bool" and held2 :: "'m \<Rightarrow> 't \<Rightarrow> 'b multiset"
    and push2 :: "'m \<Rightarrow> 'f \<Rightarrow> 't \<Rightarrow> 'b list \<Rightarrow> ('t \<times> bool \<times> 'b list \<times> 'b list) option"
    and pull2 :: "'m \<Rightarrow> 't \<Rightarrow> nat \<Rightarrow> 't \<times> 'b list"
begin

lemma hand_over:
  assumes "good1 l" "good2 m"
    and "pull1 l s n = (s', xs)"
    and "push2 m env d (List.map_filter f xs) = Some (d', ok, t, p)"
  shows "mconv f (held1 l s) + held2 m d + mset p
    = mconv f (held1 l s') + held2 m d' + mset t + (if ok then {#} else mset (List.map_filter f xs))"
proof -
  have "held1 l s = held1 l s' + mset xs" by (rule src.pull_law [OF assms(1,3)])
  then have "mconv f (held1 l s) = mconv f (held1 l s') + mset (List.map_filter f xs)" by simp
  with dst.push_law [OF assms(2,4)] show ?thesis by (simp add: ac_simps)
qed

end

interpretation mq: bulk_queue cq_ok mq_held mq_enqueue_bulk mq_try_dequeue_bulk
proof unfold_locales
  fix L env s xs s' ok t p
  assume "cq_ok L" "mq_enqueue_bulk L env s xs = Some (s', ok, t, p)"
  then show "mq_held L s' + mset t = mq_held L s + mset p + (if ok then mset xs else {#})"
    using mq_enqueue_bulk_balance by (fastforce simp: push_balance_def)
qed (use mq_try_dequeue_bulk_balance in blast)+

subsection \<open>Queues that lose nothing\<close>

text \<open>
  A queue that, unless somebody else interferes, loses nothing: a producer that waits for room
  delivers everything it has once there is room.
\<close>

locale steady_queue = bulk_queue good held push pull
  for good :: "'l \<Rightarrow> bool" and held :: "'l \<Rightarrow> 's \<Rightarrow> 'a multiset"
    and push :: "'l \<Rightarrow> 'e \<Rightarrow> 's \<Rightarrow> 'a list \<Rightarrow> ('s \<times> bool \<times> 'a list \<times> 'a list) option"
    and pull :: "'l \<Rightarrow> 's \<Rightarrow> nat \<Rightarrow> 's \<times> 'a list" +
  fixes idle :: 'e and reliable :: "'l \<Rightarrow> bool" and waits :: "'s \<Rightarrow> bool"
  assumes push_idle: "push l idle s xs = Some (s', ok, t, p) \<Longrightarrow> t = [] \<and> p = []"
    and push_waits: "push l env s xs = Some (s', ok, t, p) \<Longrightarrow> waits s' = waits s"
    and pull_waits: "pull l s n = (s', ys) \<Longrightarrow> waits s' = waits s"
    and push_reliable: "reliable l \<Longrightarrow> waits s \<Longrightarrow> push l idle s xs = Some (s', ok, t, p) \<Longrightarrow> ok"
begin

lemma push_held:
  assumes "good l" "push l idle s xs = Some (s', ok, t, p)"
  shows "held l s' = held l s + (if ok then mset xs else {#})"
  using push_law [OF assms] push_idle [OF assms(2)] by simp

lemma push_lost:
  assumes "good l" "push l idle s xs = Some (s', ok, t, p)"
  shows "\<exists>lost. held l s' + lost = held l s + mset xs \<and> (reliable l \<and> waits s \<longrightarrow> lost = {#})"
proof (intro exI conjI impI)
  show "held l s' + (if ok then {#} else mset xs) = held l s + mset xs"
    using push_held [OF assms] by simp
  show "(if ok then {#} else mset xs) = {#}" if "reliable l \<and> waits s"
    using push_reliable [OF _ _ assms(2)] that by simp
qed

end

definition cq_reliable :: "('q, 'a) cq_lib \<Rightarrow> bool" where
  "cq_reliable L \<longleftrightarrow> (\<forall>q xs. snd (cq_enqueue_bulk L q xs))"

definition mq_waits :: "'q message_queue \<Rightarrow> bool" where
  "mq_waits mq \<longleftrightarrow> m_overflow_strategy mq = OV_THROTTLE"

lemma wait_room_alone: "wait_room L mx q [] = Some (q', t, p) \<Longrightarrow> q' = q \<and> t = [] \<and> p = []"
  by (simp split: if_splits)

interpretation flow: steady_queue cq_ok mq_held mq_enqueue_bulk mq_try_dequeue_bulk "[]" cq_reliable mq_waits
proof unfold_locales
  fix L env s xs s' ok t p
  show "t = [] \<and> p = []" if "mq_enqueue_bulk L [] s xs = Some (s', ok, t, p)"
    using that by (auto simp: mq_enqueue_bulk_def Let_def split: if_splits overflow_type.splits option.splits prod.splits
        dest!: wait_room_alone)
  show "mq_waits s' = mq_waits s" if "mq_enqueue_bulk L env s xs = Some (s', ok, t, p)"
    using that by (auto simp: mq_enqueue_bulk_def mq_waits_def Let_def
        split: if_splits overflow_type.splits option.splits prod.splits)
  show ok if "cq_reliable L" "mq_waits s" "mq_enqueue_bulk L [] s xs = Some (s', ok, t, p)"
    using that by (auto simp: mq_enqueue_bulk_def mq_waits_def cq_reliable_def Let_def
        split: if_splits overflow_type.splits option.splits prod.splits) (metis snd_conv)+
qed (auto simp: mq_try_dequeue_bulk_def mq_waits_def split: prod.splits)

subsection \<open>A concrete queue\<close>

text \<open>A list as the concurrent queue, for the concrete runs of the development.\<close>

definition list_cq :: "('a list, 'a) cq_lib" where
  "list_cq = \<lparr>cq_size_approx = length, cq_enqueue = (\<lambda>q a. (q @ [a], True)),
     cq_enqueue_bulk = (\<lambda>q xs. (q @ xs, True)),
     cq_try_dequeue = (\<lambda>q. case q of [] \<Rightarrow> ([], None) | a # r \<Rightarrow> (r, Some a)),
     cq_try_dequeue_bulk = (\<lambda>q n. (drop n q, take n q)), cq_elems = mset\<rparr>"

lemma list_cq_ok: "cq_ok list_cq"
  by (auto simp: cq_ok_def list_cq_def union_commute split: list.splits)

lemma list_cq_reliable [simp]: "cq_reliable list_cq"
  by (simp add: cq_reliable_def list_cq_def)

lemma list_cq_sel [simp]:
  "cq_size_approx list_cq = length"
  "cq_enqueue list_cq q a = (q @ [a], True)"
  "cq_enqueue_bulk list_cq q xs = (q @ xs, True)"
  "cq_try_dequeue_bulk list_cq q n = (drop n q, take n q)"
  "cq_elems list_cq = mset"
  by (simp_all add: list_cq_def)

end
