(* ===== verification/IQ_Processor.thy ===== *)
theory IQ_Processor
  imports IQ_Message IQ_Queue
begin

text \<open>
  The script processors (src/processor): the registry of scripts and the queue of the processor
  machine (ProcessorMachine.cpp, .h), the scope that compiles the scripts and runs them on
  messages (v8/IsolateScope.cpp, v8/ObjectWrapper.h), and one turn of a processor thread. The
  JavaScript engine is the argument \<open>v8_lib\<close>: each field is a call of its API on the state of an
  isolate. Unwrapping an empty result with \<open>ToLocalChecked\<close> and calling an empty handle end the
  program, the result \<open>Aborted\<close>.
\<close>

subsection \<open>The engine\<close>

record ('st, 's, 'sc, 'fn, 'v) v8_lib =
  v8_string :: "'st \<Rightarrow> string \<Rightarrow> 'st \<times> 's option"
  v8_compile :: "'st \<Rightarrow> 's \<Rightarrow> 'st \<times> 'sc option"
  v8_run :: "'st \<Rightarrow> 'sc \<Rightarrow> 'st \<times> 'v option"
  v8_call :: "'st \<Rightarrow> 'fn \<Rightarrow> 'v \<Rightarrow> 'st \<times> 'v option"
  v8_json_parse :: "'st \<Rightarrow> 's \<Rightarrow> 'st \<times> 'v option"
  v8_stringify :: "'st \<Rightarrow> 'v \<Rightarrow> 'st \<times> string option"
  v8_new_object :: "'st \<Rightarrow> 'st \<times> 'v"
  v8_set_console :: "'st \<Rightarrow> 'st \<times> bool"
  v8_pump :: "'st \<Rightarrow> 'st option"
  v8_function :: "'v \<Rightarrow> 'fn option"
  v8_is_false :: "'v \<Rightarrow> bool"
  v8_is_object :: "'v \<Rightarrow> bool"
  v8_is_string :: "'v \<Rightarrow> bool"
  v8_utf8 :: "'v \<Rightarrow> string"
  v8_caught :: "'st \<Rightarrow> bool"
  v8_has_message :: "'st \<Rightarrow> bool"

text \<open>An engine call whose empty result is thrown as a processor exception.\<close>

definition js_try :: "'st \<times> 'a option \<Rightarrow> ('st \<times> 'a run_result) option" where
  "js_try r = Some (case r of (st, Some a) \<Rightarrow> (st, Returned a) | (st, None) \<Rightarrow> (st, Threw ProcessorException))"

text \<open>
  \<open>processException\<close> throws when the engine has a message for the exception and returns when it
  has none; it runs when the try-catch block has caught something.
\<close>

definition check_caught :: "('st, 's, 'sc, 'fn, 'v) v8_lib \<Rightarrow> 'st \<Rightarrow> ('st \<times> unit run_result) option" where
  "check_caught V st =
     Some (st, if v8_caught V st \<and> v8_has_message V st then Threw ProcessorException else Returned ())"

text \<open>The loop over the pending tasks of the platform; it may not end.\<close>

partial_function (option) pump_loop :: "('st, 's, 'sc, 'fn, 'v) v8_lib \<Rightarrow> 'st \<Rightarrow> 'st option" where
  "pump_loop V st = (case v8_pump V st of None \<Rightarrow> Some st | Some st' \<Rightarrow> pump_loop V st')"

subsection \<open>Compiling the scripts\<close>

type_synonym script_map = "(16 word \<times> string) list"

definition compile_script :: "('st, 's, 'sc, 'fn, 'v) v8_lib \<Rightarrow> 'st \<Rightarrow> string \<Rightarrow> ('st \<times> 'fn run_result) option" where
  "compile_script V st text =
     run_then (js_try (v8_string V st (c_str text))) (\<lambda>st source.
     run_then (check_caught V st) (\<lambda>st _.
     run_then (js_try (v8_compile V st source)) (\<lambda>st script.
     run_then (check_caught V st) (\<lambda>st _.
     run_then (js_try (v8_run V st script)) (\<lambda>st value.
     run_then (check_caught V st) (\<lambda>st _.
     case pump_loop V st of
       None \<Rightarrow> None
     | Some st \<Rightarrow>
         (case v8_function V value of
            None \<Rightarrow> Some (st, Threw ProcessorException)
          | Some f \<Rightarrow> Some (st, Returned f))))))))"

fun compile_scripts :: "('st, 's, 'sc, 'fn, 'v) v8_lib \<Rightarrow> 'st \<Rightarrow> script_map \<Rightarrow> (16 word \<times> 'fn) list
    \<Rightarrow> ('st \<times> (16 word \<times> 'fn) list run_result) option" where
  "compile_scripts V st [] fs = Some (st, Returned fs)"
| "compile_scripts V st ((i, text) # r) fs =
     run_then (compile_script V st text) (\<lambda>st f. compile_scripts V st r (AList.update i f fs))"

definition IsolateScope :: "('st, 's, 'sc, 'fn, 'v) v8_lib \<Rightarrow> 'st \<Rightarrow> script_map
    \<Rightarrow> ('st \<times> (16 word \<times> 'fn) list run_result) option" where
  "IsolateScope V st scriptMap =
     (case v8_set_console V st of
        (st, True) \<Rightarrow> compile_scripts V st scriptMap []
      | (st, False) \<Rightarrow>
          (if v8_caught V st
           then run_then (check_caught V st) (\<lambda>st _. compile_scripts V st scriptMap [])
           else Some (st, Threw ProcessorException)))"

definition checkScript :: "('st, 's, 'sc, 'fn, 'v) v8_lib \<Rightarrow> 'st \<Rightarrow> string \<Rightarrow> bool option" where
  "checkScript V st script_source =
     (case IsolateScope V st [(0, script_source)] of
        Some (_, Returned _) \<Rightarrow> Some True
      | Some (_, Threw e) \<Rightarrow> Some (\<not> catches StdException e)
      | _ \<Rightarrow> None)"

subsection \<open>Running a script on a message\<close>

text \<open>A message is exported as JSON and parsed by the engine, and has to come out as an object.\<close>

definition wrapObject :: "('st, 's, 'sc, 'fn, 'v) v8_lib \<Rightarrow> 'd json_lib \<Rightarrow> 'st \<Rightarrow> ('d, 'ep) message
    \<Rightarrow> ('st \<times> 'v run_result) option" where
  "wrapObject V L st m =
     (case v8_string V st (c_str (exportMessage2Json L m)) of
        (st, None) \<Rightarrow> Some (st, Aborted)
      | (st, Some s) \<Rightarrow>
          run_then (js_try (v8_json_parse V st s)) (\<lambda>st v.
            Some (st, if v8_is_object V v then Returned v else Threw ProcessorException)))"

declare wrapObject_def [simp]

definition makeJsObject :: "('st, 's, 'sc, 'fn, 'v) v8_lib \<Rightarrow> 'd json_lib \<Rightarrow> 'st \<Rightarrow> ('d, 'ep) message
    \<Rightarrow> ('st \<times> 'v run_result) option" where
  "makeJsObject V L st m =
     (case m of
        MProcessor _ \<Rightarrow> (case v8_new_object V st of (st, v) \<Rightarrow> Some (st, Returned v))
      | _ \<Rightarrow> wrapObject V L st m)"

definition js_message :: "('st, 's, 'sc, 'fn, 'v) v8_lib \<Rightarrow> 'st \<Rightarrow> 'v
    \<Rightarrow> ('st \<times> ('d, 'ep) message option run_result) option" where
  "js_message V st result =
     (if v8_is_false V result then Some (st, Returned None)
      else if v8_is_object V result then
        run_then (js_try (v8_stringify V st result)) (\<lambda>st text.
        run_then (check_caught V st) (\<lambda>st _.
          Some (st, Returned (Some (MProcessor (c_str text))))))
      else if v8_is_string V result then Some (st, Returned (Some (MProcessor (c_str (v8_utf8 V result)))))
      else Some (st, Threw ProcessorException))"

text \<open>
  The map lookup \<open>m_functions[scriptIndex]\<close> of an index without script makes an empty handle. The
  index is a \<open>short\<close>, compared with the number of scripts.
\<close>

definition isolate_process :: "('st, 's, 'sc, 'fn, 'v) v8_lib \<Rightarrow> 'd json_lib \<Rightarrow> (16 word \<times> 'fn) list \<Rightarrow> 'st
    \<Rightarrow> ('d, 'ep) message \<times> 16 word \<Rightarrow> ('st \<times> ('d, 'ep) message option run_result) option" where
  "isolate_process V L m_functions st r =
     (case r of (message, scriptIndex) \<Rightarrow>
        if length m_functions < unat scriptIndex then Some (st, Threw ProcessorException)
        else
          run_then (makeJsObject V L st message) (\<lambda>st jsObject.
          case map_of m_functions scriptIndex of
            None \<Rightarrow> Some (st, Aborted)
          | Some f \<Rightarrow>
              run_then (js_try (v8_call V st f jsObject)) (\<lambda>st result.
              run_then (check_caught V st) (\<lambda>st _.
              run_then (js_message V st result) (\<lambda>st resultMessage.
              case pump_loop V st of
                None \<Rightarrow> None
              | Some st \<Rightarrow> Some (st, Returned resultMessage))))))"

subsection \<open>The machine\<close>

record 'q processor_machine =
  m_scriptSources :: "string list"
  m_processQueue :: "'q message_queue"

definition ProcessorMachine :: "'q \<Rightarrow> 'q processor_machine" where
  "ProcessorMachine q0 =
     \<lparr>m_scriptSources = [], m_processQueue = MessageQueue_default ''processor.queue'' q0\<rparr>"

definition addProcessor :: "string \<Rightarrow> 'q processor_machine \<Rightarrow> 'q processor_machine \<times> 16 word" where
  "addProcessor script_source pm =
     (pm\<lparr>m_scriptSources := m_scriptSources pm @ [script_source]\<rparr>, of_nat (length (m_scriptSources pm)))"

definition process_bulk :: "('q, 'm \<times> 16 word) cq_lib \<Rightarrow> ('m \<times> 16 word) other_act list list
    \<Rightarrow> 'm list \<Rightarrow> 16 word \<Rightarrow> 'q message_queue \<Rightarrow> ('q, 'm \<times> 16 word) push_result" where
  "process_bulk L env items scriptIndex q =
     mq_enqueue_bulk L env q (map (\<lambda>m. (m, scriptIndex)) items)"

definition processor_process :: "('q, 'm \<times> 16 word) cq_lib \<Rightarrow> ('m \<times> 16 word) other_act list list
    \<Rightarrow> 'm \<Rightarrow> 16 word \<Rightarrow> 'q message_queue \<Rightarrow> ('q, 'm \<times> 16 word) push_result" where
  "processor_process L env item scriptIndex q = mq_enqueue L env q (item, scriptIndex)"

text \<open>
  The scripts a thread compiles when it starts: the index, an \<open>unsigned short\<close>, runs below the
  number of sources. With 65536 sources or more it would never end (\<open>None\<close>).
\<close>

definition thread_scripts :: "string list \<Rightarrow> script_map option" where
  "thread_scripts sources =
     (if length sources < 2 ^ 16
      then Some (map (\<lambda>i. (of_nat i, sources ! i)) [0..<length sources]) else None)"

text \<open>
  The messages of one bulk: what a script returns is kept, a message a script refuses or that
  throws one of the program's exceptions is dropped.
\<close>

fun process_records :: "('st, 's, 'sc, 'fn, 'v) v8_lib \<Rightarrow> 'd json_lib \<Rightarrow> (16 word \<times> 'fn) list \<Rightarrow> 'st
    \<Rightarrow> (('d, 'ep) message \<times> 16 word) list \<Rightarrow> ('st \<times> ('d, 'ep) message list run_result) option" where
  "process_records V L fs st [] = Some (st, Returned [])"
| "process_records V L fs st (r # rs) =
     (case isolate_process V L fs st r of
        None \<Rightarrow> None
      | Some (st, Aborted) \<Rightarrow> Some (st, Aborted)
      | Some (st, Threw e) \<Rightarrow>
          (if catches IqException e then process_records V L fs st rs else Some (st, Threw e))
      | Some (st, Returned None) \<Rightarrow> process_records V L fs st rs
      | Some (st, Returned (Some m)) \<Rightarrow>
          run_then (process_records V L fs st rs) (\<lambda>st ms. Some (st, Returned (m # ms))))"

text \<open>One turn of a thread; an exception that is not the program's ends the thread and the machine.\<close>

definition processor_turn ::
  "('st, 's, 'sc, 'fn, 'v) v8_lib \<Rightarrow> 'd json_lib \<Rightarrow> (16 word \<times> 'fn) list
   \<Rightarrow> ('p, ('d, 'ep) message \<times> 16 word) cq_lib \<Rightarrow> ('q, ('d, 'ep) message) cq_lib
   \<Rightarrow> ('d, 'ep) message other_act list list
   \<Rightarrow> 'st \<times> 'p message_queue \<times> 'q message_queue
   \<Rightarrow> (('st \<times> 'p message_queue \<times> 'q message_queue) run_result) option" where
  "processor_turn V L fs LP LM env s =
     (case s of (st, pq, mq) \<Rightarrow>
        (let (pq, records) = mq_try_dequeue_bulk LP pq max_queue_bulk_size
         in case process_records V L fs st records of
              None \<Rightarrow> None
            | Some (st, Aborted) \<Rightarrow> Some Aborted
            | Some (st, Threw e) \<Rightarrow> Some (Threw e)
            | Some (st, Returned messages) \<Rightarrow>
                (if messages = [] then Some (Returned (st, pq, mq))
                 else (case mq_enqueue_bulk LM env mq messages of
                         None \<Rightarrow> None
                       | Some (mq, ok, t, p) \<Rightarrow> Some (Returned (st, pq, mq))))))"

subsection \<open>Steps of a run\<close>

lemma run_then_Some_iff:
  "run_then r f = Some x \<longleftrightarrow>
     (\<exists>st a. r = Some (st, Returned a) \<and> f st a = Some x)
     \<or> (\<exists>st e. r = Some (st, Threw e) \<and> x = (st, Threw e))
     \<or> (\<exists>st. r = Some (st, Aborted) \<and> x = (st, Aborted))"
  by (cases x) (auto simp: run_then_def split: option.splits run_result.splits)

lemma run_then_simps [simp]:
  "run_then (Some (st, Returned a)) f = f st a"
  "run_then (Some (st, Threw e)) f = Some (st, Threw e)"
  "run_then (Some (st, Aborted)) f = Some (st, Aborted)"
  "run_then None f = None"
  by (simp_all add: run_then_def)

lemma js_try_simps [simp]:
  "js_try (st, Some a) = Some (st, Returned a)"
  "js_try (st, None) = Some (st, Threw ProcessorException)"
  by (simp_all add: js_try_def)

text \<open>
  What the engine's documentation says of its try-catch block: an empty result of a call means
  that an exception was caught, and a caught exception stays until the block is reset, which the
  program never does.
\<close>

definition poisoned :: "('st, 's, 'sc, 'fn, 'v) v8_lib \<Rightarrow> 'st \<Rightarrow> bool" where
  "poisoned V st \<longleftrightarrow> v8_caught V st \<and> v8_has_message V st"

definition v8_sticky :: "('st, 's, 'sc, 'fn, 'v) v8_lib \<Rightarrow> bool" where
  "v8_sticky V \<longleftrightarrow>
     (\<forall>st. poisoned V st \<longrightarrow>
        (\<forall>s. poisoned V (fst (v8_string V st s))) \<and> (\<forall>s. poisoned V (fst (v8_json_parse V st s)))
        \<and> poisoned V (fst (v8_new_object V st)) \<and> (\<forall>f v. poisoned V (fst (v8_call V st f v))))
     \<and> (\<forall>st f v st'. v8_call V st f v = (st', None) \<longrightarrow> poisoned V st')"

lemma v8_stickyD:
  assumes "v8_sticky V"
  shows "poisoned V st \<Longrightarrow> v8_string V st s = (st', x1) \<Longrightarrow> poisoned V st'"
    and "poisoned V st \<Longrightarrow> v8_json_parse V st s' = (st', x2) \<Longrightarrow> poisoned V st'"
    and "poisoned V st \<Longrightarrow> v8_new_object V st = (st', x3) \<Longrightarrow> poisoned V st'"
    and "poisoned V st \<Longrightarrow> v8_call V st f v = (st', x2) \<Longrightarrow> poisoned V st'"
    and "v8_call V st f v = (st', None) \<Longrightarrow> poisoned V st'"
  using assms unfolding v8_sticky_def by (metis fst_conv)+

lemma makeJsObject_poisoned:
  assumes "v8_sticky V" "poisoned V st" "makeJsObject V L st m = Some (st', r)"
  shows "poisoned V st'"
  using assms(2,3)
  by (auto simp: makeJsObject_def run_then_Some_iff js_try_def
      split: message.splits prod.splits option.splits
      dest: v8_stickyD(1-3) [OF assms(1)])

lemma makeJsObject_throws:
  "makeJsObject V L st m = Some (st', Threw e) \<Longrightarrow> e = ProcessorException"
  by (auto simp: makeJsObject_def run_then_Some_iff js_try_def split: message.splits prod.splits option.splits if_splits)

lemma isolate_process_poisoned:
  assumes "v8_sticky V" "poisoned V st" "isolate_process V L fs st r = Some (st', res)"
  shows "poisoned V st' \<and> (res = Threw ProcessorException \<or> res = Aborted)"
proof (cases "length fs < unat (snd r)")
  case True
  with assms show ?thesis by (auto simp: isolate_process_def split: prod.splits)
next
  case False
  then obtain st1 r1 where m: "makeJsObject V L st (fst r) = Some (st1, r1)"
    using assms(3) by (cases "makeJsObject V L st (fst r)") (auto simp: isolate_process_def split: prod.splits)
  note p1 = makeJsObject_poisoned [OF assms(1,2) m]
  show ?thesis
  proof (cases r1)
    case (Returned v)
    show ?thesis
    proof (cases "map_of fs (snd r)")
      case None
      with assms(3) False m Returned p1 show ?thesis by (auto simp: isolate_process_def split: prod.splits)
    next
      case (Some f)
      obtain st2 o2 where c: "v8_call V st1 f v = (st2, o2)" by fastforce
      have p2: "poisoned V st2" using assms(1) p1 c by (metis fst_conv v8_sticky_def)
      then have "run_then (check_caught V st2) g = Some (st2, Threw ProcessorException)" for g :: "_ \<Rightarrow> _ \<Rightarrow> ('a \<times> 'b run_result) option"
        by (simp add: check_caught_def poisoned_def)
      then show ?thesis
        using assms(3) False m Returned Some c p2
        by (cases o2) (auto simp: isolate_process_def check_caught_def poisoned_def split: prod.splits)
    qed
  next
    case (Threw e)
    with assms(3) False m p1 makeJsObject_throws [of V L st "fst r" st1 e] show ?thesis
      by (auto simp: isolate_process_def split: prod.splits)
  next
    case Aborted
    with assms(3) False m p1 show ?thesis by (auto simp: isolate_process_def split: prod.splits)
  qed
qed

lemma process_records_poisoned:
  "v8_sticky V \<Longrightarrow> poisoned V st \<Longrightarrow> process_records V L fs st rs = Some (st', res) \<Longrightarrow>
   res = Returned [] \<or> res = Aborted"
proof (induction rs arbitrary: st)
  case (Cons r rs)
  then obtain st1 r1 where i: "isolate_process V L fs st r = Some (st1, r1)"
    by (auto split: option.splits)
  from isolate_process_poisoned [OF Cons.prems(1,2) i] Cons i show ?case by auto
qed simp

lemma isolate_process_message:
  "isolate_process V L fs st r = Some (st', Returned (Some m)) \<Longrightarrow> \<exists>s. m = MProcessor s"
  by (auto simp: isolate_process_def run_then_Some_iff js_message_def check_caught_def
      split: if_splits option.splits prod.splits)

lemma process_records_out:
  "process_records V L fs st rs = Some (st', Returned ms) \<Longrightarrow>
   length ms \<le> length rs \<and> (\<forall>m \<in> set ms. \<exists>s. m = MProcessor s)"
proof (induction rs arbitrary: st ms)
  case (Cons r rs)
  then obtain st1 r1 where i: "isolate_process V L fs st r = Some (st1, r1)"
    by (auto split: option.splits)
  show ?case
  proof (cases r1)
    case (Returned mo)
    with Cons i isolate_process_message [of V L fs st r st1] show ?thesis
      by (cases mo) (fastforce simp: run_then_Some_iff)+
  qed (use Cons i in \<open>auto split: if_splits intro: le_SucI\<close>)
qed simp

subsection \<open>Properties\<close>

text \<open>
  C29: One exception in a script silences its thread for good: the call that fails throws a processor
  exception, and from then on no message of any bulk the thread takes comes out, since the
  try-catch block keeps the exception and every later result is discarded for it.
\<close>

theorem script_exception_poisons:
  fixes m :: "('d, 'ep) message"
  assumes "v8_sticky V" "unat i \<le> length fs" "map_of fs i = Some f"
    and "makeJsObject V L st m = Some (st1, Returned v)" "v8_call V st1 f v = (st2, None)"
  shows "isolate_process V L fs st (m, i) = Some (st2, Threw ProcessorException)
    \<and> (\<forall>(rs :: (('d, 'ep) message \<times> 16 word) list) st' res.
          process_records V L fs st2 rs = Some (st', res) \<longrightarrow> res = Returned [] \<or> res = Aborted)"
proof
  show "isolate_process V L fs st (m, i) = Some (st2, Threw ProcessorException)"
    using assms(2-5) by (simp add: isolate_process_def not_less)
  have "poisoned V st2" using assms(1,5) by (auto simp: v8_sticky_def)
  with process_records_poisoned [OF assms(1)]
  show "\<forall>(rs :: (('d, 'ep) message \<times> 16 word) list) st' res.
          process_records V L fs st2 rs = Some (st', res) \<longrightarrow> res = Returned [] \<or> res = Aborted"
    by blast
qed

text \<open>An engine whose only script returns its argument and throws on one text.\<close>

definition echo_v8 :: "(bool, string, string, unit, string) v8_lib" where
  "echo_v8 = \<lparr>v8_string = (\<lambda>st s. (st, Some s)), v8_compile = (\<lambda>st s. (st, Some s)),
     v8_run = (\<lambda>st s. (st, Some s)),
     v8_call = (\<lambda>st f v. if v = ''bad'' then (True, None) else (st, Some v)),
     v8_json_parse = (\<lambda>st s. (st, Some s)), v8_stringify = (\<lambda>st v. (st, Some v)),
     v8_new_object = (\<lambda>st. (st, [])), v8_set_console = (\<lambda>st. (st, True)), v8_pump = (\<lambda>_. None),
     v8_function = (\<lambda>_. Some ()), v8_is_false = (\<lambda>_. False), v8_is_object = (\<lambda>_. True),
     v8_is_string = (\<lambda>_. False), v8_utf8 = (\<lambda>v. v), v8_caught = (\<lambda>st. st), v8_has_message = (\<lambda>_. True)\<rparr>"

lemma echo_v8_sel [simp]:
  "v8_string echo_v8 st s = (st, Some s)" "v8_json_parse echo_v8 st s = (st, Some s)"
  "v8_call echo_v8 st () s = (if s = ''bad'' then (True, None) else (st, Some s))"
  "v8_stringify echo_v8 st s = (st, Some s)" "v8_is_false echo_v8 s = False" "v8_is_object echo_v8 s"
  "v8_caught echo_v8 st = st" "v8_has_message echo_v8 st" "v8_pump echo_v8 st = None"
  by (simp_all add: echo_v8_def)

lemma pump_loop_idle: "v8_pump V st = None \<Longrightarrow> pump_loop V st = Some st"
  by (subst pump_loop.simps) simp

lemma echo_v8_sticky: "v8_sticky echo_v8"
  by (auto simp: v8_sticky_def poisoned_def echo_v8_def split: if_splits)

definition json_text :: "string \<Rightarrow> (int, nat) message" where
  "json_text s = MJson \<lparr>js_input = ''in'', js_json = JStr s, js_endpoint = 0\<rparr>"

definition show_lib :: "int json_lib" where
  "show_lib = (one_doc_lib ''doc'' JNull)\<lparr>jl_dump := (\<lambda>j. case j of JStr s \<Rightarrow> s | _ \<Rightarrow> ''?'')\<rparr>"

lemma script_exception_poisons_witness:
  "isolate_process echo_v8 show_lib [(0, ())] False (json_text ''bad'', 0) = Some (True, Threw ProcessorException)
   \<and> process_records echo_v8 show_lib [(0, ())] True [(json_text ''ok'', 0)] = Some (True, Returned [])"
proof -
  have m: "makeJsObject echo_v8 show_lib False (json_text ''bad'') = Some (False, Returned ''bad'')"
    by (simp add: makeJsObject_def json_text_def json_exportMessage_def show_lib_def one_doc_lib_def c_str_def)
  have run: "process_records echo_v8 show_lib [(0, ())] True [(json_text ''ok'', 0)] = Some (True, Returned [])"
    by (simp add: isolate_process_def makeJsObject_def json_text_def json_exportMessage_def
        show_lib_def one_doc_lib_def c_str_def check_caught_def)
  have c: "v8_call echo_v8 False () ''bad'' = (True, None)" by (simp add: echo_v8_def)
  have p: "isolate_process echo_v8 show_lib [(0, ())] False (json_text ''bad'', 0) = Some (True, Threw ProcessorException)"
    using script_exception_poisons [OF echo_v8_sticky _ _ m c, of 0 "[(0, ())]"] by simp
  from p run show ?thesis by (rule conjI)
qed

lemma of_nat16_inj:
  assumes "m < 2 ^ 16" "n < 2 ^ 16" "(of_nat m :: 16 word) = of_nat n"
  shows "m = n"
proof -
  have "unat (of_nat m :: 16 word) = m" "unat (of_nat n :: 16 word) = n"
    using assms(1,2) unfolding unat_of_nat by simp_all
  with assms(3) show ?thesis by metis
qed

text \<open>
  The check of the script index is off by one: with \<open>n\<close> scripts, numbered from 0, a record with
  index \<open>n\<close> passes the check, and the program calls the empty function handle the lookup makes.
\<close>

theorem script_index_off_by_one:
  assumes "thread_scripts sources = Some sm" "map fst fs = map fst sm"
    and "makeJsObject V L st m = Some (st1, Returned v)"
  shows "isolate_process V L fs st (m, of_nat (length sources)) = Some (st1, Aborted)"
proof -
  have n: "length sources < 2 ^ 16" "sm = map (\<lambda>i. (of_nat i, sources ! i)) [0..<length sources]"
    using assms(1) by (simp_all add: thread_scripts_def split: if_splits)
  have "of_nat (length sources) \<noteq> (of_nat i :: 16 word)" if "i < length sources" for i
    using of_nat16_inj [of "length sources" i] that n(1) by fastforce
  then have "(of_nat (length sources) :: 16 word) \<notin> set (map fst fs)"
    unfolding assms(2) n(2) by (fastforce simp: image_iff)
  then have "map_of fs (of_nat (length sources)) = None" by (simp add: map_of_eq_None_iff)
  moreover have "length fs = length sources"
    using assms(2) n(2) by (metis diff_zero length_map length_upt)
  then have "\<not> length fs < unat (of_nat (length sources) :: 16 word)"
    using n(1) by (simp add: unat_of_nat)
  ultimately show ?thesis using assms(3) by (simp add: isolate_process_def)
qed

lemma script_index_off_by_one_witness:
  "isolate_process echo_v8 show_lib [(0, ())] False (json_text ''ok'', of_nat (length [''source'']))
     = Some (False, Aborted)"
  by (rule script_index_off_by_one [where sm = "[(0, ''source'')]" and v = "''ok''"])
     (simp_all add: thread_scripts_def makeJsObject_def json_text_def json_exportMessage_def
        show_lib_def one_doc_lib_def c_str_def)

fun add_all :: "string list \<Rightarrow> 'q processor_machine \<Rightarrow> 'q processor_machine" where
  "add_all [] pm = pm"
| "add_all (s # ss) pm = add_all ss (fst (addProcessor s pm))"

lemma add_all_sources: "m_scriptSources (add_all ss pm) = m_scriptSources pm @ ss"
  by (induction ss arbitrary: pm) (simp_all add: addProcessor_def)

lemma map_of_indexed:
  assumes "n \<le> 2 ^ 16" "i < n"
  shows "map_of (map (\<lambda>i. (of_nat i :: 16 word, f i)) [0..<n]) (of_nat i) = Some (f i)"
proof (rule map_of_is_SomeI)
  show "distinct (map fst (map (\<lambda>i. (of_nat i :: 16 word, f i)) [0..<n]))"
    using assms(1) by (auto simp: distinct_map inj_on_def comp_def intro: of_nat16_inj)
qed (use assms(2) in auto)

text \<open>
  The index a script gets designates it in every thread: whatever scripts are added later, as long
  as there are fewer than 65536, a thread compiles under that index that script.
\<close>

theorem script_index_designates:
  assumes "addProcessor source pm = (pm1, i)" "thread_scripts (m_scriptSources (add_all later pm1)) = Some sm"
  shows "map_of sm i = Some source"
proof -
  let ?all = "m_scriptSources pm @ source # later"
  have "m_scriptSources (add_all later pm1) = ?all" "i = of_nat (length (m_scriptSources pm))"
    using assms(1) by (auto simp: add_all_sources addProcessor_def)
  moreover from this assms(2) have "length ?all < 2 ^ 16"
      "sm = map (\<lambda>i. (of_nat i, ?all ! i)) [0..<length ?all]"
    by (simp_all add: thread_scripts_def split: if_splits)
  moreover have "length (m_scriptSources pm) < length ?all" by simp
  ultimately show ?thesis
    using map_of_indexed [of "length ?all" "length (m_scriptSources pm)" "\<lambda>i. ?all ! i"]
    by (simp del: upt_Suc length_append)
qed

lemma script_index_designates_witness:
  "map_of [(0 :: 16 word, ''a''), (1, ''b''), (2, ''c'')] 1 = Some ''b''"
proof -
  let ?pm = "fst (addProcessor ''a'' (ProcessorMachine ()))"
  have a: "addProcessor ''b'' ?pm = (fst (addProcessor ''b'' ?pm), 1)"
    by (simp add: addProcessor_def ProcessorMachine_def)
  have "thread_scripts (m_scriptSources (add_all [''c''] (fst (addProcessor ''b'' ?pm))))
      = Some [(0, ''a''), (1, ''b''), (2, ''c'')]"
    by (simp add: addProcessor_def ProcessorMachine_def thread_scripts_def add_all_sources upt_rec)
  from script_index_designates [OF a this] show ?thesis .
qed

text \<open>
  One turn of a processor thread loses and makes up nothing outside its scripts: what it took from
  its queue is gone from there, the main queue gained at most one message for each record taken,
  all of them messages a processor made, and nothing that was there left but what the consumers
  took.
\<close>

theorem processor_turn_balance:
  assumes "cq_ok LP" "cq_ok LM"
    and "processor_turn V L fs LP LM env (st, pq, mq) = Some (Returned (st', pq', mq'))"
  shows "\<exists>records messages t p.
      mq_held LP pq = mq_held LP pq' + mset records
      \<and> mq_held LM mq' + mset t = mq_held LM mq + mset p + mset messages
      \<and> length messages \<le> length records
      \<and> (\<forall>m. m \<in> set messages \<longrightarrow> (\<exists>s. m = MProcessor s))"
proof -
  obtain pq1 records where d: "mq_try_dequeue_bulk LP pq max_queue_bulk_size = (pq1, records)" by fastforce
  note taken = mq_try_dequeue_bulk_balance(1) [OF assms(1) d]
  from assms(3) d obtain messages where r: "process_records V L fs st records = Some (st', Returned messages)"
      and pq: "pq' = pq1"
      and out: "messages = [] \<and> mq' = mq \<or>
        (\<exists>ok t p. mq_enqueue_bulk LM env mq messages = Some (mq', ok, t, p))"
    by (auto simp: processor_turn_def split: option.splits run_result.splits if_splits prod.splits)
  note ms = process_records_out [OF r]
  from out show ?thesis
  proof
    assume "messages = [] \<and> mq' = mq"
    then show ?thesis using taken pq
      by (intro exI [of _ records] exI [of _ "[]"]) simp
  next
    assume "\<exists>ok t p. mq_enqueue_bulk LM env mq messages = Some (mq', ok, t, p)"
    then obtain ok t p where e: "mq_enqueue_bulk LM env mq messages = Some (mq', ok, t, p)" by blast
    let ?in = "if ok then messages else []"
    have "mq_held LM mq' + mset t = mq_held LM mq + mset p + mset ?in"
      using mq.push_law [OF assms(2) e] by simp
    with taken pq ms show ?thesis
      by (intro exI [of _ records] exI [of _ ?in] exI [of _ t] exI [of _ p]) auto
  qed
qed

definition one_record :: "((int, nat) message \<times> 16 word) list message_queue" where
  "one_record = (MessageQueue_default ''processor.queue'' [])\<lparr>m_messageQueue := [(json_text ''ok'', 0)]\<rparr>"

lemma processor_turn_balance_witness:
  "\<exists>pq' mq'. processor_turn echo_v8 show_lib [(0, ())] list_cq list_cq []
       (False, one_record, MessageQueue_default ''main_queue'' []) = Some (Returned (False, pq', mq'))
     \<and> m_messageQueue mq' = [MProcessor ''ok'']
     \<and> (\<exists>records messages t p. mq_held list_cq one_record = mq_held list_cq pq' + mset records
          \<and> mq_held list_cq mq' + mset t = mset p + mset messages \<and> length messages \<le> length records)"
proof -
  let ?mq = "MessageQueue_default ''main_queue'' [] :: (int, nat) message list message_queue"
  obtain pq' mq' where r: "processor_turn echo_v8 show_lib [(0, ())] list_cq list_cq [] (False, one_record, ?mq)
      = Some (Returned (False, pq', mq'))" "m_messageQueue mq' = [MProcessor ''ok'']"
    by (simp add: processor_turn_def one_record_def isolate_process_def makeJsObject_def json_text_def
        json_exportMessage_def show_lib_def one_doc_lib_def c_str_def js_message_def pump_loop_idle
        check_caught_def mq_try_dequeue_bulk_def mq_enqueue_bulk_def MessageQueue_default_def
        max_queue_bulk_size_def)
  have "mq_held list_cq ?mq = {#}" by (simp add: mq_held_def MessageQueue_default_def)
  with processor_turn_balance [OF list_cq_ok list_cq_ok r(1)] r(2) show ?thesis
    by (intro exI [of _ pq'] exI [of _ mq']) (simp only: r(1), simp, blast)
qed

end
