(* ===== verification/IQ_Config.thy ===== *)
theory IQ_Config
  imports IQ_Processor
begin

text \<open>
  The configuration (src/config): the enumerations with their names, the sections as they are read
  from the JSON document, the parameters of inputs and outputs, the checks, and the manager that
  loads and reloads. The accessors of the JSON library are fields of \<open>json_lib\<close>, the file system is
  the argument \<open>file_env\<close>, and the regular expression library the argument \<open>regex_ok\<close>. The bodies
  of the enumerations InputType, OutputType and StatsEntryType are generated by the build; the
  model has the modules of the repository.
\<close>

subsection \<open>Enumerations\<close>

datatype protocol = PR_UNDEFINED | PR_UDP | PR_TCP

definition protocol_to_str :: "protocol \<Rightarrow> string" where
  "protocol_to_str p = (case p of PR_UNDEFINED \<Rightarrow> ''undefined'' | PR_UDP \<Rightarrow> ''udp'' | PR_TCP \<Rightarrow> ''tcp'')"

definition protocol_from_str :: "string \<Rightarrow> protocol outcome" where
  "protocol_from_str s =
     (if s = ''undefined'' then Inr PR_UNDEFINED
      else if s = ''udp'' then Inr PR_UDP
      else if s = ''tcp'' then Inr PR_TCP
      else Inl OutOfRange)"

text \<open>The conversion the JSON library generates takes the first entry for a value it does not know.\<close>

definition protocol_from_json :: "'d json \<Rightarrow> protocol outcome" where
  "protocol_from_json j =
     Inr (case j of
            JStr s \<Rightarrow> (if s = protocol_to_str PR_UDP then PR_UDP
                       else if s = protocol_to_str PR_TCP then PR_TCP else PR_UNDEFINED)
          | _ \<Rightarrow> PR_UNDEFINED)"

datatype input_type = IN_UNDEFINED | IN_TAIL | IN_JOURNAL | IN_GELF | IN_JSON | IN_DUMMY
datatype output_type = OUT_UNDEFINED | OUT_GELF | OUT_LOG
datatype stats_type = ST_UNDEFINED | ST_HTTP | ST_TELEGRAF

definition enum_at :: "(string \<times> 'e) list \<Rightarrow> string \<Rightarrow> 'e outcome" where
  "enum_at tab s = (case map_of tab s of None \<Rightarrow> Inl OutOfRange | Some e \<Rightarrow> Inr e)"

text \<open>
  \<open>from_json\<close> of the enumerations: a value that is no string is the undefined entry, a string that
  is not in the table throws what the table's \<open>at\<close> throws.
\<close>

definition enum_from_json :: "'d json_lib \<Rightarrow> (string \<times> 'e) list \<Rightarrow> 'e \<Rightarrow> 'd json \<Rightarrow> 'e outcome" where
  "enum_from_json L tab undef j =
     (case and_then (jl_get_string L j) (enum_at tab) of
        Inl e \<Rightarrow> (if catches NlohmannException e then Inr undef else Inl e)
      | Inr t \<Rightarrow> Inr t)"

definition strategy_from_json :: "'d json_lib \<Rightarrow> 'd json \<Rightarrow> overflow_type outcome" where
  "strategy_from_json L j =
     (case and_then (jl_get_string L j) strategy_from_str of
        Inl e \<Rightarrow> (if catches NlohmannException e then Inr OV_UNDEFINED else Inl e)
      | Inr t \<Rightarrow> Inr t)"

definition input_types :: "(string \<times> input_type) list" where
  "input_types = [(''undefined'', IN_UNDEFINED), (''tail'', IN_TAIL), (''journal'', IN_JOURNAL),
     (''gelf'', IN_GELF), (''json'', IN_JSON), (''dummy'', IN_DUMMY)]"

definition output_types :: "(string \<times> output_type) list" where
  "output_types = [(''undefined'', OUT_UNDEFINED), (''gelf'', OUT_GELF), (''log'', OUT_LOG)]"

definition stats_types :: "(string \<times> stats_type) list" where
  "stats_types = [(''undefined'', ST_UNDEFINED), (''http'', ST_HTTP), (''telegraf'', ST_TELEGRAF)]"

subsection \<open>Parameters\<close>

type_synonym 'd params = "(string \<times> 'd json) list"

text \<open>\<open>getParam<T>\<close>: the value of a key converted to \<open>T\<close>, nothing when either throws.\<close>

definition getParam :: "('d json \<Rightarrow> 'a outcome) \<Rightarrow> 'd params \<Rightarrow> string \<Rightarrow> 'a option" where
  "getParam get params key =
     (case map_of params key of
        None \<Rightarrow> None
      | Some j \<Rightarrow> (case get j of Inr v \<Rightarrow> Some v | Inl e \<Rightarrow> None))"

definition is_number :: "'d json \<Rightarrow> bool" where
  "is_number j = (case j of JInt _ \<Rightarrow> True | JFloat _ \<Rightarrow> True | _ \<Rightarrow> False)"

text \<open>Of a destination, a port may also be given as a string of digits.\<close>

definition dest_getParam_ushort :: "'d json_lib \<Rightarrow> 'd params \<Rightarrow> string \<Rightarrow> 16 word option" where
  "dest_getParam_ushort L params key =
     (case map_of params key of
        None \<Rightarrow> None
      | Some j \<Rightarrow>
          if is_number j then (case jl_get_ushort L j of Inr v \<Rightarrow> Some v | Inl e \<Rightarrow> None)
          else
            (case j of
               JStr s \<Rightarrow> (case stoi s of Inr n \<Rightarrow> Some (word_of_int n) | Inl e \<Rightarrow> None)
             | _ \<Rightarrow> None))"

definition get_strings :: "'d json_lib \<Rightarrow> 'd json \<Rightarrow> string list outcome" where
  "get_strings L j = (case j of JArr xs \<Rightarrow> outcome_map (jl_get_string L) xs | _ \<Rightarrow> Inl NlohmannException)"

definition get_list :: "('d json \<Rightarrow> 'a outcome) \<Rightarrow> 'd json \<Rightarrow> 'a list outcome" where
  "get_list get j = (case j of JArr xs \<Rightarrow> outcome_map get xs | _ \<Rightarrow> Inl NlohmannException)"

definition field :: "'d json_lib \<Rightarrow> string \<Rightarrow> ('d json \<Rightarrow> 'a outcome) \<Rightarrow> 'd json \<Rightarrow> 'a outcome" where
  "field L key get j = and_then (jl_at L j key) get"

text \<open>\<open>find\<close>: the field when the document is an object that has it.\<close>

definition find_field :: "'d json \<Rightarrow> string \<Rightarrow> 'd json option" where
  "find_field j key = (case j of JObj fs \<Rightarrow> map_of fs key | _ \<Rightarrow> None)"

definition object_members :: "'d json \<Rightarrow> (string \<times> 'd json) list" where
  "object_members j = (case j of JObj fs \<Rightarrow> fs | _ \<Rightarrow> [])"

definition params_except :: "string list \<Rightarrow> 'd json \<Rightarrow> 'd params" where
  "params_except reserved j = fold (\<lambda>(k, v) m. if k \<in> set reserved then m else emplace k v m) (object_members j) []"

subsection \<open>Sources\<close>

record file_env =
  file_exists :: "string \<Rightarrow> bool"
  file_read :: "string \<Rightarrow> string option"

record 'd source_config =
  sc_type :: input_type
  sc_name :: string
  sc_threads :: "64 word"
  sc_processor :: "string option"
  sc_params :: "'d params"
  sc_max_queue_size :: "64 word"
  sc_overflow_strategy :: overflow_type
  sc_checker :: input_type

definition loadFromFile :: "file_env \<Rightarrow> string \<Rightarrow> string \<Rightarrow> string \<times> bool" where
  "loadFromFile F filename source =
     (case file_read F filename of None \<Rightarrow> (source, False) | Some s \<Rightarrow> (s, s \<noteq> []))"

definition script_from_json :: "'d json_lib \<Rightarrow> file_env \<Rightarrow> string \<Rightarrow> 'd json \<Rightarrow> string outcome" where
  "script_from_json L F config_dir j =
     and_then (jl_get_string L j) (\<lambda>script.
       (let fullPath = script; configPath = config_dir @ ''/'' @ script
        in if file_exists F fullPath then Inr (fst (loadFromFile F fullPath []))
           else if file_exists F configPath then Inr (fst (loadFromFile F configPath []))
           else Inr script))"

definition source_reserved :: "string list" where
  "source_reserved = [''name'', ''type'', ''threads'', ''processor'', ''max_queue_size'', ''overflow_strategy'']"

text \<open>
  The queue options are read in one block whose errors, when they are the JSON library's, leave
  what was read before them.
\<close>

definition queue_options :: "'d json_lib \<Rightarrow> 'd json \<Rightarrow> (64 word \<times> overflow_type) outcome" where
  "queue_options L j =
     (case field L ''max_queue_size'' (jl_get_uint64 L) j of
        Inl e \<Rightarrow> (if catches NlohmannException e then Inr (10000, OV_THROTTLE) else Inl e)
      | Inr n \<Rightarrow>
          (case field L ''overflow_strategy'' (strategy_from_json L) j of
             Inl e \<Rightarrow> (if catches NlohmannException e then Inr (n, OV_THROTTLE) else Inl e)
           | Inr s \<Rightarrow> Inr (n, s)))"

definition source_script :: "'d json_lib \<Rightarrow> file_env \<Rightarrow> string \<Rightarrow> 'd json \<Rightarrow> string option outcome" where
  "source_script L F config_dir j =
     (case find_field j ''processor'' of
        None \<Rightarrow> Inr None
      | Some p \<Rightarrow>
          (case script_from_json L F config_dir p of
             Inr s \<Rightarrow> Inr (Some s)
           | Inl e \<Rightarrow> (if catches NlohmannException e then Inr None else Inl e)))"

definition source_from_json :: "'d json_lib \<Rightarrow> file_env \<Rightarrow> string \<Rightarrow> 'd json \<Rightarrow> 'd source_config outcome" where
  "source_from_json L F config_dir j =
     and_then (field L ''name'' (jl_get_string L) j) (\<lambda>name.
     and_then (field L ''type'' (enum_from_json L input_types IN_UNDEFINED) j) (\<lambda>type.
     and_then (field L ''threads'' (jl_get_uint64 L) j) (\<lambda>threads.
     and_then (queue_options L j) (\<lambda>(mx, strategy).
     and_then (source_script L F config_dir j) (\<lambda>script.
     Inr \<lparr>sc_type = type, sc_name = name, sc_threads = threads, sc_processor = script,
          sc_params = params_except source_reserved j, sc_max_queue_size = mx,
          sc_overflow_strategy = strategy, sc_checker = type\<rparr>)))))"

text \<open>The check of a tail source compiles its regular expression; other known types check nothing.\<close>

definition source_type_check :: "'d json_lib \<Rightarrow> (string \<Rightarrow> bool) \<Rightarrow> 'd source_config \<Rightarrow> bool" where
  "source_type_check L regex_ok c =
     (case sc_checker c of
        IN_UNDEFINED \<Rightarrow> False
      | IN_TAIL \<Rightarrow>
          (case getParam (jl_get_string L) (sc_params c) ''startmsg_regex'' of
             None \<Rightarrow> True | Some r \<Rightarrow> regex_ok r)
      | _ \<Rightarrow> True)"

text \<open>The check of a script may not return, like the script itself.\<close>

definition source_check :: "'d json_lib \<Rightarrow> (string \<Rightarrow> bool) \<Rightarrow> (string \<Rightarrow> bool option) \<Rightarrow> 'd source_config
    \<Rightarrow> bool option" where
  "source_check L regex_ok script_ok c =
     (let result = source_type_check L regex_ok c
      in case sc_processor c of
           None \<Rightarrow> Some result
         | Some s \<Rightarrow> if result then script_ok s else Some False)"

subsection \<open>The other sections\<close>

record 'd input_config =
  ic_threads :: "64 word"
  ic_sources :: "'d source_config list"

definition input_from_json :: "'d json_lib \<Rightarrow> file_env \<Rightarrow> string \<Rightarrow> 'd json \<Rightarrow> 'd input_config outcome" where
  "input_from_json L F config_dir j =
     and_then (field L ''threads'' (jl_get_uint64 L) j) (\<lambda>threads.
     and_then (field L ''sources'' (get_list (source_from_json L F config_dir)) j) (\<lambda>sources.
     Inr \<lparr>ic_threads = threads, ic_sources = sources\<rparr>))"

fun sources_check :: "('c \<Rightarrow> bool option) \<Rightarrow> 'c list \<Rightarrow> bool option" where
  "sources_check ck [] = Some True"
| "sources_check ck (c # cs) =
     (case ck c of None \<Rightarrow> None | Some False \<Rightarrow> Some False | Some True \<Rightarrow> sources_check ck cs)"

record 'd destination_config =
  dc_type :: output_type
  dc_name :: string
  dc_threads :: "64 word"
  dc_timeout :: int
  dc_params :: "'d params"

definition destination_reserved :: "string list" where
  "destination_reserved = [''name'', ''type'', ''threads'', ''timeout'']"

definition destination_from_json :: "'d json_lib \<Rightarrow> 'd json \<Rightarrow> 'd destination_config outcome" where
  "destination_from_json L j =
     and_then (field L ''name'' (jl_get_string L) j) (\<lambda>name.
     and_then (field L ''type'' (enum_from_json L output_types OUT_UNDEFINED) j) (\<lambda>type.
     and_then (field L ''threads'' (jl_get_uint64 L) j) (\<lambda>threads.
     and_then (case find_field j ''timeout'' of None \<Rightarrow> Inr 60 | Some t \<Rightarrow> jl_get_long L t) (\<lambda>timeout.
     Inr \<lparr>dc_type = type, dc_name = name, dc_threads = threads, dc_timeout = timeout,
          dc_params = params_except destination_reserved j\<rparr>))))"

record 'd output_config =
  oc_threads :: "64 word"
  oc_destinations :: "'d destination_config list"

definition output_from_json :: "'d json_lib \<Rightarrow> 'd json \<Rightarrow> 'd output_config outcome" where
  "output_from_json L j =
     and_then (field L ''threads'' (jl_get_uint64 L) j) (\<lambda>threads.
     and_then (field L ''destinations'' (get_list (destination_from_json L)) j) (\<lambda>dests.
     Inr \<lparr>oc_threads = threads, oc_destinations = dests\<rparr>))"

record 'd stats_entry_config =
  se_name :: string
  se_type :: stats_type
  se_params :: "'d params"

definition stats_entry_from_json :: "'d json_lib \<Rightarrow> 'd json \<Rightarrow> 'd stats_entry_config outcome" where
  "stats_entry_from_json L j =
     and_then (field L ''name'' (jl_get_string L) j) (\<lambda>name.
     and_then (field L ''type'' (enum_from_json L stats_types ST_UNDEFINED) j) (\<lambda>type.
     Inr \<lparr>se_name = name, se_type = type, se_params = params_except [''name'', ''type''] j\<rparr>))"

record 'd stats_config =
  st_interval :: "64 word"
  st_exports :: "'d stats_entry_config list"

definition stats_from_json :: "'d json_lib \<Rightarrow> 'd json \<Rightarrow> 'd stats_config outcome" where
  "stats_from_json L j =
     and_then (field L ''interval'' (jl_get_uint64 L) j) (\<lambda>interval.
     and_then (field L ''export'' (get_list (stats_entry_from_json L)) j) (\<lambda>exports.
     Inr \<lparr>st_interval = interval, st_exports = exports\<rparr>))"

record logger_config =
  lc_filename :: string
  lc_level :: string
  lc_size :: "64 word"
  lc_count :: "64 word"

definition optional_uint64 :: "'d json_lib \<Rightarrow> 'd json \<Rightarrow> string \<Rightarrow> 64 word \<Rightarrow> 64 word outcome" where
  "optional_uint64 L j key dflt =
     (case find_field j key of None \<Rightarrow> Inr dflt | Some v \<Rightarrow> jl_get_uint64 L v)"

definition logger_from_json :: "'d json_lib \<Rightarrow> 'd json \<Rightarrow> logger_config outcome" where
  "logger_from_json L j =
     and_then (field L ''filename'' (jl_get_string L) j) (\<lambda>filename.
     and_then (field L ''level'' (jl_get_string L) j) (\<lambda>level.
     and_then (optional_uint64 L j ''size'' (1024 * 1024 * 100)) (\<lambda>size'.
     and_then (optional_uint64 L j ''count'' 5) (\<lambda>count.
     Inr \<lparr>lc_filename = filename, lc_level = level, lc_size = size', lc_count = count\<rparr>))))"

definition processor_from_json :: "'d json_lib \<Rightarrow> 'd json \<Rightarrow> 64 word outcome" where
  "processor_from_json L j = field L ''threads'' (jl_get_uint64 L) j"

record 'd config =
  cf_logger :: logger_config
  cf_input :: "'d input_config"
  cf_output :: "'d output_config"
  cf_processor_threads :: "64 word"
  cf_stats :: "'d stats_config"

definition Config :: "'d json_lib \<Rightarrow> file_env \<Rightarrow> string \<Rightarrow> 'd json \<Rightarrow> 'd config outcome" where
  "Config L F config_dir j =
     and_then (field L ''iqlogger'' (field L ''logger'' (logger_from_json L)) j) (\<lambda>logger.
     and_then (field L ''input'' (input_from_json L F config_dir) j) (\<lambda>inp.
     and_then (field L ''output'' (output_from_json L) j) (\<lambda>out.
     and_then (field L ''iqlogger'' (field L ''stats'' (stats_from_json L)) j) (\<lambda>stats.
     and_then (field L ''iqlogger'' (\<lambda>q. case find_field q ''processor'' of
                 None \<Rightarrow> Inr 1 | Some p \<Rightarrow> processor_from_json L p) j) (\<lambda>threads.
     Inr \<lparr>cf_logger = logger, cf_input = inp, cf_output = out, cf_processor_threads = threads,
          cf_stats = stats\<rparr>)))))"

text \<open>Of the five sections only the inputs override the check, which is true otherwise.\<close>

definition config_check :: "'d json_lib \<Rightarrow> (string \<Rightarrow> bool) \<Rightarrow> (string \<Rightarrow> bool option) \<Rightarrow> 'd config \<Rightarrow> bool option" where
  "config_check L regex_ok script_ok c = sources_check (source_check L regex_ok script_ok) (ic_sources (cf_input c))"

subsection \<open>The manager\<close>

record 'd config_manager =
  m_configFilename :: string
  m_hostname :: string
  m_config :: "'d config option"

text \<open>
  \<open>read_doc\<close> is the document a file name yields, or the exception of opening or parsing it;
  \<open>logger_init\<close> whether the logger accepts its settings. The directory of the configuration file is
  \<open>dir_of\<close>.
\<close>

record 'd config_env =
  ce_read_doc :: "string \<Rightarrow> 'd json outcome"
  ce_files :: file_env
  ce_dir_of :: "string \<Rightarrow> string"
  ce_logger_init :: "logger_config \<Rightarrow> bool"
  ce_regex_ok :: "string \<Rightarrow> bool"
  ce_script_ok :: "string \<Rightarrow> bool option"

definition loadLogger :: "'d config_env \<Rightarrow> 'd config \<Rightarrow> bool" where
  "loadLogger E c = ce_logger_init E (cf_logger c)"

definition config_reload :: "'d json_lib \<Rightarrow> 'd config_env \<Rightarrow> bool \<Rightarrow> 'd config_manager
    \<Rightarrow> ('d config_manager \<times> bool) option" where
  "config_reload L E checkOnly m =
     (case and_then (ce_read_doc E (m_configFilename m))
             (Config L (ce_files E) (ce_dir_of E (m_configFilename m))) of
        Inl e \<Rightarrow> Some (m, False)
      | Inr c \<Rightarrow>
          (let m' = m\<lparr>m_config := Some c\<rparr>
           in if \<not> checkOnly \<and> \<not> loadLogger E c then Some (m', False)
              else
                (case config_check L (ce_regex_ok E) (ce_script_ok E) c of
                   None \<Rightarrow> None
                 | Some ok \<Rightarrow> Some (m', ok))))"

definition config_load :: "'d json_lib \<Rightarrow> 'd config_env \<Rightarrow> string \<Rightarrow> bool \<Rightarrow> 'd config_manager
    \<Rightarrow> ('d config_manager \<times> bool) option" where
  "config_load L E filename checkOnly m = config_reload L E checkOnly (m\<lparr>m_configFilename := filename\<rparr>)"

subsection \<open>Lemmas\<close>

lemma protocol_roundtrip: "protocol_from_str (protocol_to_str p) = Inr p"
  by (cases p) (simp_all add: protocol_to_str_def protocol_from_str_def)

lemma enum_at_error: "enum_at tab s = Inl e \<Longrightarrow> e = OutOfRange"
  by (auto simp: enum_at_def split: option.splits)

lemma map_of_params_fold:
  "map_of (fold (\<lambda>(k, v) m. if k \<in> set reserved then m else emplace k v m) fs m) k =
     (case map_of m k of Some v \<Rightarrow> Some v | None \<Rightarrow> if k \<in> set reserved then None else map_of fs k)"
proof (induction fs arbitrary: m)
  case (Cons p fs)
  obtain k' v where p: "p = (k', v)" by fastforce
  show ?case
    by (auto simp: p Cons.IH map_of_emplace split: option.splits)
qed (auto split: option.splits)

lemma map_of_params_except:
  "map_of (params_except reserved j) k = (if k \<in> set reserved then None else map_of (object_members j) k)"
  by (simp add: params_except_def map_of_params_fold)

lemma sources_check_True:
  "sources_check ck cs = Some True \<longleftrightarrow> list_all (\<lambda>c. ck c = Some True) cs"
  by (induction cs) (auto split: option.splits bool.splits)

lemma source_check_True:
  "source_check L regex_ok script_ok c = Some True \<longleftrightarrow>
     source_type_check L regex_ok c \<and> (\<forall>s. sc_processor c = Some s \<longrightarrow> script_ok s = Some True)"
  by (auto simp: source_check_def Let_def split: option.splits)

lemma and_then_InrE:
  assumes "and_then r f = Inr b"
  obtains a where "r = Inr a" "f a = Inr b"
  using assms by (auto simp: and_then_Inr_iff)

lemma source_from_json_Inr:
  assumes "source_from_json L F dir j = Inr c"
  shows "sc_checker c = sc_type c" "sc_params c = params_except source_reserved j"
    "(sc_max_queue_size c, sc_overflow_strategy c) \<in> {(10000, OV_THROTTLE)} \<union>
       {(n, s). field L ''max_queue_size'' (jl_get_uint64 L) j = Inr n
          \<and> (s = OV_THROTTLE \<or> field L ''overflow_strategy'' (strategy_from_json L) j = Inr s)}"
proof -
  from assms obtain mx strategy where q: "queue_options L j = Inr (mx, strategy)"
      and c: "sc_max_queue_size c = mx" "sc_overflow_strategy c = strategy"
      and c2: "sc_checker c = sc_type c" "sc_params c = params_except source_reserved j"
    by (auto simp: source_from_json_def elim!: and_then_InrE)
  show "sc_checker c = sc_type c" "sc_params c = params_except source_reserved j" by fact+
  show "(sc_max_queue_size c, sc_overflow_strategy c) \<in> {(10000, OV_THROTTLE)} \<union>
       {(n, s). field L ''max_queue_size'' (jl_get_uint64 L) j = Inr n
          \<and> (s = OV_THROTTLE \<or> field L ''overflow_strategy'' (strategy_from_json L) j = Inr s)}"
    using q c by (auto simp: queue_options_def split: sum.splits if_splits)
qed

lemma outcome_map_set:
  "outcome_map f xs = Inr ys \<Longrightarrow> y \<in> set ys \<Longrightarrow> \<exists>x \<in> set xs. f x = Inr y"
  by (induction xs arbitrary: ys) (auto simp: and_then_Inr_iff)

lemma Config_sources:
  assumes "Config L F dir j = Inr c" "s \<in> set (ic_sources (cf_input c))"
  shows "\<exists>sj. source_from_json L F dir sj = Inr s"
proof -
  from assms(1) obtain ij where "input_from_json L F dir ij = Inr (cf_input c)"
    unfolding Config_def field_def by (auto elim!: and_then_InrE)
  then obtain sj where "get_list (source_from_json L F dir) sj = Inr (ic_sources (cf_input c))"
    unfolding input_from_json_def field_def
    by (auto elim!: and_then_InrE dest!: sym [of _ "cf_input c"])
  then show ?thesis
    using assms(2) by (auto simp: get_list_def split: json.splits dest: outcome_map_set)
qed

subsection \<open>Properties\<close>

text \<open>
  C15: A load or reload that reports success has installed a configuration all of whose sources have a
  known type, with a start expression that compiles for the tail sources that have one and a
  script that was accepted for the sources that have one; unless only checking, the logger has
  taken its settings. A reload that reports failure leaves the manager as it was or installs a
  configuration that was read but that the logger or the check refused. The file name and the
  host name stay.
\<close>

theorem config_reload_spec:
  assumes "config_reload L E checkOnly m = Some (m', ok)"
  shows "m_configFilename m' = m_configFilename m \<and> m_hostname m' = m_hostname m \<and>
    (if ok then
       \<exists>c. m_config m' = Some c \<and> (checkOnly \<or> ce_logger_init E (cf_logger c))
         \<and> list_all (\<lambda>s. sc_type s \<noteq> IN_UNDEFINED
             \<and> (sc_type s = IN_TAIL \<longrightarrow>
                  (\<forall>r. getParam (jl_get_string L) (sc_params s) ''startmsg_regex'' = Some r \<longrightarrow> ce_regex_ok E r))
             \<and> (\<forall>p. sc_processor s = Some p \<longrightarrow> ce_script_ok E p = Some True)) (ic_sources (cf_input c))
     else m' = m \<or> (\<exists>c. m_config m' = Some c \<and>
       (\<not> checkOnly \<and> \<not> ce_logger_init E (cf_logger c)
        \<or> config_check L (ce_regex_ok E) (ce_script_ok E) c = Some False)))"
proof (cases ok)
  case True
  with assms obtain c j where c: "Config L (ce_files E) (ce_dir_of E (m_configFilename m)) j = Inr c"
      "m' = m\<lparr>m_config := Some c\<rparr>" "config_check L (ce_regex_ok E) (ce_script_ok E) c = Some True"
      "checkOnly \<or> ce_logger_init E (cf_logger c)"
    by (auto simp: config_reload_def Let_def loadLogger_def and_then_Inr_iff split: sum.splits if_splits option.splits)
  have "sc_type s \<noteq> IN_UNDEFINED
             \<and> (sc_type s = IN_TAIL \<longrightarrow>
                  (\<forall>r. getParam (jl_get_string L) (sc_params s) ''startmsg_regex'' = Some r \<longrightarrow> ce_regex_ok E r))
             \<and> (\<forall>p. sc_processor s = Some p \<longrightarrow> ce_script_ok E p = Some True)"
    if s: "s \<in> set (ic_sources (cf_input c))" for s
  proof -
    have "sc_checker s = sc_type s"
      using Config_sources [OF c(1) s] source_from_json_Inr(1) by blast
    moreover have "source_check L (ce_regex_ok E) (ce_script_ok E) s = Some True"
      using c(3) s by (simp add: config_check_def sources_check_True list_all_iff)
    ultimately show ?thesis
      by (auto simp: source_check_True source_type_check_def split: input_type.splits option.splits)
  qed
  with True c show ?thesis by (simp add: list_all_iff)
next
  case False
  with assms show ?thesis
    by (auto simp: config_reload_def Let_def loadLogger_def split: sum.splits if_splits option.splits)
qed

definition sample_config_doc :: "int json" where
  "sample_config_doc = JObj
     [(''input'', JObj [(''sources'', JArr
          [JObj [(''name'', JStr ''t''), (''path'', JStr ''/x''), (''startmsg_regex'', JStr ''^a''),
                 (''threads'', JInt 1), (''type'', JStr ''tail'')]]), (''threads'', JInt 2)]),
      (''iqlogger'', JObj [(''logger'', JObj [(''filename'', JStr ''log''), (''level'', JStr ''info'')]),
          (''stats'', JObj [(''export'', JArr []), (''interval'', JInt 5)])]),
      (''output'', JObj [(''destinations'', JArr []), (''threads'', JInt 1)])]"

definition sample_config_env :: "int config_env" where
  "sample_config_env = \<lparr>ce_read_doc = (\<lambda>_. Inr sample_config_doc),
     ce_files = \<lparr>file_exists = (\<lambda>_. False), file_read = (\<lambda>_. None)\<rparr>, ce_dir_of = (\<lambda>_. ''etc''),
     ce_logger_init = (\<lambda>_. True), ce_regex_ok = (\<lambda>r. r = ''^a''), ce_script_ok = (\<lambda>_. Some True)\<rparr>"

definition fresh_manager :: "int config_manager" where
  "fresh_manager = \<lparr>m_configFilename = ''etc/c.json'', m_hostname = ''h'', m_config = None\<rparr>"

lemma config_reload_spec_witness:
  "\<exists>m' c. config_reload (one_doc_lib ''doc'' JNull) sample_config_env False fresh_manager = Some (m', True)
     \<and> m_config m' = Some c \<and> list_all (\<lambda>s. sc_type s \<noteq> IN_UNDEFINED) (ic_sources (cf_input c))"
proof -
  have "snd (the (config_reload (one_doc_lib ''doc'' JNull) sample_config_env False fresh_manager))"
      "config_reload (one_doc_lib ''doc'' JNull) sample_config_env False fresh_manager \<noteq> None"
    by code_simp+
  then obtain m' where r: "config_reload (one_doc_lib ''doc'' JNull) sample_config_env False fresh_manager = Some (m', True)"
    by auto
  from config_reload_spec [OF r] obtain c where "m_config m' = Some c"
      "list_all (\<lambda>s. sc_type s \<noteq> IN_UNDEFINED) (ic_sources (cf_input c))"
    by (auto simp: list_all_iff)
  with r show ?thesis by blast
qed

text \<open>
  Reading a source splits the fields of its object: every field is either one of the six that
  have a place of their own or a parameter, under its name and with its value. The queue gets
  size and strategy from the object, size 10000 when no size can be read, and throttling when a
  strategy is missing or not reached.
\<close>

theorem source_from_json_params:
  assumes "source_from_json L F dir j = Inr c"
  shows "map_of (sc_params c) k = (if k \<in> set source_reserved then None else map_of (object_members j) k)
    \<and> (sc_max_queue_size c = 10000 \<and> sc_overflow_strategy c = OV_THROTTLE
       \<or> field L ''max_queue_size'' (jl_get_uint64 L) j = Inr (sc_max_queue_size c)
         \<and> (sc_overflow_strategy c = OV_THROTTLE
            \<or> field L ''overflow_strategy'' (strategy_from_json L) j = Inr (sc_overflow_strategy c)))"
  using source_from_json_Inr [OF assms] by (auto simp: map_of_params_except)

definition sample_source_doc :: "int json" where
  "sample_source_doc = JObj [(''max_queue_size'', JInt 7), (''name'', JStr ''g''),
     (''overflow_strategy'', JStr ''drop''), (''port'', JInt 12201), (''threads'', JInt 1), (''type'', JStr ''gelf'')]"

lemma source_from_json_params_witness:
  "\<exists>c. source_from_json (one_doc_lib ''doc'' JNull) \<lparr>file_exists = \<lambda>_. False, file_read = \<lambda>_. None\<rparr> ''etc'' sample_source_doc = Inr c
     \<and> map_of (sc_params c) ''port'' = Some (JInt 12201) \<and> map_of (sc_params c) ''name'' = None"
proof -
  let ?r = "source_from_json (one_doc_lib ''doc'' JNull) \<lparr>file_exists = \<lambda>_. False, file_read = \<lambda>_. None\<rparr> ''etc'' sample_source_doc"
  have "\<not> isl ?r" by code_simp
  then obtain c where c: "?r = Inr c" by (cases ?r) auto
  have "map_of (sc_params c) ''port'' = Some (JInt 12201)" "map_of (sc_params c) ''name'' = None"
    using source_from_json_params [OF c, of "''port''"] source_from_json_params [OF c, of "''name''"]
    by (simp_all add: source_reserved_def sample_source_doc_def object_members_def)
  with c show ?thesis by blast
qed

end
