(* ===== verification/IQ_Gelf_Chunk.thy ===== *)
theory IQ_Gelf_Chunk
  imports IQ_Queue
begin

text \<open>
  Chunked GELF over UDP (src/inputs/gelf/udp): a datagram is a chunk or a whole message
  (Server.cpp), a chunk is parsed by GelfChunk.cpp, and the chunk thread of GelfInput.cpp puts
  the chunks of a message together and forgets messages that stay incomplete too long.
  \<open>size_t\<close> values are 64-bit words. The table of open messages, an unordered map, is an
  association list whose order no result depends on; the chunks of a message, a \<open>std::map\<close>, are
  a list sorted by chunk number.
\<close>

subsection \<open>Records of an input\<close>

text \<open>What an input queues: the input's name, the raw data, and where it came from.\<close>

record ('d, 's) in_record =
  m_input :: string
  m_data :: 'd
  m_source :: 's

definition Record :: "string \<Rightarrow> 'd \<Rightarrow> 's \<Rightarrow> ('d, 's) in_record" where
  "Record input data source = \<lparr>m_input = input, m_data = data, m_source = source\<rparr>"

subsection \<open>A chunk\<close>

record 'ep gelf_chunk =
  m_messageId :: string
  m_sequenceNumber :: "64 word"
  m_sequenceCount :: "64 word"
  m_chunk :: string
  m_chunk_source :: 'ep

text \<open>
  The two bytes after the identifier are converted from \<open>char\<close>, which is signed, to \<open>size_t\<close>.
\<close>

definition size_of_char :: "char \<Rightarrow> 64 word" where
  "size_of_char c = word_of_int (schar c)"

definition GelfChunk :: "string \<Rightarrow> 'ep \<Rightarrow> 'ep gelf_chunk outcome" where
  "GelfChunk chunk source =
     (if length chunk \<le> 12 then Inl GelfException
      else
        let it = (if chunk ! 0 = CHR 0x1E then (if chunk ! 1 = CHR 0x0F then 2 else 1) else 0);
            it2 = it + 8
        in Inr \<lparr>m_messageId = take 8 (drop it chunk),
                m_sequenceNumber = size_of_char (chunk ! it2),
                m_sequenceCount = size_of_char (chunk ! (it2 + 1)),
                m_chunk = drop (it2 + 2) chunk,
                m_chunk_source = source\<rparr>)"

subsection \<open>A datagram\<close>

definition udp_buffer_size :: nat where
  "udp_buffer_size = 4096"

text \<open>
  \<open>udp_session::process\<close>: the received bytes go, as a chunk, into the chunk queue, which is the
  bare concurrent queue, or, as a record, into the input's queue. The result has no value while
  the throttled enqueue has not returned.
\<close>

definition udp_session_process ::
  "('c, 'ep gelf_chunk) cq_lib \<Rightarrow> ('q, (string, 'ep) in_record) cq_lib
    \<Rightarrow> (string, 'ep) in_record other_act list list \<Rightarrow> string \<Rightarrow> 'c \<times> 'q message_queue
    \<Rightarrow> string \<Rightarrow> nat \<Rightarrow> 'ep \<Rightarrow> ('c \<times> 'q message_queue) outcome option" where
  "udp_session_process LC LQ env name s m_buffer bytes_transferred m_remote_endpoint =
     (let (cq, mq) = s;
          buff = take (min (length m_buffer) bytes_transferred) m_buffer;
          handler = (\<lambda>e. if catches GelfException e then Some (Inr s) else Some (Inl e))
      in if length buff \<le> 2 then handler GelfException
         else if buff ! 0 = CHR 0x1E \<and> buff ! 1 = CHR 0x0F then
           (case GelfChunk buff m_remote_endpoint of
              Inl e \<Rightarrow> handler e
            | Inr chunk \<Rightarrow> Some (Inr (fst (cq_enqueue LC cq chunk), mq)))
         else
           (case mq_enqueue LQ env mq (Record name buff m_remote_endpoint) of
              None \<Rightarrow> None
            | Some (mq', ok, t, p) \<Rightarrow> Some (Inr (cq, mq'))))"

text \<open>
  The handler of a receive: it posts the session's \<open>process\<close> for a datagram without error and
  not empty, and starts the next receive in every case. The server takes one receive after the
  other; an exception that leaves \<open>process\<close> leaves the server's thread. \<open>envs\<close> is one environment
  per receive.
\<close>

record 'ep udp_receive =
  rc_error :: bool
  rc_bytes :: nat
  rc_buffer :: string
  rc_endpoint :: 'ep

definition udp_handle_receive ::
  "('c, 'ep gelf_chunk) cq_lib \<Rightarrow> ('q, (string, 'ep) in_record) cq_lib
    \<Rightarrow> (string, 'ep) in_record other_act list list \<Rightarrow> string \<Rightarrow> 'c \<times> 'q message_queue
    \<Rightarrow> 'ep udp_receive \<Rightarrow> ('c \<times> 'q message_queue) outcome option" where
  "udp_handle_receive LC LQ env name s r =
     (if \<not> rc_error r \<and> 0 < rc_bytes r
      then udp_session_process LC LQ env name s (rc_buffer r) (rc_bytes r) (rc_endpoint r)
      else Some (Inr s))"

fun udp_serve ::
  "('c, 'ep gelf_chunk) cq_lib \<Rightarrow> ('q, (string, 'ep) in_record) cq_lib
    \<Rightarrow> (nat \<Rightarrow> (string, 'ep) in_record other_act list list) \<Rightarrow> string \<Rightarrow> 'c \<times> 'q message_queue
    \<Rightarrow> 'ep udp_receive list \<Rightarrow> ('c \<times> 'q message_queue) outcome option" where
  "udp_serve LC LQ envs name s [] = Some (Inr s)"
| "udp_serve LC LQ envs name s (r # rs) =
     (case udp_handle_receive LC LQ (envs 0) name s r of
        None \<Rightarrow> None
      | Some (Inl e) \<Rightarrow> Some (Inl e)
      | Some (Inr s1) \<Rightarrow> udp_serve LC LQ (\<lambda>i. envs (Suc i)) name s1 rs)"

subsection \<open>The chunk thread\<close>

record 'ep chunked_message =
  cm_chunks :: "(64 word \<times> 'ep gelf_chunk) list"
  cm_size :: "64 word"
  cm_time :: nat

type_synonym 'ep chunk_map = "(string \<times> 'ep chunked_message) list"

definition total_message :: "(64 word \<times> 'ep gelf_chunk) list \<Rightarrow> string" where
  "total_message chunks = concat (map (\<lambda>p. m_chunk (snd p)) chunks)"

text \<open>
  What the thread does with one chunk: the new table, and the record it hands to the input's
  queue. \<open>now\<close> is the steady clock in nanoseconds.
\<close>

definition chunk_accept :: "string \<Rightarrow> nat \<Rightarrow> 'ep chunk_map \<Rightarrow> 'ep gelf_chunk
    \<Rightarrow> 'ep chunk_map \<times> (string, 'ep) in_record option" where
  "chunk_accept name now chunkMap chunk =
     (let msgId = m_messageId chunk;
          chunksCount = m_sequenceCount chunk;
          chunkNumber = m_sequenceNumber chunk
      in if 128 < chunksCount then (chunkMap, None)
         else if chunksCount \<le> chunkNumber then (chunkMap, None)
         else
           case map_of chunkMap msgId of
             Some message \<Rightarrow>
               if cm_size message \<noteq> chunksCount then (chunkMap, None)
               else
                 let chunks = ord_put chunkNumber chunk (cm_chunks message)
                 in if of_nat (length chunks) = cm_size message then
                      (AList.delete msgId chunkMap,
                       (case chunks of
                          [] \<Rightarrow> None
                        | it # _ \<Rightarrow> Some (Record name (total_message chunks) (m_chunk_source (snd it)))))
                    else (AList.update msgId (message\<lparr>cm_chunks := chunks\<rparr>) chunkMap, None)
           | None \<Rightarrow>
               (AList.update msgId
                  \<lparr>cm_chunks = ord_put chunkNumber chunk [], cm_size = chunksCount, cm_time = now\<rparr>
                  chunkMap, None))"

text \<open>
  The chunks of one bulk, with the record, if any, each chunk completes; the clock may be read
  anew for every chunk.
\<close>

fun chunk_run :: "string \<Rightarrow> (nat \<Rightarrow> nat) \<Rightarrow> 'ep chunk_map \<Rightarrow> 'ep gelf_chunk list
    \<Rightarrow> 'ep chunk_map \<times> (string, 'ep) in_record option list" where
  "chunk_run name now m [] = (m, [])"
| "chunk_run name now m (c # cs) =
     (let (m1, r) = chunk_accept name (now 0) m c;
          (m2, rs) = chunk_run name (\<lambda>i. now (Suc i)) m1 cs
      in (m2, r # rs))"

text \<open>The same with the enqueue of each completed message; \<open>envs\<close> is one environment per chunk.\<close>

fun chunk_bulk :: "('q, (string, 'ep) in_record) cq_lib \<Rightarrow> string \<Rightarrow> (nat \<Rightarrow> nat)
    \<Rightarrow> (nat \<Rightarrow> (string, 'ep) in_record other_act list list) \<Rightarrow> 'ep chunk_map \<times> 'q message_queue
    \<Rightarrow> 'ep gelf_chunk list \<Rightarrow> ('ep chunk_map \<times> 'q message_queue) option" where
  "chunk_bulk L name now envs s [] = Some s"
| "chunk_bulk L name now envs (m, mq) (c # cs) =
     (case chunk_accept name (now 0) m c of
        (m1, None) \<Rightarrow> chunk_bulk L name (\<lambda>i. now (Suc i)) (\<lambda>i. envs (Suc i)) (m1, mq) cs
      | (m1, Some r) \<Rightarrow>
          (case mq_enqueue L (envs 0) mq r of
             None \<Rightarrow> None
           | Some (mq1, ok, t, p) \<Rightarrow>
               chunk_bulk L name (\<lambda>i. now (Suc i)) (\<lambda>i. envs (Suc i)) (m1, mq1) cs))"

text \<open>The sweep over the table: a message older than the limit is erased and counted.\<close>

fun ttl_sweep :: "nat \<Rightarrow> nat \<Rightarrow> 'ep chunk_map \<Rightarrow> 64 word \<Rightarrow> 'ep chunk_map \<times> 64 word" where
  "ttl_sweep now ttl [] bad = ([], bad)"
| "ttl_sweep now ttl (p # m) bad =
     (if ttl \<le> (now - cm_time (snd p)) div 10 ^ 9 then ttl_sweep now ttl m (bad + 1)
      else (case ttl_sweep now ttl m bad of (m', bad') \<Rightarrow> (p # m', bad')))"

definition chunk_bulk_limit :: nat where
  "chunk_bulk_limit = 1000"

record ('c, 'q, 'ep) chunk_thread =
  ct_chunkQueue :: 'c
  ct_inputQueue :: "'q message_queue"
  ct_chunkMap :: "'ep chunk_map"
  m_bad_chunks :: "64 word"

text \<open>
  One turn of the thread's loop; \<open>now1\<close> are its looks at the clock while it takes the bulk,
  \<open>now2\<close> the one before the sweep.
\<close>

definition chunk_thread_turn ::
  "('c, 'ep gelf_chunk) cq_lib \<Rightarrow> ('q, (string, 'ep) in_record) cq_lib
    \<Rightarrow> (nat \<Rightarrow> (string, 'ep) in_record other_act list list) \<Rightarrow> string \<Rightarrow> nat \<Rightarrow> (nat \<Rightarrow> nat) \<Rightarrow> nat
    \<Rightarrow> ('c, 'q, 'ep) chunk_thread \<Rightarrow> ('c, 'q, 'ep) chunk_thread option" where
  "chunk_thread_turn LC LQ envs name ttl now1 now2 s =
     (let (cq, bulk) = cq_try_dequeue_bulk LC (ct_chunkQueue s) chunk_bulk_limit
      in case chunk_bulk LQ name now1 envs (ct_chunkMap s, ct_inputQueue s) bulk of
           None \<Rightarrow> None
         | Some (m, mq) \<Rightarrow>
             (let (m', bad) = ttl_sweep now2 ttl m (m_bad_chunks s)
              in Some (s\<lparr>ct_chunkQueue := cq, ct_inputQueue := mq, ct_chunkMap := m',
                         m_bad_chunks := bad\<rparr>)))"

subsection \<open>What the table of open messages always satisfies\<close>

definition open_message_ok :: "string \<Rightarrow> 'ep chunked_message \<Rightarrow> bool" where
  "open_message_ok msgId msg \<longleftrightarrow>
     ord_keys (cm_chunks msg) \<and> cm_chunks msg \<noteq> [] \<and> cm_size msg \<le> 128
     \<and> (\<forall>p \<in> set (cm_chunks msg). fst p < cm_size msg \<and> m_messageId (snd p) = msgId
           \<and> m_sequenceNumber (snd p) = fst p \<and> m_sequenceCount (snd p) = cm_size msg)
     \<and> (of_nat (length (cm_chunks msg)) = cm_size msg \<longrightarrow> cm_size msg = 1)"

definition chunk_map_ok :: "'ep chunk_map \<Rightarrow> bool" where
  "chunk_map_ok m \<longleftrightarrow> distinct (map fst m) \<and> (\<forall>p \<in> set m. open_message_ok (fst p) (snd p))"

lemma chunk_map_ok_lookup: "chunk_map_ok m \<Longrightarrow> map_of m k = Some msg \<Longrightarrow> open_message_ok k msg"
  by (auto simp: chunk_map_ok_def dest: map_of_SomeD)

lemma chunk_map_ok_update:
  assumes "chunk_map_ok m" "open_message_ok k msg"
  shows "chunk_map_ok (AList.update k msg m)"
proof -
  have d: "distinct (map fst (AList.update k msg m))"
    using assms by (simp add: chunk_map_ok_def distinct_update)
  have "open_message_ok k' v" if "(k', v) \<in> set (AList.update k msg m)" for k' v
  proof -
    have "map_of (AList.update k msg m) k' = Some v" using d that by simp
    then show ?thesis
      using assms by (auto simp: update_conv' split: if_splits dest: chunk_map_ok_lookup)
  qed
  with d show ?thesis by (auto simp: chunk_map_ok_def)
qed

lemma chunk_map_ok_delete: "chunk_map_ok m \<Longrightarrow> chunk_map_ok (AList.delete k m)"
  by (auto simp: chunk_map_ok_def distinct_delete AList.delete_eq distinct_map_filter)

lemma open_message_put:
  assumes "open_message_ok k msg" "m_messageId c = k" "m_sequenceCount c = cm_size msg"
    and "m_sequenceNumber c < cm_size msg"
    and "of_nat (length (ord_put (m_sequenceNumber c) c (cm_chunks msg))) \<noteq> cm_size msg"
  shows "open_message_ok k (msg\<lparr>cm_chunks := ord_put (m_sequenceNumber c) c (cm_chunks msg)\<rparr>)"
  using assms by (auto simp: open_message_ok_def set_ord_put ord_keys_put)

lemma chunk_accept_ok:
  assumes "chunk_map_ok m" "chunk_accept name now m c = (m', r)"
  shows "chunk_map_ok m'"
proof (cases "map_of m (m_messageId c)")
  case None
  have "open_message_ok (m_messageId c) \<lparr>cm_chunks = ord_put (m_sequenceNumber c) c [],
      cm_size = m_sequenceCount c, cm_time = now\<rparr>"
    if "\<not> 128 < m_sequenceCount c" "\<not> m_sequenceCount c \<le> m_sequenceNumber c"
    using that by (auto simp: open_message_ok_def not_le not_less)
  with None assms show ?thesis
    by (auto simp: chunk_accept_def Let_def split: if_splits intro: chunk_map_ok_update)
next
  case (Some msg)
  with assms open_message_put [OF chunk_map_ok_lookup [OF assms(1) Some] refl] show ?thesis
    by (auto simp: chunk_accept_def Let_def not_le split: if_splits list.splits
        intro!: chunk_map_ok_update chunk_map_ok_delete)
qed

lemma words_below: "{k :: 'a :: len word. k < n} = of_nat ` {..<unat n}"
proof (intro set_eqI iffI)
  fix k :: "'a word"
  assume "k \<in> {k. k < n}"
  then have "unat k < unat n" by (simp add: word_less_nat_alt)
  then show "k \<in> of_nat ` {..<unat n}" by (metis imageI lessThan_iff of_nat_unat ucast_id)
next
  fix k :: "'a word"
  assume "k \<in> of_nat ` {..<unat n}"
  then obtain i where i: "k = of_nat i" "i < unat n" by auto
  have "i < 2 ^ LENGTH('a)" using i(2) by (rule order.strict_trans) simp
  with i show "k \<in> {k. k < n}" by (simp add: word_less_nat_alt unat_of_nat)
qed

lemma unat_of_nat64: "n < 2 ^ 64 \<Longrightarrow> unat (of_nat n :: 64 word) = n"
  by (simp add: unat_of_nat)

lemma of_nat64_eq_iff: "m < 2 ^ 64 \<Longrightarrow> n < 2 ^ 64 \<Longrightarrow> (of_nat m :: 64 word) = of_nat n \<longleftrightarrow> m = n"
  by (metis unat_of_nat64)

lemma of_nat64_less_iff: "m < 2 ^ 64 \<Longrightarrow> n < 2 ^ 64 \<Longrightarrow> (of_nat m :: 64 word) < of_nat n \<longleftrightarrow> m < n"
  by (simp add: word_less_nat_alt unat_of_nat64)

lemma sorted_of_nat64:
  assumes "n \<le> 2 ^ 64"
  shows "sorted_wrt (<) (map (of_nat :: nat \<Rightarrow> 64 word) [0..<n])"
  using assms by (auto simp: sorted_wrt_iff_nth_less of_nat64_less_iff)

text \<open>Chunk numbers below the count, as many as the count, are all of them, in order.\<close>

lemma complete_keys:
  fixes l :: "(64 word \<times> 'b) list"
  assumes "ord_keys l" "\<forall>p \<in> set l. fst p < n" "of_nat (length l) = n"
  shows "map fst l = map of_nat [0..<unat n]"
proof -
  have sub: "set (map fst l) \<subseteq> of_nat ` {..<unat n}"
    using assms(2) words_below [of n] by auto
  have dis: "distinct (map fst l)" using assms(1) by (rule ord_keys_distinct)
  have n64: "unat n < 2 ^ 64" using unsigned_less [of n] by simp
  have card: "card (of_nat ` {..<unat n} :: 64 word set) = unat n"
    by (subst card_image) (auto simp: inj_on_def of_nat64_eq_iff [OF order.strict_trans order.strict_trans, OF _ n64 _ n64])
  have "length l \<le> unat n"
    using card_mono [OF _ sub] card distinct_card [OF dis] by simp
  then have "length l = unat n"
    using assms(3) n64 unat_of_nat64 [of "length l"] by simp
  then have "set (map fst l) = of_nat ` {..<unat n}"
    using card_subset_eq [OF _ sub] card distinct_card [OF dis] by simp
  then show ?thesis
    using assms(1) sorted_of_nat64 [of "unat n"] n64
    by (intro strict_sorted_equal) (auto simp: ord_keys_def atLeast0LessThan)
qed

lemma chunk_accept_complete:
  assumes "chunk_map_ok m" "chunk_accept name now m c = (m', Some r)"
  obtains cs where "c \<in> set cs"
    and "m_data r = concat (map m_chunk cs)" "m_source r = m_chunk_source (hd cs)" "m_input r = name"
    and "map m_sequenceNumber cs = map of_nat [0..<unat (m_sequenceCount c)]"
    and "\<forall>d \<in> set cs. m_messageId d = m_messageId c \<and> m_sequenceCount d = m_sequenceCount c"
    and "map_of m' (m_messageId c) = None"
proof -
  let ?k = "m_messageId c" and ?n = "m_sequenceNumber c"
  from assms(2) obtain msg where msg: "map_of m ?k = Some msg" "cm_size msg = m_sequenceCount c"
      "?n < m_sequenceCount c"
      "of_nat (length (ord_put ?n c (cm_chunks msg))) = cm_size msg" "m' = AList.delete ?k m"
    and r: "Some r = (case ord_put ?n c (cm_chunks msg) of [] \<Rightarrow> None
        | it # _ \<Rightarrow> Some (Record name (total_message (ord_put ?n c (cm_chunks msg))) (m_chunk_source (snd it))))"
    by (auto simp: chunk_accept_def Let_def not_le split: if_splits option.splits)
  let ?l = "ord_put ?n c (cm_chunks msg)"
  have ok: "open_message_ok ?k msg" using chunk_map_ok_lookup [OF assms(1) msg(1)] .
  then have l: "ord_keys ?l" "set ?l = insert (?n, c) {p \<in> set (cm_chunks msg). fst p \<noteq> ?n}"
    by (simp_all add: open_message_ok_def ord_keys_put set_ord_put)
  then have all: "\<forall>p \<in> set ?l. fst p < cm_size msg \<and> m_messageId (snd p) = ?k
      \<and> m_sequenceNumber (snd p) = fst p \<and> m_sequenceCount (snd p) = cm_size msg"
    using ok msg(2,3) by (auto simp: open_message_ok_def)
  have keys: "map fst ?l = map of_nat [0..<unat (m_sequenceCount c)]"
    using complete_keys [OF l(1) _ msg(4)] all msg(2) by auto
  have num: "map m_sequenceNumber (map snd ?l) = map fst ?l"
    using all by simp
  obtain it rest where it: "?l = it # rest" by (cases ?l) simp_all
  show ?thesis
  proof
    show "c \<in> set (map snd ?l)" using l(2) by force
    show "m_data r = concat (map m_chunk (map snd ?l))"
      "m_source r = m_chunk_source (hd (map snd ?l))" "m_input r = name"
      using r it by (simp_all add: Record_def total_message_def comp_def)
    show "map m_sequenceNumber (map snd ?l) = map of_nat [0..<unat (m_sequenceCount c)]"
      using num keys by simp
    show "\<forall>d \<in> set (map snd ?l). m_messageId d = ?k \<and> m_sequenceCount d = m_sequenceCount c"
      using all msg(2) by auto
    show "map_of m' ?k = None" using msg(5) by (simp add: delete_conv')
  qed
qed

subsection \<open>Putting a message together\<close>

text \<open>
  The specification of a chunked message: payload \<open>i\<close> of \<open>n\<close> travels in the chunk with number
  \<open>i\<close> and count \<open>n\<close>.
\<close>

definition chunk_of :: "string \<Rightarrow> string list \<Rightarrow> 'ep \<Rightarrow> nat \<Rightarrow> 'ep gelf_chunk" where
  "chunk_of msgId payloads src i =
     \<lparr>m_messageId = msgId, m_sequenceNumber = of_nat i,
      m_sequenceCount = of_nat (length payloads), m_chunk = payloads ! i, m_chunk_source = src\<rparr>"

definition split_chunks :: "string \<Rightarrow> string list \<Rightarrow> 'ep \<Rightarrow> 'ep gelf_chunk list" where
  "split_chunks msgId payloads src = map (chunk_of msgId payloads src) [0..<length payloads]"

lemma chunk_of_sel [simp]:
  "m_messageId (chunk_of x ps src i) = x"
  "m_sequenceNumber (chunk_of x ps src i) = of_nat i"
  "m_sequenceCount (chunk_of x ps src i) = of_nat (length ps)"
  "m_chunk (chunk_of x ps src i) = ps ! i"
  "m_chunk_source (chunk_of x ps src i) = src"
  by (simp_all add: chunk_of_def)

text \<open>The table holds exactly the chunks numbered in \<open>S\<close> of this message.\<close>

definition collected :: "string \<Rightarrow> string list \<Rightarrow> 'ep \<Rightarrow> nat set \<Rightarrow> 'ep chunk_map \<Rightarrow> bool" where
  "collected x ps src S m \<longleftrightarrow>
     (if S = {} \<or> S = {..<length ps} then map_of m x = None
      else \<exists>t l. map_of m x = Some \<lparr>cm_chunks = l, cm_size = of_nat (length ps), cm_time = t\<rparr>
             \<and> ord_keys l \<and> set l = (\<lambda>i. (of_nat i, chunk_of x ps src i)) ` S)"

lemma total_message_all:
  assumes "length ps \<le> 2 ^ 64" "ord_keys l"
    and "set l = (\<lambda>i. (of_nat i, chunk_of x ps src i)) ` {..<length ps}"
  shows "l = map (\<lambda>i. (of_nat i, chunk_of x ps src i)) [0..<length ps]"
    and "total_message l = concat ps"
proof -
  have "ord_keys (map (\<lambda>i. (of_nat i :: 64 word, chunk_of x ps src i)) [0..<length ps])"
    using sorted_of_nat64 [OF assms(1)] by (simp add: ord_keys_def comp_def)
  moreover have "set l = set (map (\<lambda>i. (of_nat i, chunk_of x ps src i)) [0..<length ps])"
    using assms(3) by (simp add: atLeast0LessThan)
  ultimately show l: "l = map (\<lambda>i. (of_nat i, chunk_of x ps src i)) [0..<length ps]"
    using assms(2) by (intro ord_keys_unique)
  show "total_message l = concat ps"
    unfolding l total_message_def by (simp add: comp_def map_nth)
qed

lemma collected_put:
  fixes l :: "(64 word \<times> 'ep gelf_chunk) list"
  assumes n: "length ps \<le> 128" and S: "S \<subseteq> {..<length ps}" "j < length ps" "j \<notin> S"
    and l: "ord_keys l" "set l = (\<lambda>i. (of_nat i, chunk_of x ps src i)) ` S"
  shows "set (ord_put (of_nat j) (chunk_of x ps src j) l)
      = (\<lambda>i. (of_nat i, chunk_of x ps src i)) ` insert j S" (is "?set")
    and "(of_nat (length (ord_put (of_nat j) (chunk_of x ps src j) l)) = (of_nat (length ps) :: 64 word))
      \<longleftrightarrow> insert j S = {..<length ps}" (is ?full)
proof -
  have inj: "(of_nat i :: 64 word) = of_nat k \<longleftrightarrow> i = k" if "i < length ps" "k < length ps" for i k
    using that n by (simp add: of_nat64_eq_iff)
  have "{p \<in> set l. fst p \<noteq> of_nat j} = set l"
    using l(2) S inj by auto
  then show set: ?set using set_ord_put [OF l(1)] l(2) by simp
  have "inj_on (\<lambda>i. (of_nat i :: 64 word, chunk_of x ps src i)) (insert j S)"
    using S inj by (auto simp: inj_on_def)
  then have len: "length (ord_put (of_nat j) (chunk_of x ps src j) l) = card (insert j S)"
    using ord_keys_length [OF ord_keys_put [OF l(1)]] set by (simp only: card_image)
  have sub: "insert j S \<subseteq> {..<length ps}" using S by auto
  have le: "card (insert j S) \<le> length ps" using card_mono [OF _ sub] by simp
  then have "(of_nat (card (insert j S)) = (of_nat (length ps) :: 64 word)) \<longleftrightarrow> card (insert j S) = length ps"
    using n by (simp add: of_nat64_eq_iff)
  also have "\<dots> \<longleftrightarrow> insert j S = {..<length ps}"
    by (metis card_lessThan card_subset_eq finite_lessThan sub)
  finally show ?full using len by simp
qed

lemma small_word_bounds:
  assumes "n \<le> 128" "j < n"
  shows "\<not> (128 :: 64 word) < of_nat n" "\<not> (of_nat n :: 64 word) \<le> of_nat j"
  using assms by (simp_all add: word_less_nat_alt word_le_nat_alt unat_of_nat64)

lemma collected_step:
  assumes n: "2 \<le> length ps" "length ps \<le> 128" and S: "S \<subseteq> {..<length ps}" "j < length ps" "j \<notin> S"
    and c: "collected x ps src S m"
    and a: "chunk_accept name now m (chunk_of x ps src j) = (m', r)"
  shows "collected x ps src (insert j S) m'"
    and "r = (if insert j S = {..<length ps} then Some (Record name (concat ps) src) else None)"
proof -
  note bounds = small_word_bounds [OF n(2) S(2)]
  have "collected x ps src (insert j S) m' \<and>
    r = (if insert j S = {..<length ps} then Some (Record name (concat ps) src) else None)"
  proof (cases "S = {}")
    case True
    have two: "{j} \<noteq> {..<length ps}"
    proof
      assume "{j} = {..<length ps}"
      then have "card {j} = length ps" by simp
      with n(1) show False by simp
    qed
    have "map_of m x = None" using c True by (simp add: collected_def)
    with a bounds have "r = None" "m' = AList.update x \<lparr>cm_chunks = [(of_nat j, chunk_of x ps src j)],
        cm_size = of_nat (length ps), cm_time = now\<rparr> m"
      by (auto simp: chunk_accept_def Let_def)
    with True two show ?thesis by (simp add: collected_def update_conv')
  next
    case False
    have "S \<noteq> {..<length ps}" using S by auto
    with False c obtain t l where l: "map_of m x = Some \<lparr>cm_chunks = l, cm_size = of_nat (length ps), cm_time = t\<rparr>"
        "ord_keys l" "set l = (\<lambda>i. (of_nat i, chunk_of x ps src i)) ` S"
      by (auto simp: collected_def)
    let ?l = "ord_put (of_nat j) (chunk_of x ps src j) l"
    note put = collected_put [OF n(2) S l(2,3)]
    show ?thesis
    proof (cases "insert j S = {..<length ps}")
      case True
      have tot: "?l = map (\<lambda>i. (of_nat i, chunk_of x ps src i)) [0..<length ps]" "total_message ?l = concat ps"
        using total_message_all [OF _ ord_keys_put [OF l(2)]] put(1) True n(2) by auto
      obtain it rest where it: "?l = it # rest" by (cases ?l) simp_all
      with tot have "m_chunk_source (snd it) = src" by (cases "length ps") (auto simp: upt_rec)
      with a bounds l(1) put(2) True it tot(2) have "m' = AList.delete x m" "r = Some (Record name (concat ps) src)"
        by (auto simp: chunk_accept_def Let_def)
      with True show ?thesis by (simp add: collected_def delete_conv')
    next
      case False
      with a bounds l(1) put(2) have "r = None" "m' = AList.update x \<lparr>cm_chunks = ?l, cm_size = of_nat (length ps), cm_time = t\<rparr> m"
        by (auto simp: chunk_accept_def Let_def)
      with False put(1) ord_keys_put [OF l(2)] show ?thesis by (simp add: collected_def update_conv')
    qed
  qed
  then show "collected x ps src (insert j S) m'"
    and "r = (if insert j S = {..<length ps} then Some (Record name (concat ps) src) else None)"
    by blast+
qed

lemma chunk_accept_other:
  assumes "chunk_accept name now m c = (m', r)" "m_messageId c \<noteq> x"
  shows "map_of m' x = map_of m x"
  using assms
  by (auto simp: chunk_accept_def Let_def update_conv' split: if_splits option.splits)

lemma collected_other:
  assumes "chunk_accept name now m c = (m', r)" "m_messageId c \<noteq> x"
  shows "collected x ps src S m' = collected x ps src S m"
  by (simp add: collected_def chunk_accept_other [OF assms])

text \<open>The records that the chunks of message \<open>x\<close> complete during a run.\<close>

definition outs_of :: "string \<Rightarrow> 'ep gelf_chunk list \<Rightarrow> 'r option list \<Rightarrow> 'r list" where
  "outs_of x cs rs = List.map_filter (\<lambda>(c, r). if m_messageId c = x then r else None) (zip cs rs)"

lemma outs_of_simps [simp]:
  "outs_of x [] rs = []"
  "outs_of x (c # cs) (None # rs) = outs_of x cs rs"
  "outs_of x (c # cs) (Some r # rs) = (if m_messageId c = x then r # outs_of x cs rs else outs_of x cs rs)"
  by (simp_all add: outs_of_def List.map_filter_simps)

lemma outs_of_other [simp]: "m_messageId c \<noteq> x \<Longrightarrow> outs_of x (c # cs) (r # rs) = outs_of x cs rs"
  by (cases r) simp_all

lemma chunk_run_collect:
  assumes n: "2 \<le> length ps" "length ps \<le> 128"
  shows "collected x ps src S m \<Longrightarrow> S \<subseteq> {..<length ps} \<Longrightarrow>
    mset (filter (\<lambda>c. m_messageId c = x) cs) = image_mset (chunk_of x ps src) (mset_set ({..<length ps} - S)) \<Longrightarrow>
    chunk_run name now m cs = (m', rs) \<Longrightarrow>
    map_of m' x = None \<and>
    outs_of x cs rs = (if S = {..<length ps} then [] else [Record name (concat ps) src])"
proof (induction cs arbitrary: S m rs now)
  case Nil
  then have "{..<length ps} - S = {}" by (metis filter.simps(1) finite_Diff finite_lessThan
        image_mset_is_empty_iff mset.simps(1) mset_set_empty_iff)
  then have "S = {..<length ps}" using Nil.prems(2) by auto
  with Nil.prems show ?case by (simp add: collected_def)
next
  case (Cons c cs)
  from Cons.prems(4) obtain m1 r rs' where run: "chunk_accept name (now 0) m c = (m1, r)"
      "chunk_run name (\<lambda>i. now (Suc i)) m1 cs = (m', rs')" "rs = r # rs'"
    by (auto simp: Let_def split: prod.splits)
  show ?case
  proof (cases "m_messageId c = x")
    case False
    with Cons.IH [OF _ Cons.prems(2) _ run(2)] Cons.prems(1,3) collected_other [OF run(1) False] run(3)
    show ?thesis by simp
  next
    case True
    have rest: "add_mset c (mset (filter (\<lambda>c. m_messageId c = x) cs))
        = image_mset (chunk_of x ps src) (mset_set ({..<length ps} - S))"
      using Cons.prems(3) True by simp
    then have "c \<in># image_mset (chunk_of x ps src) (mset_set ({..<length ps} - S))"
      by (metis union_single_eq_member)
    then obtain j where j: "c = chunk_of x ps src j" "j < length ps" "j \<notin> S" by auto
    have "mset_set ({..<length ps} - S) = add_mset j (mset_set ({..<length ps} - insert j S))"
      using j mset_set.remove [of "{..<length ps} - S" j] by (simp add: Diff_insert [symmetric])
    with rest j have rest': "mset (filter (\<lambda>c. m_messageId c = x) cs)
        = image_mset (chunk_of x ps src) (mset_set ({..<length ps} - insert j S))"
      by simp
    note step = collected_step [OF n Cons.prems(2) j(2,3) Cons.prems(1) run(1) [unfolded j(1)]]
    have "insert j S \<subseteq> {..<length ps}" using Cons.prems(2) j by auto
    from Cons.IH [OF step(1) this rest' run(2)] step(2) run(3) j show ?thesis by auto
  qed
qed

subsection \<open>Datagrams\<close>

text \<open>The wire form of chunk \<open>i\<close> of \<open>n\<close>: magic bytes, identifier, number, count, payload.\<close>

definition chunk_datagram :: "string \<Rightarrow> nat \<Rightarrow> nat \<Rightarrow> string \<Rightarrow> string" where
  "chunk_datagram msgId n i payload =
     CHR 0x1E # CHR 0x0F # msgId @ char_of i # char_of n # payload"

lemma size_of_char_small: "n < 128 \<Longrightarrow> size_of_char (char_of n) = of_nat n"
  by (simp add: size_of_char_def schar_def)

lemma drop_id_bytes:
  assumes "length msgId = 8"
  shows "drop 10 (a # b # msgId @ rest) = rest" "(a # b # msgId @ c # rest) ! 10 = c"
    "(a # b # msgId @ c # d # rest) ! 11 = d" "drop 12 (a # b # msgId @ c # d # rest) = rest"
  using assms by (simp_all add: numeral_eq_Suc nth_append)

lemma GelfChunk_datagram:
  assumes "length msgId = 8" "payload \<noteq> []"
  shows "GelfChunk (chunk_datagram msgId n i payload) src =
    Inr \<lparr>m_messageId = msgId, m_sequenceNumber = size_of_char (char_of i),
         m_sequenceCount = size_of_char (char_of n), m_chunk = payload, m_chunk_source = src\<rparr>"
proof -
  have "12 < length (chunk_datagram msgId n i payload)"
    using assms by (cases payload) (simp_all add: chunk_datagram_def)
  then show ?thesis
    using assms drop_id_bytes [OF assms(1)]
    by (simp add: GelfChunk_def chunk_datagram_def Let_def)
qed

lemma GelfChunk_chunk_of:
  assumes "length x = 8" "\<forall>p \<in> set ps. p \<noteq> []" "length ps \<le> 127" "i < length ps"
  shows "GelfChunk (chunk_datagram x (length ps) i (ps ! i)) src = Inr (chunk_of x ps src i)"
  using assms by (simp add: GelfChunk_datagram size_of_char_small chunk_of_def)

lemma outcome_map_all:
  "(\<And>d. d \<in> set ds \<Longrightarrow> f d = Inr (g d)) \<Longrightarrow> outcome_map f ds = Inr (map g ds)"
  by (induction ds) simp_all

lemma outcome_map_map: "outcome_map f (map g xs) = outcome_map (\<lambda>x. f (g x)) xs"
  by (induction xs) simp_all

lemma mset_map_permuted:
  "mset ds = mset (map f xs) \<Longrightarrow> \<exists>\<pi>. mset \<pi> = mset xs \<and> ds = map f \<pi>"
proof (induction ds arbitrary: xs)
  case (Cons d ds)
  then have "d \<in> set (map f xs)" by (metis list.set_intros(1) set_mset_mset)
  then obtain x where x: "x \<in> set xs" "d = f x" by auto
  then have xs: "mset xs = add_mset x (mset (remove1 x xs))" by simp
  have "add_mset d (mset ds) = add_mset d (image_mset f (mset (remove1 x xs)))"
    using Cons.prems x(2) unfolding mset_map xs by simp
  then have "mset ds = mset (map f (remove1 x xs))" by simp
  from Cons.IH [OF this] obtain ys where "mset ys = mset (remove1 x xs)" "ds = map f ys" by blast
  with x xs show ?case by (intro exI [of _ "x # ys"]) simp
qed simp

lemma filter_id_chunks [simp]:
  "filter (\<lambda>c. m_messageId c = x) (map (chunk_of x ps src) is) = map (chunk_of x ps src) is"
  by (simp add: filter_id_conv chunk_of_def)

lemma mod_add_wrap: "- m \<le> (k :: int) \<Longrightarrow> k < 0 \<Longrightarrow> k mod m = k + m"
  by (smt (verit) mod_add_self2 mod_pos_pos_trivial)

lemma size_of_char_big:
  assumes "128 \<le> n" "n < (256 :: nat)"
  shows "128 < size_of_char (char_of n)"
proof -
  have "schar (char_of n) = int n - 256"
    using assms by (simp add: schar_def)
  moreover have "(int n - 256) mod 2 ^ 64 = int n - 256 + 2 ^ 64"
    using assms by (intro mod_add_wrap) simp_all
  ultimately have "uint (size_of_char (char_of n)) = int n - 256 + 2 ^ 64"
    unfolding size_of_char_def uint_word_of_int by simp
  then show ?thesis using assms unfolding word_less_def by simp
qed

subsection \<open>The sweep\<close>

definition stale :: "nat \<Rightarrow> nat \<Rightarrow> 'ep chunked_message \<Rightarrow> bool" where
  "stale now ttl msg \<longleftrightarrow> ttl \<le> (now - cm_time msg) div 10 ^ 9"

lemma ttl_sweep_filter:
  "ttl_sweep now ttl m bad =
     (filter (\<lambda>p. \<not> stale now ttl (snd p)) m, bad + of_nat (length (filter (\<lambda>p. stale now ttl (snd p)) m)))"
  by (induction now ttl m bad rule: ttl_sweep.induct) (simp_all add: stale_def)

lemma chunk_map_ok_filter: "chunk_map_ok m \<Longrightarrow> chunk_map_ok (filter P m)"
  by (auto simp: chunk_map_ok_def distinct_map_filter)

lemma chunk_run_ok:
  "chunk_map_ok m \<Longrightarrow> chunk_run name now m cs = (m', rs) \<Longrightarrow> chunk_map_ok m'"
  by (induction cs arbitrary: m rs now)
     (auto simp: Let_def split: prod.splits dest: chunk_accept_ok)

lemma chunk_bulk_run:
  "chunk_bulk L name now envs (m, mq) cs = Some (m', mq') \<Longrightarrow> fst (chunk_run name now m cs) = m'"
  by (induction cs arbitrary: m mq now envs)
     (fastforce simp: Let_def split: prod.splits option.splits)+

subsection \<open>Properties\<close>



text \<open>
  A record that leaves the chunk thread is complete and unmixed: there are chunks with one
  identifier and one count \<open>n\<close>, numbered \<open>0\<close> to \<open>n - 1\<close> in this order, whose payloads in this
  order are the data; the chunk just taken is one of them, the source is that of chunk 0, and the
  message is closed.
\<close>

theorem emitted_record_complete:
  assumes "chunk_map_ok m" "chunk_accept name now m c = (m', Some r)"
  shows "\<exists>cs. c \<in> set cs \<and> m_data r = concat (map m_chunk cs)
    \<and> m_source r = m_chunk_source (hd cs) \<and> m_input r = name
    \<and> map m_sequenceNumber cs = map of_nat [0..<unat (m_sequenceCount c)]
    \<and> (\<forall>d. d \<in> set cs \<longrightarrow> m_messageId d = m_messageId c \<and> m_sequenceCount d = m_sequenceCount c)
    \<and> map_of m' (m_messageId c) = None"
  using chunk_accept_complete [OF assms] by metis

lemma word64_lits [simp]: "\<not> (2 :: 64 word) \<le> 1" "(1 :: 64 word) < 2" "(0 :: 64 word) < 2" "\<not> (128 :: 64 word) < 2"
  by code_simp+

definition pair_map :: "nat chunk_map" where
  "pair_map = [(''AAAAAAAA'', \<lparr>cm_chunks = [(0, chunk_of ''AAAAAAAA'' [''he'', ''llo''] 1 0)],
     cm_size = 2, cm_time = 0\<rparr>)]"

lemma emitted_record_complete_witness:
  "\<exists>cs. chunk_of ''AAAAAAAA'' [''he'', ''llo''] (1 :: nat) 1 \<in> set cs
    \<and> m_data (Record ''in'' ''hello'' (1 :: nat)) = concat (map m_chunk cs)"
proof -
  have ok: "chunk_map_ok pair_map"
    by (simp add: pair_map_def chunk_map_ok_def open_message_ok_def)
  have "chunk_accept ''in'' 7 pair_map (chunk_of ''AAAAAAAA'' [''he'', ''llo''] 1 1)
      = ([], Some (Record ''in'' ''hello'' 1))"
    by (simp add: chunk_accept_def pair_map_def total_message_def Let_def)
  from emitted_record_complete [OF ok this] show ?thesis by blast
qed

text \<open>
  C28: One turn of the chunk thread keeps the table of open messages well formed: identifiers are
  distinct, every open message has at least one chunk (so the sweep may look at its first one),
  its chunks are sorted by number, below its count, and carry its identifier and count, and it is
  incomplete unless it has a single chunk.
\<close>

theorem chunk_thread_turn_ok:
  assumes "chunk_map_ok (ct_chunkMap s)"
    and "chunk_thread_turn LC LQ envs name ttl now1 now2 s = Some s'"
  shows "chunk_map_ok (ct_chunkMap s')"
proof -
  obtain cq bulk where d: "cq_try_dequeue_bulk LC (ct_chunkQueue s) chunk_bulk_limit = (cq, bulk)"
    by fastforce
  with assms(2) obtain m mq where b: "chunk_bulk LQ name now1 envs (ct_chunkMap s, ct_inputQueue s) bulk = Some (m, mq)"
      "ct_chunkMap s' = filter (\<lambda>p. \<not> stale now2 ttl (snd p)) m"
    by (auto simp: chunk_thread_turn_def ttl_sweep_filter split: option.splits)
  obtain m1 rs where r: "chunk_run name now1 (ct_chunkMap s) bulk = (m1, rs)" by fastforce
  with chunk_bulk_run [OF b(1)] have "m1 = m" by simp
  with chunk_run_ok [OF assms(1) r] b(2) show ?thesis by (simp add: chunk_map_ok_filter)
qed

definition idle_thread :: "(nat gelf_chunk list, (string, nat) in_record list, nat) chunk_thread" where
  "idle_thread = \<lparr>ct_chunkQueue = [chunk_of ''AAAAAAAA'' [''he'', ''llo''] 1 1],
     ct_inputQueue = MessageQueue ''inputs.in.queue'' 10 OV_DROP [], ct_chunkMap = pair_map,
     m_bad_chunks = 0\<rparr>"

lemma chunk_thread_turn_ok_witness:
  "\<exists>s'. chunk_thread_turn list_cq list_cq (\<lambda>_. []) ''in'' 5 (\<lambda>_. 7) 8 idle_thread = Some s'
     \<and> chunk_map_ok (ct_chunkMap s') \<and> m_messageQueue (ct_inputQueue s') = [Record ''in'' ''hello'' 1]"
proof -
  have ok: "chunk_map_ok (ct_chunkMap idle_thread)"
    by (simp add: idle_thread_def pair_map_def chunk_map_ok_def open_message_ok_def)
  obtain s' where s': "chunk_thread_turn list_cq list_cq (\<lambda>_. []) ''in'' 5 (\<lambda>_. 7) 8 idle_thread = Some s'"
      "m_messageQueue (ct_inputQueue s') = [Record ''in'' ''hello'' 1]"
    by (simp add: chunk_thread_turn_def idle_thread_def chunk_accept_def pair_map_def
        total_message_def mq_enqueue_def MessageQueue_def chunk_bulk_limit_def Let_def)
  from chunk_thread_turn_ok [OF ok s'(1)] s' show ?thesis by blast
qed

text \<open>
  A message of at least 2 and at most 127 non-empty pieces, sent as chunk datagrams in the GELF
  wire format and received in any order, is parsed and handed on as one record whose data are
  the pieces in order.
\<close>

theorem udp_chunked_message:
  assumes "length x = 8" "2 \<le> length ps" "length ps \<le> 127" "\<forall>p \<in> set ps. p \<noteq> []"
    and "mset ds = mset (map (\<lambda>i. chunk_datagram x (length ps) i (ps ! i)) [0..<length ps])"
  shows "\<exists>cs m rs. outcome_map (\<lambda>d. GelfChunk d src) ds = Inr cs
    \<and> chunk_run name now [] cs = (m, rs) \<and> outs_of x cs rs = [Record name (concat ps) src]
    \<and> map_of m x = None"
proof -
  obtain \<pi> where p: "mset \<pi> = mset [0..<length ps]"
      "ds = map (\<lambda>i. chunk_datagram x (length ps) i (ps ! i)) \<pi>"
    using mset_map_permuted [OF assms(5)] by blast
  let ?cs = "map (chunk_of x ps src) \<pi>"
  have in_range: "i < length ps" if "i \<in> set \<pi>" for i
    using p(1) that by (metis atLeastLessThan_iff set_mset_mset set_upt)
  have parse: "outcome_map (\<lambda>d. GelfChunk d src) ds = Inr ?cs"
    unfolding p(2) outcome_map_map
    by (rule outcome_map_all) (rule GelfChunk_chunk_of [OF assms(1,4,3)], rule in_range)
  obtain m rs where run: "chunk_run name now [] ?cs = (m, rs)" by fastforce
  have "image_mset (chunk_of x ps src) (mset \<pi>) = image_mset (chunk_of x ps src) (mset_set ({..<length ps} - {}))"
    using p(1) by (simp add: atLeast_upt flip: mset_upt)
  then have all: "mset (filter (\<lambda>c. m_messageId c = x) ?cs)
      = image_mset (chunk_of x ps src) (mset_set ({..<length ps} - {}))"
    by (simp add: filter_id_chunks)
  have "{} \<noteq> {..<length ps}" using assms(2) by (metis lessThan_empty_iff not_numeral_le_zero)
  then have "map_of m x = None \<and> outs_of x ?cs rs = [Record name (concat ps) src]"
    using chunk_run_collect [OF assms(2) _ _ _ all run] assms(3) by (simp add: collected_def)
  with parse run show ?thesis by blast
qed

lemma udp_chunked_message_witness:
  "\<exists>cs m rs. outcome_map (\<lambda>d. GelfChunk d (9 :: nat))
      [chunk_datagram ''ABCDEFGH'' 2 1 ''lo'', chunk_datagram ''ABCDEFGH'' 2 0 ''hel''] = Inr cs
    \<and> chunk_run ''in'' (\<lambda>_. 0) [] cs = (m, rs) \<and> outs_of ''ABCDEFGH'' cs rs = [Record ''in'' ''hello'' 9]
    \<and> map_of m ''ABCDEFGH'' = None"
proof -
  have p: "mset [chunk_datagram ''ABCDEFGH'' 2 1 ''lo'', chunk_datagram ''ABCDEFGH'' 2 0 ''hel'']
      = mset (map (\<lambda>i. chunk_datagram ''ABCDEFGH'' (length [''hel'', ''lo'']) i ([''hel'', ''lo''] ! i))
          [0..<length [''hel'', ''lo'']])"
    by (simp add: numeral_2_eq_2 add_mset_commute)
  from udp_chunked_message [OF _ _ _ _ p, of 9 "''in''" "\<lambda>_. 0"] show ?thesis
    by (simp del: outcome_map.simps)
qed

text \<open>
  C31: The count is read through a signed character: a chunk of a message of 128 chunks or more, which
  the check \<open>chunksCount > 128\<close> means to let through at 128, is always refused, and the table
  stays as it was.
\<close>

theorem chunk_count_128_refused:
  assumes "length x = 8" "payload \<noteq> []" "128 \<le> n" "n < 256"
  shows "\<exists>c. GelfChunk (chunk_datagram x n i payload) src = Inr c
    \<and> chunk_accept name now m c = (m, None)"
  using size_of_char_big [OF assms(3,4)]
  by (simp add: GelfChunk_datagram [OF assms(1,2)] chunk_accept_def Let_def)

lemma chunk_count_128_refused_witness:
  "\<exists>c. GelfChunk (chunk_datagram ''ABCDEFGH'' 128 0 ''x'') (9 :: nat) = Inr c
    \<and> chunk_accept ''in'' 0 [] c = ([], None)"
  by (rule chunk_count_128_refused) simp_all

text \<open>
  The only chunk of a message of one chunk opens the message and delivers nothing: completeness
  is not looked at when a message is opened.
\<close>

theorem single_chunk_withheld:
  assumes "length x = 8" "payload \<noteq> []" "map_of m x = None"
  shows "\<exists>c. GelfChunk (chunk_datagram x 1 0 payload) src = Inr c
    \<and> snd (chunk_accept name now m c) = None
    \<and> map_of (fst (chunk_accept name now m c)) x
        = Some \<lparr>cm_chunks = [(0, c)], cm_size = 1, cm_time = now\<rparr>"
  using assms by (simp add: GelfChunk_datagram size_of_char_small chunk_accept_def Let_def update_conv')

lemma single_chunk_withheld_witness:
  "\<exists>c. GelfChunk (chunk_datagram ''ABCDEFGH'' 1 0 ''x'') (9 :: nat) = Inr c
    \<and> snd (chunk_accept ''in'' 5 [] c) = None
    \<and> map_of (fst (chunk_accept ''in'' 5 [] c)) ''ABCDEFGH''
        = Some \<lparr>cm_chunks = [(0, c)], cm_size = 1, cm_time = 5\<rparr>"
  by (rule single_chunk_withheld) simp_all

end
