(* ===== verification/IQ_Net_Inputs.thy ===== *)
theory IQ_Net_Inputs
  imports IQ_Config IQ_Gelf_Chunk
begin

text \<open>
  The network inputs: the TCP servers of the GELF and JSON inputs, which cut the stream of a
  connection at NUL bytes (src/inputs/gelf/tcp/Server.h, src/inputs/json/tcp/Server.h), the UDP
  server of the JSON input (src/inputs/json/udp), the constructors of the inputs, and the threads
  that run the handlers (src/inputs/IOInput.h). Of boost::asio the model has what
  \<open>async_read_until\<close> documents: the handler runs once the buffer holds the delimiter, with the
  number of bytes up to and including the first one.
\<close>

subsection \<open>A connection\<close>

datatype asio_error = NoError | Eof | OtherError

datatype conn_next = ReadAgain | Closed | Abandoned

text \<open>
  \<open>remote_endpoint()\<close> throws when the socket is no longer connected; it is called outside the
  logging macros when the record is made, and the handler there takes GELF exceptions only.
\<close>

definition gelf_tcp_process :: "('q, (string, 'ep) in_record) cq_lib \<Rightarrow> (string, 'ep) in_record other_act list list
    \<Rightarrow> string \<Rightarrow> 'ep option \<Rightarrow> 'q message_queue \<Rightarrow> string \<Rightarrow> nat \<Rightarrow> 'q message_queue outcome option" where
  "gelf_tcp_process L env m_name endpoint mq m_buffer bytes_transferred =
     (let buff = take (bytes_transferred - 1) m_buffer
      in case endpoint of
           None \<Rightarrow> Some (if catches GelfException SystemError then Inr mq else Inl SystemError)
         | Some e \<Rightarrow>
             (case mq_enqueue L env mq (Record m_name buff e) of
                None \<Rightarrow> None
              | Some (mq', ok, t, p) \<Rightarrow> Some (Inr mq')))"

definition json_tcp_process :: "('q, (string, 'ep) in_record) cq_lib \<Rightarrow> (string, 'ep) in_record other_act list list
    \<Rightarrow> string \<Rightarrow> 'ep option \<Rightarrow> 'q message_queue \<Rightarrow> string \<Rightarrow> nat \<Rightarrow> 'q message_queue outcome option" where
  "json_tcp_process L env m_name endpoint mq m_buffer bytes_transferred =
     (let buff = take (bytes_transferred - 1) m_buffer
      in case endpoint of
           None \<Rightarrow> Some (if catches JsonException SystemError then Inr mq else Inl SystemError)
         | Some e \<Rightarrow>
             (case mq_enqueue L env mq (Record m_name buff e) of
                None \<Rightarrow> None
              | Some (mq', ok, t, p) \<Rightarrow> Some (Inr mq')))"

text \<open>
  What a read does after the data: it reads again, closes at the end of the stream, or gives up.
  The buffer is consumed after the record was made.
\<close>

definition gelf_handle_read :: "('q, (string, 'ep) in_record) cq_lib \<Rightarrow> (string, 'ep) in_record other_act list list
    \<Rightarrow> string \<Rightarrow> 'ep option \<Rightarrow> string \<times> 'q message_queue \<Rightarrow> asio_error \<Rightarrow> nat
    \<Rightarrow> ((string \<times> 'q message_queue) \<times> conn_next) outcome option" where
  "gelf_handle_read L env m_name endpoint c err bytes_transferred =
     (case c of (m_buffer, mq) \<Rightarrow>
        (let next = (case err of NoError \<Rightarrow> ReadAgain | Eof \<Rightarrow> Closed | OtherError \<Rightarrow> Abandoned)
         in if 0 < bytes_transferred then
              (case gelf_tcp_process L env m_name endpoint mq m_buffer bytes_transferred of
                 None \<Rightarrow> None
               | Some (Inl e) \<Rightarrow> Some (Inl e)
               | Some (Inr mq') \<Rightarrow> Some (Inr ((drop bytes_transferred m_buffer, mq'), next)))
            else Some (Inr ((m_buffer, mq), next))))"

definition json_handle_read :: "('q, (string, 'ep) in_record) cq_lib \<Rightarrow> (string, 'ep) in_record other_act list list
    \<Rightarrow> string \<Rightarrow> 'ep option \<Rightarrow> string \<times> 'q message_queue \<Rightarrow> asio_error \<Rightarrow> nat
    \<Rightarrow> ((string \<times> 'q message_queue) \<times> conn_next) outcome option" where
  "json_handle_read L env m_name endpoint c err bytes_transferred =
     (case c of (m_buffer, mq) \<Rightarrow>
        (let next = (case err of NoError \<Rightarrow> ReadAgain | Eof \<Rightarrow> Closed | OtherError \<Rightarrow> Abandoned)
         in if 0 < bytes_transferred then
              (case json_tcp_process L env m_name endpoint mq m_buffer bytes_transferred of
                 None \<Rightarrow> None
               | Some (Inl e) \<Rightarrow> Some (Inl e)
               | Some (Inr mq') \<Rightarrow> Some (Inr ((drop bytes_transferred m_buffer, mq'), next)))
            else Some (Inr ((m_buffer, mq), next))))"

lemma json_tcp_process_same: "json_tcp_process = gelf_tcp_process"
  by (intro ext) (simp add: json_tcp_process_def gelf_tcp_process_def Let_def)

lemma json_handle_read_same: "json_handle_read = gelf_handle_read"
  by (intro ext) (simp only: json_handle_read_def gelf_handle_read_def json_tcp_process_same)

text \<open>When a pending read completes, and with how many bytes.\<close>

definition read_until_len :: "string \<Rightarrow> nat option" where
  "read_until_len b =
     (if CHR 0x00 \<in> set b then Some (Suc (length (takeWhile (\<lambda>c. c \<noteq> CHR 0x00) b))) else None)"

definition nul_free :: "string \<Rightarrow> bool" where
  "nul_free s \<longleftrightarrow> CHR 0x00 \<notin> set s"

lemma read_until_len_frame: "nul_free f \<Longrightarrow> read_until_len (f @ CHR 0x00 # s) = Some (Suc (length f))"
  by (auto simp: nul_free_def read_until_len_def takeWhile_append)

lemma nul_cases:
  obtains "nul_free s" | f r where "s = f @ CHR 0x00 # r" "nul_free f"
  by (metis nul_free_def split_list_first)

lemma read_until_len_Some:
  "read_until_len b = Some n \<Longrightarrow> 0 < n \<and> n \<le> length b"
proof (cases b rule: nul_cases)
  assume "read_until_len b = Some n" "nul_free b"
  then show ?thesis by (simp add: nul_free_def read_until_len_def)
next
  fix f r
  assume "read_until_len b = Some n" "b = f @ CHR 0x00 # r" "nul_free f"
  then show ?thesis by (simp add: read_until_len_frame)
qed

text \<open>
  The reads that complete on what the buffer holds. \<open>envs\<close> gives the other threads' actions for
  the \<open>k\<close>-th enqueue; the result counts the enqueues.
\<close>

function tcp_reads :: "('q, (string, 'ep) in_record) cq_lib \<Rightarrow> (nat \<Rightarrow> (string, 'ep) in_record other_act list list)
    \<Rightarrow> string \<Rightarrow> 'ep option \<Rightarrow> nat \<Rightarrow> string \<Rightarrow> 'q message_queue
    \<Rightarrow> (nat \<times> string \<times> 'q message_queue) outcome option" where
  "tcp_reads L envs m_name endpoint k m_buffer mq =
     (case read_until_len m_buffer of
        None \<Rightarrow> Some (Inr (k, m_buffer, mq))
      | Some n \<Rightarrow>
          (case gelf_handle_read L (envs k) m_name endpoint (m_buffer, mq) NoError n of
             None \<Rightarrow> None
           | Some (Inl e) \<Rightarrow> Some (Inl e)
           | Some (Inr ((b, mq'), next)) \<Rightarrow> tcp_reads L envs m_name endpoint (Suc k) b mq'))"
  by pat_completeness auto
termination
  by (relation "measure (\<lambda>(L, envs, nm, ep, k, b, mq). length b)")
     (auto simp: gelf_handle_read_def Let_def split: if_splits option.splits sum.splits
        dest!: read_until_len_Some)

declare tcp_reads.simps [simp del]

text \<open>What arrives on the socket of a connection, and the connection's course.\<close>

datatype sock_event = Arrived string | Ended asio_error

fun tcp_connection :: "('q, (string, 'ep) in_record) cq_lib \<Rightarrow> (nat \<Rightarrow> (string, 'ep) in_record other_act list list)
    \<Rightarrow> string \<Rightarrow> 'ep option \<Rightarrow> nat \<Rightarrow> string \<Rightarrow> 'q message_queue \<Rightarrow> sock_event list
    \<Rightarrow> (nat \<times> string \<times> 'q message_queue) outcome option" where
  "tcp_connection L envs m_name endpoint k b mq [] = Some (Inr (k, b, mq))"
| "tcp_connection L envs m_name endpoint k b mq (Arrived d # es) =
     (case tcp_reads L envs m_name endpoint k (b @ d) mq of
        None \<Rightarrow> None
      | Some (Inl e) \<Rightarrow> Some (Inl e)
      | Some (Inr (k', b', mq')) \<Rightarrow> tcp_connection L envs m_name endpoint k' b' mq' es)"
| "tcp_connection L envs m_name endpoint k b mq (Ended err # es) =
     (case gelf_handle_read L (envs k) m_name endpoint (b, mq) err 0 of
        None \<Rightarrow> None
      | Some (Inl e) \<Rightarrow> Some (Inl e)
      | Some (Inr ((b', mq'), next)) \<Rightarrow> Some (Inr (k, b', mq')))"

text \<open>The acceptor: a connection without error is started, and the next accept always follows.\<close>

definition handle_accept :: "bool \<Rightarrow> 'c \<Rightarrow> 'c list \<Rightarrow> 'c list \<times> bool" where
  "handle_accept err new_connection started = (if \<not> err then started @ [new_connection] else started, True)"

subsection \<open>JSON datagrams\<close>

definition json_udp_process :: "('q, (string, 'ep) in_record) cq_lib \<Rightarrow> (string, 'ep) in_record other_act list list
    \<Rightarrow> string \<Rightarrow> 'q message_queue \<Rightarrow> string \<Rightarrow> nat \<Rightarrow> 'ep \<Rightarrow> 'q message_queue option" where
  "json_udp_process L env m_name mq m_buffer bytes_transferred m_remote_endpoint =
     (let buff = take (min (length m_buffer) bytes_transferred) m_buffer
      in case mq_enqueue L env mq (Record m_name buff m_remote_endpoint) of
           None \<Rightarrow> None | Some (mq', ok, t, p) \<Rightarrow> Some mq')"

definition json_udp_handle_receive :: "('q, (string, 'ep) in_record) cq_lib
    \<Rightarrow> (string, 'ep) in_record other_act list list \<Rightarrow> string \<Rightarrow> 'q message_queue \<Rightarrow> 'ep udp_receive
    \<Rightarrow> 'q message_queue option" where
  "json_udp_handle_receive L env m_name mq r =
     (if \<not> rc_error r \<and> 0 < rc_bytes r
      then json_udp_process L env m_name mq (rc_buffer r) (rc_bytes r) (rc_endpoint r)
      else Some mq)"

subsection \<open>Constructors\<close>

definition port_of :: "'d json_lib \<Rightarrow> 'd source_config \<Rightarrow> 16 word outcome" where
  "port_of L c =
     (case getParam (jl_get_ushort L) (sc_params c) ''port'' of
        Some port \<Rightarrow> Inr port | None \<Rightarrow> Inl IqException)"

text \<open>The GELF input over UDP: the life time of chunked messages in seconds and the port.\<close>

definition GelfInput_udp :: "'d json_lib \<Rightarrow> 'd source_config \<Rightarrow> (16 word \<times> 16 word) outcome" where
  "GelfInput_udp L c =
     (let m_chunk_ttl = (case getParam (jl_get_ushort L) (sc_params c) ''chunked_timeout'' of Some t \<Rightarrow> t | None \<Rightarrow> 5)
      in and_then (port_of L c) (\<lambda>m_port. Inr (m_chunk_ttl, m_port)))"

definition GelfInput_tcp :: "'d json_lib \<Rightarrow> 'd source_config \<Rightarrow> 16 word outcome" where
  "GelfInput_tcp L c = port_of L c"

definition JsonInput_udp :: "'d json_lib \<Rightarrow> 'd source_config \<Rightarrow> 16 word outcome" where
  "JsonInput_udp L c = port_of L c"

definition JsonInput_tcp :: "'d json_lib \<Rightarrow> 'd source_config \<Rightarrow> 16 word outcome" where
  "JsonInput_tcp L c = port_of L c"

datatype net_input = GelfUdp "16 word" "16 word" | GelfTcp "16 word" | JsonUdp "16 word" | JsonTcp "16 word"

definition instantiate_gelf :: "'d json_lib \<Rightarrow> 'd source_config \<Rightarrow> net_input outcome" where
  "instantiate_gelf L c =
     (case getParam protocol_from_json (sc_params c) ''protocol'' of
        Some PR_UDP \<Rightarrow> and_then (GelfInput_udp L c) (\<lambda>(ttl, port). Inr (GelfUdp ttl port))
      | Some PR_TCP \<Rightarrow> and_then (GelfInput_tcp L c) (\<lambda>port. Inr (GelfTcp port))
      | Some PR_UNDEFINED \<Rightarrow> Inl IqException
      | None \<Rightarrow> Inl IqException)"

definition instantiate_json :: "'d json_lib \<Rightarrow> 'd source_config \<Rightarrow> net_input outcome" where
  "instantiate_json L c =
     (case getParam protocol_from_json (sc_params c) ''protocol'' of
        Some PR_UDP \<Rightarrow> and_then (JsonInput_udp L c) (\<lambda>port. Inr (JsonUdp port))
      | Some PR_TCP \<Rightarrow> and_then (JsonInput_tcp L c) (\<lambda>port. Inr (JsonTcp port))
      | Some PR_UNDEFINED \<Rightarrow> Inl IqException
      | None \<Rightarrow> Inl IqException)"

subsection \<open>The threads of an input\<close>

text \<open>
  Every thread of an input runs handlers until one throws a standard exception, which it logs and
  ends with. A handler runs when a thread is left; \<open>handlers\<close> are the outcomes of the handlers in
  the order they are due. The result is how many threads are left and how many handlers ran.
\<close>

fun io_threads :: "nat \<Rightarrow> ('s \<Rightarrow> 's outcome) list \<Rightarrow> 's \<Rightarrow> nat \<times> 's" where
  "io_threads n [] s = (n, s)"
| "io_threads 0 hs s = (0, s)"
| "io_threads (Suc n) (h # hs) s =
     (case h s of
        Inr s' \<Rightarrow> io_threads (Suc n) hs s'
      | Inl e \<Rightarrow> if catches StdException e then io_threads n hs s else (0, s))"

subsection \<open>Cutting a stream at NUL bytes\<close>

function split_nul :: "string \<Rightarrow> string \<times> string list" where
  "split_nul s =
     (case read_until_len s of
        None \<Rightarrow> (s, [])
      | Some n \<Rightarrow> (case split_nul (drop n s) of (r, fs) \<Rightarrow> (r, take (n - 1) s # fs)))"
  by pat_completeness auto
termination
  by (relation "measure length") (auto dest!: read_until_len_Some)

declare split_nul.simps [simp del]

lemma split_nul_free: "nul_free s \<Longrightarrow> split_nul s = (s, [])"
  by (subst split_nul.simps) (simp add: nul_free_def read_until_len_def)

lemma split_nul_frame:
  assumes "nul_free f"
  shows "split_nul (f @ CHR 0x00 # s) = (case split_nul s of (r, fs) \<Rightarrow> (r, f # fs))"
  by (subst split_nul.simps) (simp add: read_until_len_frame [OF assms])

lemma split_nul_rest: "nul_free (fst (split_nul s))"
proof (induction s rule: split_nul.induct)
  case (1 s)
  then show ?case
    by (cases s rule: nul_cases)
       (auto simp: split_nul_free split_nul_frame read_until_len_frame split: prod.splits)
qed

lemma split_nul_append:
  "split_nul (s @ t) = (case split_nul s of (r, fs) \<Rightarrow> case split_nul (r @ t) of (r', gs) \<Rightarrow> (r', fs @ gs))"
proof (induction s rule: split_nul.induct)
  case (1 s)
  show ?case
  proof (cases s rule: nul_cases)
    case 1
    then show ?thesis by (simp add: split_nul_free split: prod.splits)
  next
    case (2 f r)
    have "read_until_len s = Some (Suc (length f))" using 2 by (simp add: read_until_len_frame)
    from "1.IH" [OF this] 2 show ?thesis
      by (simp add: split_nul_frame split: prod.splits)
  qed
qed

text \<open>The reader of a connection as a stream reader: its state is the unfinished frame.\<close>

definition nul_feed :: "string \<Rightarrow> string \<Rightarrow> string \<times> string list" where
  "nul_feed b d = split_nul (b @ d)"

interpretation nul: stream_reader nul_feed nul_free
proof
  fix s x y
  assume "nul_free s"
  then show "nul_feed s [] = (s, [])" by (simp add: nul_feed_def split_nul_free)
  show "nul_feed s (x @ y) = (let (s1, o1) = nul_feed s x; (s2, o2) = nul_feed s1 y in (s2, o1 @ o2))"
    using split_nul_append [of "s @ x" y] by (simp add: nul_feed_def split: prod.splits)
  show "nul_free (fst (nul_feed s x))" by (simp add: nul_feed_def split_nul_rest)
qed

text \<open>Every frame is NUL-free, and the frames with their delimiters and the rest are the stream.\<close>

lemma split_nul_inverse:
  "split_nul s = (r, fs) \<Longrightarrow> concat (map (\<lambda>f. f @ [CHR 0x00]) fs) @ r = s \<and> list_all nul_free (r # fs)"
proof (induction s arbitrary: r fs rule: split_nul.induct)
  case (1 s)
  show ?case
  proof (cases s rule: nul_cases)
    case 1
    with "1.prems" show ?thesis by (simp add: split_nul_free)
  next
    case (2 f t)
    obtain r' fs' where t: "split_nul t = (r', fs')" by fastforce
    have "read_until_len s = Some (Suc (length f))" using 2 by (simp add: read_until_len_frame)
    from "1.IH" [OF this] "1.prems" 2 t show ?thesis
      by (auto simp: split_nul_frame)
  qed
qed

text \<open>Enqueuing one record per frame.\<close>

fun enqueue_frames :: "('q, (string, 'ep) in_record) cq_lib \<Rightarrow> (nat \<Rightarrow> (string, 'ep) in_record other_act list list)
    \<Rightarrow> string \<Rightarrow> 'ep \<Rightarrow> nat \<Rightarrow> string list \<Rightarrow> 'q message_queue \<Rightarrow> (nat \<times> 'q message_queue) option" where
  "enqueue_frames L envs m_name e k [] mq = Some (k, mq)"
| "enqueue_frames L envs m_name e k (f # fs) mq =
     (case mq_enqueue L (envs k) mq (Record m_name f e) of
        None \<Rightarrow> None
      | Some (mq', ok, t, p) \<Rightarrow> enqueue_frames L envs m_name e (Suc k) fs mq')"

lemma enqueue_frames_append:
  "enqueue_frames L envs nm e k (fs @ gs) mq =
     (case enqueue_frames L envs nm e k fs mq of
        None \<Rightarrow> None | Some (k', mq') \<Rightarrow> enqueue_frames L envs nm e k' gs mq')"
  by (induction fs arbitrary: k mq) (auto split: option.splits)

definition with_rest :: "string \<Rightarrow> (nat \<times> 'q) option \<Rightarrow> (nat \<times> string \<times> 'q) outcome option" where
  "with_rest r x = map_option (\<lambda>(k, mq). Inr (k, r, mq)) x"

lemma tcp_reads_frames:
  "tcp_reads L envs nm (Some e) k b mq =
     (case split_nul b of (r, fs) \<Rightarrow> with_rest r (enqueue_frames L envs nm e k fs mq))"
proof (induction b arbitrary: k mq rule: split_nul.induct)
  case (1 b)
  show ?case
  proof (cases b rule: nul_cases)
    case 1
    then show ?thesis
      by (subst tcp_reads.simps)
         (simp add: split_nul_free nul_free_def read_until_len_def with_rest_def)
  next
    case (2 f t)
    have "gelf_handle_read L (envs k) nm (Some e) (b, mq) NoError (Suc (length f)) =
        (case mq_enqueue L (envs k) mq (Record nm f e) of
           None \<Rightarrow> None | Some (mq', ok, t', p) \<Rightarrow> Some (Inr ((t, mq'), ReadAgain)))"
      by (simp add: gelf_handle_read_def gelf_tcp_process_def 2(1) split: option.splits prod.splits)
    moreover have r: "read_until_len b = Some (Suc (length f))"
      using read_until_len_frame [OF 2(2), of t] 2(1) by simp
    ultimately show ?thesis
      using "1.IH" [OF r] 2
      by (subst tcp_reads.simps)
         (auto simp: split_nul_frame with_rest_def split: option.splits prod.splits)
  qed
qed

lemma tcp_connection_frames:
  "nul_free b \<Longrightarrow>
   tcp_connection L envs nm (Some e) k b mq (map Arrived ds) =
     (case feed_all nul_feed b ds of (r, fs) \<Rightarrow> with_rest r (enqueue_frames L envs nm e k fs mq))"
proof (induction ds arbitrary: b k mq)
  case Nil
  then show ?case by (simp add: with_rest_def)
next
  case (Cons d ds)
  obtain r fs where s: "split_nul (b @ d) = (r, fs)" by fastforce
  then have "nul_free r" using split_nul_rest [of "b @ d"] by simp
  obtain r' gs where g: "feed_all nul_feed r ds = (r', gs)" by fastforce
  with Cons.IH [OF \<open>nul_free r\<close>] s show ?case
    by (auto simp: tcp_reads_frames nul_feed_def [of b d] enqueue_frames_append with_rest_def
        split: option.splits)
qed

subsection \<open>Properties\<close>

text \<open>
  C6: A TCP connection of a GELF input whose peer stays connected enqueues, in order, exactly one
  record for every NUL-terminated piece of its stream, however the stream is cut into reads: the
  frames and their terminators, with the unfinished rest that stays in the buffer, make up the
  stream, and no frame holds a NUL.
\<close>

theorem tcp_framing:
  "\<exists>r fs. tcp_connection L envs nm (Some e) k [] mq (map Arrived ds)
      = with_rest r (enqueue_frames L envs nm e k fs mq)
    \<and> concat (map (\<lambda>f. f @ [CHR 0x00]) fs) @ r = concat ds \<and> list_all nul_free (r # fs)"
proof -
  have e: "nul_free []" by (simp add: nul_free_def)
  obtain r fs where s: "split_nul (concat ds) = (r, fs)" by fastforce
  then have "feed_all nul_feed [] ds = (r, fs)"
    using nul.feed_pieces [OF e, of ds] by (simp add: nul_feed_def)
  with tcp_connection_frames [OF e, of L envs nm e k mq ds] split_nul_inverse [OF s] show ?thesis
    by auto
qed

text \<open>
  What a reset does: when the peer is gone before its frame is handled, the handler throws, and
  \<open>n\<close> such connections end all the threads of the input.
\<close>

definition reset_frame :: "('q, (string, 'ep) in_record) cq_lib \<Rightarrow> string \<Rightarrow> string \<Rightarrow> 'q message_queue
    \<Rightarrow> 'q message_queue outcome" where
  "reset_frame L nm f mq =
     (case tcp_connection L (\<lambda>_. []) nm None 0 [] mq [Arrived (f @ [CHR 0x00])] of
        Some (Inr (_, _, mq')) \<Rightarrow> Inr mq' | Some (Inl e) \<Rightarrow> Inl e | None \<Rightarrow> Inr mq)"

lemma reset_frame_throws: "nul_free f \<Longrightarrow> reset_frame L nm f mq = Inl SystemError"
  by (subst reset_frame_def)
     (simp add: tcp_reads.simps [of L "\<lambda>_. []" nm None 0 "f @ [CHR 0x00]" mq]
        read_until_len_frame gelf_handle_read_def gelf_tcp_process_def)

lemma io_threads_all_throw:
  "(\<And>h. h \<in> set hs \<Longrightarrow> \<exists>e. \<forall>s. h s = Inl e) \<Longrightarrow> length hs = n \<Longrightarrow> io_threads n (hs @ gs) s = io_threads 0 gs s"
proof (induction hs arbitrary: n)
  case (Cons h hs)
  then obtain e where "\<forall>s. h s = Inl e" by (meson list.set_intros(1))
  with Cons show ?case by auto
qed simp

text \<open>
  As many connections as the input has threads, each reset by its peer after one complete frame,
  end every thread of the input: no handler that is due afterwards runs, and the queue stays as
  it is.
\<close>

theorem reset_connections_stop_input:
  assumes "list_all nul_free fs" "length fs = n"
  shows "io_threads n (map (reset_frame L nm) fs @ later) mq = (0, mq)"
proof -
  have "io_threads 0 later mq = (0, mq)" by (cases later) simp_all
  moreover have "\<exists>e. \<forall>s. h s = Inl e" if "h \<in> set (map (reset_frame L nm) fs)" for h
    using that assms(1) by (auto simp: reset_frame_throws list_all_iff)
  ultimately show ?thesis
    using io_threads_all_throw [of "map (reset_frame L nm) fs" n later mq] assms(2) by simp
qed

lemma reset_connections_stop_input_witness:
  "io_threads 1 (map (reset_frame list_cq ''in'') [''{}''] @ [\<lambda>mq. Inr (mq\<lparr>m_dropped := 5\<rparr>)])
      (MessageQueue ''q'' 3 OV_DROP ([] :: (string, nat) in_record list))
    = (0, MessageQueue ''q'' 3 OV_DROP [])"
  by (rule reset_connections_stop_input) (simp_all add: nul_free_def)

end
