(* ===== verification/IQ_Input.thy ===== *)
theory IQ_Input
  imports IQ_Net_Inputs
begin

text \<open>
  The import stage: what a record of each input becomes (src/inputs/Record.h), the import of a
  bulk of records by an input into the main queue or the processor queue (src/inputs/Input.h,
  src/inputs/InputInterface.h), the loop of the input server over all inputs
  (src/InputServer.cpp), and the dummy input (src/inputs/dummy).
\<close>

subsection \<open>Records become messages\<close>

datatype ('d, 'ep) any_record =
    GelfRecord "(string, 'ep) in_record" | JsonRecord "(string, 'ep) in_record"
  | TailRecord "(string, tail_source) in_record" | JournalRecord "'d journal_message"
  | DummyRecord string string

record 'd export_env =
  ee_dbl :: "'d dbl_ops"
  ee_json :: "'d json_lib"
  ee_gunzip :: "string \<Rightarrow> string option"
  ee_inflate :: "string \<Rightarrow> string option"
  ee_now :: 'd

text \<open>
  A journal record is its message; a dummy record has no source; the others construct a message
  from input name, data and source. A dummy or tail message cannot be refused.
\<close>

definition record_exportMessage :: "'d export_env \<Rightarrow> ('d, 'ep) any_record \<Rightarrow> ('d, 'ep) message outcome" where
  "record_exportMessage X r =
     (case r of
        JournalRecord m \<Rightarrow> Inr (MJournal m)
      | DummyRecord input data \<Rightarrow> Inr (MDummy (DummyMessage input data))
      | TailRecord q \<Rightarrow> Inr (MTail (TailMessage (m_input q) (m_data q) (m_source q)))
      | JsonRecord q \<Rightarrow>
          and_then (JsonMessage (ee_json X) (m_input q) (m_data q) (m_source q)) (\<lambda>m. Inr (MJson m))
      | GelfRecord q \<Rightarrow>
          and_then (GelfMessage (ee_dbl X) (ee_json X) (ee_gunzip X) (ee_inflate X) (ee_now X)
             (m_input q) (m_data q) (m_source q)) (\<lambda>m. Inr (MGelf m)))"

subsection \<open>Importing a bulk\<close>

text \<open>
  Records whose construction throws one of the program's exceptions are skipped; any other
  exception leaves the import.
\<close>

fun export_bulk :: "('r \<Rightarrow> 'm outcome) \<Rightarrow> 'r list \<Rightarrow> 'm list outcome" where
  "export_bulk ex [] = Inr []"
| "export_bulk ex (r # rs) =
     (case ex r of
        Inr m \<Rightarrow> and_then (export_bulk ex rs) (\<lambda>ms. Inr (m # ms))
      | Inl e \<Rightarrow> if catches IqException e then export_bulk ex rs else Inl e)"

record 'i input =
  in_name :: string
  in_queue :: "'i message_queue"
  in_receive_counter :: "64 word"
  in_processor :: "16 word option"

definition Input :: "string \<Rightarrow> 'd source_config \<Rightarrow> 'i \<Rightarrow> 16 word option \<Rightarrow> 'i input" where
  "Input name c q0 script =
     \<lparr>in_name = name,
      in_queue = MessageQueue (''inputs.'' @ name @ ''.queue'') (unat (sc_max_queue_size c)) (sc_overflow_strategy c) q0,
      in_receive_counter = 0, in_processor = script\<rparr>"

definition hasProcessor :: "'i input \<Rightarrow> bool" where
  "hasProcessor i = (in_processor i \<noteq> None)"

text \<open>The queues an import can reach: the processor's and the main one.\<close>

record ('p, 'q) shared_queues =
  sq_processor :: "'p message_queue"
  sq_main :: "'q message_queue"

record ('r, 'i, 'm, 'p, 'q) queue_libs =
  ql_input :: "('i, 'r) cq_lib"
  ql_processor :: "('p, 'm \<times> 16 word) cq_lib"
  ql_main :: "('q, 'm) cq_lib"

record ('m) import_env =
  ie_processor :: "('m \<times> 16 word) other_act list list"
  ie_main :: "'m other_act list list"

text \<open>With a script the messages go to the processor; without one there is nothing to hand them to.\<close>

definition input_process :: "('r, 'i, 'm, 'p, 'q) queue_libs \<Rightarrow> 'm import_env \<Rightarrow> 16 word option \<Rightarrow> 'm list
    \<Rightarrow> ('p, 'q) shared_queues \<Rightarrow> (('p, 'q) shared_queues \<times> bool) option" where
  "input_process Q env script ms sq =
     (case script of
        Some i \<Rightarrow>
          (case process_bulk (ql_processor Q) (ie_processor env) ms i (sq_processor sq) of
             None \<Rightarrow> None
           | Some (pq, ok, t, p) \<Rightarrow> Some (sq\<lparr>sq_processor := pq\<rparr>, ok))
      | None \<Rightarrow> Some (sq, False))"

declare input_process_def [simp]

definition send_messages :: "('r, 'i, 'm, 'p, 'q) queue_libs \<Rightarrow> 'm import_env \<Rightarrow> 16 word option \<Rightarrow> 'm list
    \<Rightarrow> ('p, 'q) shared_queues \<Rightarrow> (('p, 'q) shared_queues \<times> bool) option" where
  "send_messages Q env script ms sq =
     (case script of
        Some i \<Rightarrow> input_process Q env script ms sq
      | None \<Rightarrow>
          (case mq_enqueue_bulk (ql_main Q) (ie_main env) (sq_main sq) ms of
             None \<Rightarrow> None
           | Some (mq, ok, t, p) \<Rightarrow> Some (sq\<lparr>sq_main := mq\<rparr>, ok)))"

definition importMessages :: "('r, 'i, 'm, 'p, 'q) queue_libs \<Rightarrow> ('r \<Rightarrow> 'm outcome) \<Rightarrow> 'm import_env
    \<Rightarrow> 'i input \<Rightarrow> ('p, 'q) shared_queues \<Rightarrow> (('i input \<times> ('p, 'q) shared_queues \<times> nat) outcome) option" where
  "importMessages Q ex env inp sq =
     (let (iq, records) = mq_try_dequeue_bulk (ql_input Q) (in_queue inp) max_queue_bulk_size;
          inp1 = inp\<lparr>in_queue := iq\<rparr>
      in case export_bulk ex records of
           Inl e \<Rightarrow> Some (Inl e)
         | Inr messages \<Rightarrow>
             (if messages = [] then Some (Inr (inp1, sq, 0))
              else
                (let inp2 = inp1\<lparr>in_receive_counter := in_receive_counter inp1 + of_nat (length messages)\<rparr>
                 in case send_messages Q env (in_processor inp) messages sq of
                      None \<Rightarrow> None
                    | Some (sq', ok) \<Rightarrow> Some (Inr (inp2, sq', length messages)))))"

text \<open>
  One turn of a thread of the input server: every input imports once, in order; the counters are
  added up. Nothing in the thread catches an exception. \<open>envs\<close> has one environment per input.
\<close>

fun import_all :: "('r, 'i, 'm, 'p, 'q) queue_libs \<Rightarrow> ('r \<Rightarrow> 'm outcome) \<Rightarrow> (nat \<Rightarrow> 'm import_env)
    \<Rightarrow> 'i input list \<Rightarrow> ('p, 'q) shared_queues \<Rightarrow> nat
    \<Rightarrow> (('i input list \<times> ('p, 'q) shared_queues \<times> nat) outcome) option" where
  "import_all Q ex envs [] sq counter = Some (Inr ([], sq, counter))"
| "import_all Q ex envs (i # is) sq counter =
     (case importMessages Q ex (envs 0) i sq of
        None \<Rightarrow> None
      | Some (Inl e) \<Rightarrow> Some (Inl e)
      | Some (Inr (i', sq', k)) \<Rightarrow>
          (case import_all Q ex (\<lambda>n. envs (Suc n)) is sq' (counter + k) of
             None \<Rightarrow> None
           | Some (Inl e) \<Rightarrow> Some (Inl e)
           | Some (Inr (is', sq'', c)) \<Rightarrow> Some (Inr (i' # is', sq'', c))))"

record ('i, 'p, 'q) input_server =
  is_inputs :: "'i input list"
  is_queues :: "('p, 'q) shared_queues"
  is_receive_counter :: "64 word"

definition input_server_turn :: "('r, 'i, 'm, 'p, 'q) queue_libs \<Rightarrow> ('r \<Rightarrow> 'm outcome) \<Rightarrow> (nat \<Rightarrow> 'm import_env)
    \<Rightarrow> ('i, 'p, 'q) input_server \<Rightarrow> (('i, 'p, 'q) input_server outcome) option" where
  "input_server_turn Q ex envs s =
     (case import_all Q ex envs (is_inputs s) (is_queues s) 0 of
        None \<Rightarrow> None
      | Some (Inl e) \<Rightarrow> Some (Inl e)
      | Some (Inr (is', sq, counter)) \<Rightarrow>
          Some (Inr (s\<lparr>is_inputs := is', is_queues := sq,
                       is_receive_counter := is_receive_counter s + of_nat counter\<rparr>)))"

subsection \<open>The dummy input\<close>

text \<open>
  \<open>get_short\<close> and \<open>interval_ms\<close> are the conversions of the two numeric parameters. A negative
  length makes the string constructor throw.
\<close>

record dummy_input =
  di_text :: string
  di_interval :: int

definition DummyInput :: "'d json_lib \<Rightarrow> ('d json \<Rightarrow> int outcome) \<Rightarrow> ('d json \<Rightarrow> int outcome)
    \<Rightarrow> 'd source_config \<Rightarrow> dummy_input outcome" where
  "DummyInput L get_short interval_ms c =
     and_then
       (case getParam (jl_get_string L) (sc_params c) ''dummy_text'' of
          Some text \<Rightarrow> Inr text
        | None \<Rightarrow>
            (let n = (case getParam get_short (sc_params c) ''dummy_length'' of Some n \<Rightarrow> n | None \<Rightarrow> 1024)
             in if n < 0 then Inl LogicError else Inr (''Dummy message: '' @ replicate (nat n) (CHR ''A''))))
       (\<lambda>text. Inr \<lparr>di_text = text,
          di_interval = (case getParam interval_ms (sc_params c) ''interval'' of Some i \<Rightarrow> i | None \<Rightarrow> 1000)\<rparr>)"

definition dummy_turn :: "('i, ('d, 'ep) any_record) cq_lib \<Rightarrow> ('d, 'ep) any_record other_act list list
    \<Rightarrow> string \<Rightarrow> dummy_input \<Rightarrow> 'i message_queue \<Rightarrow> 'i message_queue option" where
  "dummy_turn L env m_name d q =
     (case mq_enqueue L env q (DummyRecord m_name (di_text d)) of
        None \<Rightarrow> None | Some (q', ok, t, p) \<Rightarrow> Some q')"

subsection \<open>What is exported\<close>

definition exported :: "('r \<Rightarrow> 'm outcome) \<Rightarrow> 'r \<Rightarrow> 'm option" where
  "exported ex r = (case ex r of Inr m \<Rightarrow> Some m | Inl e \<Rightarrow> None)"

lemma export_bulk_Inr:
  "export_bulk ex rs = Inr ms \<Longrightarrow>
   ms = List.map_filter (exported ex) rs \<and> (\<forall>r \<in> set rs. \<forall>e. ex r = Inl e \<longrightarrow> catches IqException e)"
  by (induction rs arbitrary: ms)
     (auto simp: exported_def List.map_filter_simps and_then_Inr_iff split: sum.splits if_splits)

lemma export_bulk_Inl:
  "export_bulk ex rs = Inl e \<Longrightarrow> \<exists>r \<in> set rs. ex r = Inl e \<and> \<not> catches IqException e"
  by (induction rs) (auto simp: and_then_Inl_iff simp del: catches_iff split: sum.splits if_splits)

text \<open>The pair of queues an import joins: the input's and the main queue, or the processor's.\<close>

interpretation stage: queue_pair
    cq_ok mq_held mq_enqueue_bulk mq_try_dequeue_bulk cq_ok mq_held mq_enqueue_bulk mq_try_dequeue_bulk ..

definition paired :: "16 word \<Rightarrow> ('r \<Rightarrow> 'm option) \<Rightarrow> 'r \<Rightarrow> ('m \<times> 16 word) option" where
  "paired i f r = map_option (\<lambda>m. (m, i)) (f r)"

lemma map_filter_paired: "List.map_filter (paired i f) rs = map (\<lambda>m. (m, i)) (List.map_filter f rs)"
  by (induction rs) (auto simp: List.map_filter_simps paired_def split: option.splits)

lemma importMessages_cases:
  assumes "importMessages Q ex env inp sq = Some (Inr (inp', sq', k))"
  obtains records iq where "mq_try_dequeue_bulk (ql_input Q) (in_queue inp) max_queue_bulk_size = (iq, records)"
    "in_queue inp' = iq" "in_processor inp' = in_processor inp" "k = length (List.map_filter (exported ex) records)"
    "in_receive_counter inp' = in_receive_counter inp + of_nat k"
    "List.map_filter (exported ex) records = [] \<and> sq' = sq
     \<or> (\<exists>ok. send_messages Q env (in_processor inp) (List.map_filter (exported ex) records) sq = Some (sq', ok))"
proof -
  obtain iq records where d: "mq_try_dequeue_bulk (ql_input Q) (in_queue inp) max_queue_bulk_size = (iq, records)"
    by fastforce
  with assms obtain ms where ms: "export_bulk ex records = Inr ms"
    by (cases "export_bulk ex records") (auto simp: importMessages_def)
  then have "ms = List.map_filter (exported ex) records" using export_bulk_Inr by blast
  with d ms assms show ?thesis
    by (intro that) (auto simp: importMessages_def Let_def split: if_splits option.splits)
qed

text \<open>The balance of one hand-over, through the interface of the two queues.\<close>

lemma import_main_balance:
  assumes "cq_ok (ql_input Q)" "cq_ok (ql_main Q)" "in_processor inp = None"
    and "importMessages Q ex env inp sq = Some (Inr (inp', sq', k))"
  shows "\<exists>t p lost. mconv (exported ex) (mq_held (ql_input Q) (in_queue inp)) + mq_held (ql_main Q) (sq_main sq) + mset p
      = mconv (exported ex) (mq_held (ql_input Q) (in_queue inp')) + mq_held (ql_main Q) (sq_main sq') + mset t + mset lost
    \<and> sq_processor sq' = sq_processor sq \<and> length lost \<le> k"
  using assms(4)
proof (rule importMessages_cases)
  fix records iq
  assume d: "mq_try_dequeue_bulk (ql_input Q) (in_queue inp) max_queue_bulk_size = (iq, records)" "in_queue inp' = iq"
    and k: "k = length (List.map_filter (exported ex) records)"
    and s: "List.map_filter (exported ex) records = [] \<and> sq' = sq
     \<or> (\<exists>ok. send_messages Q env (in_processor inp) (List.map_filter (exported ex) records) sq = Some (sq', ok))"
  let ?ms = "List.map_filter (exported ex) records"
  from s show ?thesis
  proof
    assume "?ms = [] \<and> sq' = sq"
    moreover have "mq_held (ql_input Q) (in_queue inp) = mq_held (ql_input Q) iq + mset records"
      by (rule mq.pull_law [OF assms(1) d(1)])
    ultimately show ?thesis using d(2)
      by (intro exI [of _ "[]"]) simp
  next
    assume "\<exists>ok. send_messages Q env (in_processor inp) ?ms sq = Some (sq', ok)"
    then obtain ok mq t p where e: "mq_enqueue_bulk (ql_main Q) (ie_main env) (sq_main sq) ?ms = Some (mq, ok, t, p)"
        "sq' = sq\<lparr>sq_main := mq\<rparr>"
      using assms(3) by (auto simp: send_messages_def split: option.splits)
    from stage.hand_over [OF assms(1,2) d(1) e(1)] e(2) d(2) k show ?thesis
      by (intro exI [of _ t] exI [of _ p] exI [of _ "if ok then [] else ?ms"]) simp
  qed
qed

lemma import_processor_balance:
  assumes "cq_ok (ql_input Q)" "cq_ok (ql_processor Q)" "in_processor inp = Some i"
    and "importMessages Q ex env inp sq = Some (Inr (inp', sq', k))"
  shows "\<exists>t p lost. mconv (paired i (exported ex)) (mq_held (ql_input Q) (in_queue inp))
        + mq_held (ql_processor Q) (sq_processor sq) + mset p
      = mconv (paired i (exported ex)) (mq_held (ql_input Q) (in_queue inp'))
        + mq_held (ql_processor Q) (sq_processor sq') + mset t + mset lost
    \<and> sq_main sq' = sq_main sq \<and> length lost \<le> k"
  using assms(4)
proof (rule importMessages_cases)
  fix records iq
  assume d: "mq_try_dequeue_bulk (ql_input Q) (in_queue inp) max_queue_bulk_size = (iq, records)" "in_queue inp' = iq"
    and k: "k = length (List.map_filter (exported ex) records)"
    and s: "List.map_filter (exported ex) records = [] \<and> sq' = sq
     \<or> (\<exists>ok. send_messages Q env (in_processor inp) (List.map_filter (exported ex) records) sq = Some (sq', ok))"
  let ?ms = "List.map_filter (paired i (exported ex)) records"
  from s show ?thesis
  proof
    assume "List.map_filter (exported ex) records = [] \<and> sq' = sq"
    moreover have "mq_held (ql_input Q) (in_queue inp) = mq_held (ql_input Q) iq + mset records"
      by (rule mq.pull_law [OF assms(1) d(1)])
    ultimately show ?thesis using d(2)
      by (intro exI [of _ "[]"]) (simp add: map_filter_paired)
  next
    assume "\<exists>ok. send_messages Q env (in_processor inp) (List.map_filter (exported ex) records) sq = Some (sq', ok)"
    then obtain ok pq t p where e: "mq_enqueue_bulk (ql_processor Q) (ie_processor env) (sq_processor sq) ?ms = Some (pq, ok, t, p)"
        "sq' = sq\<lparr>sq_processor := pq\<rparr>"
      using assms(3) by (auto simp: send_messages_def process_bulk_def map_filter_paired split: option.splits)
    from stage.hand_over [OF assms(1,2) d(1) e(1)] e(2) d(2) k show ?thesis
      by (intro exI [of _ t] exI [of _ p] exI [of _ "if ok then [] else ?ms"]) (simp add: map_filter_paired)
  qed
qed

definition held_by_inputs :: "('r, 'i, 'm, 'p, 'q) queue_libs \<Rightarrow> ('r \<Rightarrow> 'm outcome) \<Rightarrow> 'i input list \<Rightarrow> 'm multiset" where
  "held_by_inputs Q ex is = sum_list (map (\<lambda>i. mconv (exported ex) (mq_held (ql_input Q) (in_queue i))) is)"

lemma import_all_balance:
  assumes "cq_ok (ql_input Q)" "cq_ok (ql_main Q)"
  shows "list_all (\<lambda>i. in_processor i = None) is \<Longrightarrow>
    import_all Q ex envs is sq c = Some (Inr (is', sq', c')) \<Longrightarrow>
    \<exists>t p lost. held_by_inputs Q ex is + mq_held (ql_main Q) (sq_main sq) + mset p
      = held_by_inputs Q ex is' + mq_held (ql_main Q) (sq_main sq') + mset t + mset lost
      \<and> length lost + c \<le> c'"
proof (induction "is" arbitrary: envs sq c is')
  case Nil
  then show ?case by (intro exI [of _ "[]"]) simp
next
  case (Cons i r)
  from Cons.prems(2) obtain i' sq1 k r' where
    1: "importMessages Q ex (envs 0) i sq = Some (Inr (i', sq1, k))"
    and 2: "import_all Q ex (\<lambda>n. envs (Suc n)) r sq1 (c + k) = Some (Inr (r', sq', c'))" "is' = i' # r'"
    by (auto split: option.splits sum.splits)
  obtain t p lost where b1: "mconv (exported ex) (mq_held (ql_input Q) (in_queue i)) + mq_held (ql_main Q) (sq_main sq) + mset p
      = mconv (exported ex) (mq_held (ql_input Q) (in_queue i')) + mq_held (ql_main Q) (sq_main sq1) + mset t + mset lost"
      "length lost \<le> k"
    using import_main_balance [OF assms _ 1] Cons.prems(1) by auto
  obtain t' p' lost' where b2: "held_by_inputs Q ex r + mq_held (ql_main Q) (sq_main sq1) + mset p'
      = held_by_inputs Q ex r' + mq_held (ql_main Q) (sq_main sq') + mset t' + mset lost'"
      "length lost' + (c + k) \<le> c'"
    using Cons.IH [OF _ 2(1)] Cons.prems(1) by auto
  have "held_by_inputs Q ex (i # r) + mq_held (ql_main Q) (sq_main sq) + mset (p @ p')
      = (mconv (exported ex) (mq_held (ql_input Q) (in_queue i)) + mq_held (ql_main Q) (sq_main sq) + mset p)
        + (held_by_inputs Q ex r + mset p')"
    by (simp add: held_by_inputs_def ac_simps)
  also have "\<dots> = mconv (exported ex) (mq_held (ql_input Q) (in_queue i')) + mset t + mset lost
        + (held_by_inputs Q ex r + mq_held (ql_main Q) (sq_main sq1) + mset p')"
    unfolding b1(1) by (simp add: ac_simps)
  also have "\<dots> = held_by_inputs Q ex is' + mq_held (ql_main Q) (sq_main sq') + mset (t @ t') + mset (lost @ lost')"
    unfolding b2(1) 2(2) by (simp add: held_by_inputs_def ac_simps)
  finally show ?case
    using b1(2) b2(2) by (intro exI [of _ "t @ t'"] exI [of _ "p @ p'"] exI [of _ "lost @ lost'"]) simp
qed

subsection \<open>Properties\<close>

text \<open>
  A turn of the input server over inputs without processors conserves the messages: what the
  input queues held in well-formed records, what the main queue held and what others put there
  meanwhile is afterwards in the input queues, in the main queue, taken from it by others, or lost
  to a full main queue; the counter of received messages grows by the number of messages made,
  the lost ones included.
\<close>

theorem input_server_conserves:
  assumes "cq_ok (ql_input Q)" "cq_ok (ql_main Q)"
    and "list_all (\<lambda>i. in_processor i = None) (is_inputs s)"
    and "input_server_turn Q ex envs s = Some (Inr s')"
  shows "\<exists>t p lost c. held_by_inputs Q ex (is_inputs s) + mq_held (ql_main Q) (sq_main (is_queues s)) + mset p
      = held_by_inputs Q ex (is_inputs s') + mq_held (ql_main Q) (sq_main (is_queues s')) + mset t + mset lost
    \<and> is_receive_counter s' = is_receive_counter s + of_nat c \<and> length lost \<le> c"
proof -
  from assms(4) obtain is' sq' c where i: "import_all Q ex envs (is_inputs s) (is_queues s) 0 = Some (Inr (is', sq', c))"
      "s' = s\<lparr>is_inputs := is', is_queues := sq', is_receive_counter := is_receive_counter s + of_nat c\<rparr>"
    by (auto simp: input_server_turn_def split: option.splits sum.splits)
  obtain t p lost where "held_by_inputs Q ex (is_inputs s) + mq_held (ql_main Q) (sq_main (is_queues s)) + mset p
      = held_by_inputs Q ex is' + mq_held (ql_main Q) (sq_main sq') + mset t + mset lost" "length lost \<le> c"
    using import_all_balance [OF assms(1-3) i(1)] by auto
  with i(2) show ?thesis
    by (intro exI [of _ t] exI [of _ p] exI [of _ lost] exI [of _ c]) simp
qed

definition list_libs :: "('r, 'r list, 'm, ('m \<times> 16 word) list, 'm list) queue_libs" where
  "list_libs = \<lparr>ql_input = list_cq, ql_processor = list_cq, ql_main = list_cq\<rparr>"

definition dummy_server :: "((int, nat) any_record list, ((int, nat) message \<times> 16 word) list, (int, nat) message list) input_server" where
  "dummy_server = \<lparr>is_inputs = [\<lparr>in_name = ''d'',
       in_queue = MessageQueue ''inputs.d.queue'' 10 OV_DROP [DummyRecord ''d'' ''hi''],
       in_receive_counter = 0, in_processor = None\<rparr>],
     is_queues = \<lparr>sq_processor = MessageQueue_default ''processor.queue'' [],
       sq_main = MessageQueue_default ''main_queue'' []\<rparr>, is_receive_counter = 0\<rparr>"

definition int_export_env :: "int json \<Rightarrow> int export_env" where
  "int_export_env j = \<lparr>ee_dbl = int_dbl, ee_json = one_doc_lib ''doc'' j, ee_gunzip = \<lambda>_. None,
     ee_inflate = \<lambda>_. None, ee_now = 1600000000\<rparr>"

definition msg_libs :: "((int, nat) any_record, (int, nat) any_record list, (int, nat) message,
    ((int, nat) message \<times> 16 word) list, (int, nat) message list) queue_libs" where
  "msg_libs = list_libs"

lemma input_server_conserves_witness:
  "\<exists>s' t p lost. input_server_turn msg_libs (record_exportMessage (int_export_env JNull))
        (\<lambda>_. \<lparr>ie_processor = [], ie_main = []\<rparr>) dummy_server = Some (Inr s')
     \<and> m_messageQueue (sq_main (is_queues s')) = [MDummy (DummyMessage ''d'' ''hi'')]
     \<and> held_by_inputs msg_libs (record_exportMessage (int_export_env JNull)) (is_inputs dummy_server) + mset p
        = held_by_inputs msg_libs (record_exportMessage (int_export_env JNull)) (is_inputs s')
          + mset (m_messageQueue (sq_main (is_queues s'))) + mset t + mset lost"
proof -
  let ?ex = "record_exportMessage (int_export_env JNull)"
  let ?env = "\<lambda>_ :: nat. \<lparr>ie_processor = [], ie_main = []\<rparr> :: (int, nat) message import_env"
  obtain s' where s': "input_server_turn msg_libs ?ex ?env dummy_server = Some (Inr s')"
      "m_messageQueue (sq_main (is_queues s')) = [MDummy (DummyMessage ''d'' ''hi'')]"
    by (simp add: input_server_turn_def dummy_server_def importMessages_def mq_try_dequeue_bulk_def
        msg_libs_def list_libs_def MessageQueue_def MessageQueue_default_def max_queue_bulk_size_def
        record_exportMessage_def send_messages_def mq_enqueue_bulk_def Let_def)
  have ok: "cq_ok (ql_input msg_libs)" "cq_ok (ql_main msg_libs)"
    by (simp_all add: msg_libs_def list_libs_def list_cq_ok)
  have "list_all (\<lambda>i. in_processor i = None) (is_inputs dummy_server)" by (simp add: dummy_server_def)
  from input_server_conserves [OF ok this s'(1)] obtain t p lost c where
    b: "held_by_inputs msg_libs ?ex (is_inputs dummy_server)
        + mq_held (ql_main msg_libs) (sq_main (is_queues dummy_server)) + mset p
      = held_by_inputs msg_libs ?ex (is_inputs s') + mq_held (ql_main msg_libs) (sq_main (is_queues s')) + mset t + mset lost"
    by (elim exE conjE)
  moreover have "mq_held (ql_main msg_libs) (sq_main (is_queues dummy_server)) = {#}"
    by (simp add: mq_held_def msg_libs_def list_libs_def dummy_server_def MessageQueue_default_def)
  moreover have "mq_held (ql_main msg_libs) (sq_main (is_queues s')) = mset (m_messageQueue (sq_main (is_queues s')))"
    by (simp add: mq_held_def msg_libs_def list_libs_def)
  ultimately show ?thesis using s' by (intro exI [of _ s']) (metis add.right_neutral)
qed

text \<open>
  A record whose construction throws an exception that is not the program's ends the import: the
  exception leaves \<open>importMessages\<close> and with it the thread of the input server, which has no handler;
  the records taken with it are gone. A GELF datagram with a level that is a word does that.
\<close>

theorem import_uncaught:
  assumes "mq_try_dequeue_bulk (ql_input Q) (in_queue inp) max_queue_bulk_size = (iq, records)"
    and "r \<in> set records" "ex r = Inl e" "\<not> catches IqException e"
  shows "\<exists>e'. importMessages Q ex env inp sq = Some (Inl e') \<and> \<not> catches IqException e'"
proof -
  have "\<not> (\<exists>ms. export_bulk ex records = Inr ms)"
    using assms(2-4) export_bulk_Inr [of ex records] by blast
  then obtain e' where e': "export_bulk ex records = Inl e'" by (metis sumE)
  then have "\<not> catches IqException e'" using export_bulk_Inl by blast
  with e' assms(1) show ?thesis by (simp add: importMessages_def)
qed

definition crash_input :: "(int, nat) any_record list input" where
  "crash_input = \<lparr>in_name = ''g'',
     in_queue = MessageQueue ''inputs.g.queue'' 10 OV_DROP [GelfRecord (Record ''g'' ''doc'' 7)],
     in_receive_counter = 0, in_processor = None\<rparr>"

lemma import_uncaught_witness:
  "\<exists>e'. importMessages msg_libs (record_exportMessage (int_export_env (JObj bad_level_members)))
      \<lparr>ie_processor = [], ie_main = []\<rparr> crash_input
      (\<lparr>sq_processor = MessageQueue_default ''processor.queue'' [], sq_main = MessageQueue_default ''main_queue'' []\<rparr>)
    = Some (Inl e') \<and> \<not> catches IqException e'"
proof -
  have g: "gelf_parse int_dbl (one_doc_lib ''doc'' (JObj bad_level_members)) 1600000000 ''doc'' = Inl InvalidArgument"
    by code_simp
  have "record_exportMessage (int_export_env (JObj bad_level_members)) (GelfRecord (Record ''g'' ''doc'' (7 :: nat)))
      = Inl InvalidArgument"
    using g by (simp add: record_exportMessage_def GelfMessage_def decompress_def gelf_magic_def
        int_export_env_def Record_def)
  then show ?thesis
    by (intro import_uncaught [where iq = "(in_queue crash_input)\<lparr>m_messageQueue := []\<rparr>"
          and records = "[GelfRecord (Record ''g'' ''doc'' 7)]" and e = InvalidArgument])
       (simp_all add: mq_try_dequeue_bulk_def crash_input_def msg_libs_def list_libs_def MessageQueue_def max_queue_bulk_size_def)
qed

end
