(* ===== verification/IQ_Tail_Record.thy ===== *)
theory IQ_Tail_Record
  imports IQ_Formats IQ_Queue
begin

text \<open>
  One tailed file (src/inputs/tail/TailMonitor.cpp, class PointersTableInternalRecord) and the
  positions kept on disk (src/inputs/tail/SavePositionServer.cpp). Reading returns the messages in
  the order in which the code enqueues them. The regular expression library is the argument
  \<open>matches\<close>: the positions of the successive matches in a buffer. A file is the string of its
  bytes; it does not change during one call of \<open>process\<close>.
\<close>

subsection \<open>Cutting a buffer into messages\<close>

text \<open>
  With a start expression: every match but the first ends a message, the first one ends what was
  buffered, and the text from the last match on is buffered.
\<close>

fun between_matches :: "string \<Rightarrow> nat \<Rightarrow> nat list \<Rightarrow> string list \<times> nat" where
  "between_matches buffer prev [] = ([], prev)"
| "between_matches buffer prev (p # ps) =
     (case between_matches buffer p ps of (ms, l) \<Rightarrow> (take (p - prev) (drop prev buffer) # ms, l))"

definition processBuffer_regex :: "nat list \<Rightarrow> string \<Rightarrow> string \<Rightarrow> string \<times> string list" where
  "processBuffer_regex positions m_buffer buffer =
     (case positions of
        [] \<Rightarrow> (m_buffer @ buffer, [])
      | p # ps \<Rightarrow>
          (let first =
                 (if m_buffer \<noteq> [] then [if p = 0 then m_buffer else m_buffer @ take p buffer]
                  else if p \<noteq> 0 then [take p buffer] else []);
               (ms, l) = between_matches buffer p ps
           in (drop l buffer, first @ ms)))"

text \<open>Without one: every maximal piece without a newline is a message, what is last too.\<close>

function newline_pieces :: "string \<Rightarrow> string list" where
  "newline_pieces buffer =
     (if buffer = [] then []
      else
        (let line = takeWhile (\<lambda>c. c \<noteq> CHR 0x0A) buffer; rest = drop (Suc (length line)) buffer
         in (if line \<noteq> [] then [line] else []) @ newline_pieces rest))"
  by pat_completeness auto
termination by (relation "measure length") (auto simp: Suc_le_eq)

declare newline_pieces.simps [simp del]

definition processBuffer :: "(string \<Rightarrow> nat list) option \<Rightarrow> string \<Rightarrow> string \<Rightarrow> string \<times> string list" where
  "processBuffer m_startMsgRegEx m_buffer buffer =
     (case m_startMsgRegEx of
        Some matches \<Rightarrow> processBuffer_regex (matches buffer) m_buffer buffer
      | None \<Rightarrow> (m_buffer, newline_pieces buffer))"

subsection \<open>The record of a file\<close>

record tail_record =
  tr_name :: string
  tr_source :: tail_source
  tr_open :: bool
  tr_fail :: bool
  tr_position :: int
  tr_regex :: "(string \<Rightarrow> nat list) option"
  tr_buffer :: string
  tr_followOnly :: bool
  tr_saveState :: bool
  tr_firstRead :: bool
  tr_symlinkPath :: "string option"

definition read_buffer_size :: nat where
  "read_buffer_size = 4096 * 1024"

text \<open>
  The reads of one call: blocks of at most the buffer size from the stream's position, until the
  amount that was added is read or a read returns nothing. \<open>todo\<close> is what is left to read.
\<close>

function read_blocks :: "(string \<Rightarrow> nat list) option \<Rightarrow> string \<Rightarrow> nat \<Rightarrow> nat \<Rightarrow> string \<Rightarrow> nat \<Rightarrow> string \<times> string list \<times> nat" where
  "read_blocks rx f pos todo buf tot =
     (if todo = 0 then (buf, [], tot)
      else
        (let need_read = min read_buffer_size todo;
             block = take need_read (drop pos f);
             actual_read = length block
         in if actual_read = 0 then (buf, [], tot)
            else
              (case processBuffer rx buf block of (buf1, ms) \<Rightarrow>
                 (case read_blocks rx f (pos + actual_read) (todo - actual_read) buf1 (tot + actual_read) of
                    (buf2, ms2, tot2) \<Rightarrow> (buf2, ms @ ms2, tot2)))))"
  by pat_completeness auto
termination
  by (relation "measure (\<lambda>(rx, f, pos, todo, buf, tot). todo)") (auto simp: Let_def min_def split: if_splits)

declare read_blocks.simps [simp del]

text \<open>What a call asks the position server to store: the position less what is only buffered.\<close>

definition saved_position :: "tail_record \<Rightarrow> int option" where
  "saved_position r = (if tr_saveState r then Some (tr_position r - int (length (tr_buffer r))) else None)"

text \<open>
  \<open>file\<close> is the content, or nothing when the stream cannot seek. A seek before the beginning of
  the file makes the stream fail: the read after it reads nothing, and the next call finds the
  stream failed, goes back to position 0 and clears it.
\<close>

definition record_process :: "string option \<Rightarrow> tail_record \<Rightarrow> tail_record \<times> string list \<times> int option" where
  "record_process file r =
     (if tr_symlinkPath r \<noteq> None then (r, [], None)
      else if \<not> tr_open r then (r, [], None)
      else
        (case (if tr_fail r then None else file) of
           None \<Rightarrow> (r\<lparr>tr_position := 0, tr_fail := False\<rparr>, [], None)
         | Some f \<Rightarrow>
             (let filesize = int (length f);
                  r1 = (if filesize < tr_position r then r\<lparr>tr_position := 0\<rparr> else r);
                  added = filesize - tr_position r1
              in if 0 < added \<and> \<not> tr_firstRead r1 \<and> tr_followOnly r1 then
                   (r1\<lparr>tr_position := filesize, tr_firstRead := True\<rparr>, [], None)
                 else if 0 < added then
                   (case (if 0 \<le> tr_position r1
                          then read_blocks (tr_regex r1) f (nat (tr_position r1)) (nat added) (tr_buffer r1) 0
                          else (tr_buffer r1, [], 0)) of
                      (buf, ms, n) \<Rightarrow>
                        (let r2 = r1\<lparr>tr_buffer := buf, tr_position := tr_position r1 + int n, tr_fail := (tr_position r1 < 0)\<rparr>
                         in (r2, ms, saved_position r2)))
                 else (r1, [], saved_position r1))))"

text \<open>
  A new record: opening the file may fail; \<open>symlink\<close> is what the file's name points to when it is
  a symbolic link. With the state saved, reading starts at the position of the position server.
\<close>

definition PointersTableInternalRecord ::
    "bool \<Rightarrow> string option \<Rightarrow> string \<Rightarrow> tail_source \<Rightarrow> (string \<Rightarrow> nat list) option \<Rightarrow> bool \<Rightarrow> bool
     \<Rightarrow> (string \<Rightarrow> int outcome) \<Rightarrow> tail_record outcome" where
  "PointersTableInternalRecord file_opens symlink name source startmsg_regex followOnly saveState saved =
     (if \<not> file_opens then Inl SystemError
      else
        and_then (if saveState then saved (ts_filename source) else Inr 0) (\<lambda>position.
          Inr \<lparr>tr_name = name, tr_source = source, tr_open = True, tr_fail = False, tr_position = position,
               tr_regex = startmsg_regex, tr_buffer = [], tr_followOnly = followOnly, tr_saveState = saveState,
               tr_firstRead = False, tr_symlinkPath = symlink\<rparr>))"

definition record_flush :: "tail_record \<Rightarrow> tail_record \<times> string list \<times> int option" where
  "record_flush r =
     (if tr_buffer r \<noteq> [] then
        (let r' = r\<lparr>tr_buffer := []\<rparr> in (r', [tr_buffer r], saved_position r'))
      else (r, [], None))"

definition record_rename :: "string \<Rightarrow> tail_record \<Rightarrow> tail_record" where
  "record_rename filename r = r\<lparr>tr_source := (tr_source r)\<lparr>ts_filename := filename\<rparr>\<rparr>"

subsection \<open>Saved positions\<close>

text \<open>A position on disk is its eight bytes in the order of the machine, least significant first.\<close>

definition position_bytes :: "int \<Rightarrow> string" where
  "position_bytes p = map (\<lambda>i. char_of (nat (p div 256 ^ i mod 256))) [0..<8]"

fun bytes_value :: "string \<Rightarrow> int" where
  "bytes_value [] = 0"
| "bytes_value (c # cs) = int (byte c) + 256 * bytes_value cs"

definition position_of_bytes :: "string \<Rightarrow> int" where
  "position_of_bytes s = (let v = bytes_value (take 8 s) in if v < 2 ^ 63 then v else v - 2 ^ 64)"

record save_server =
  sp_table :: "(string \<times> int) list"
  sp_files :: "(string \<times> string) list"

text \<open>\<open>substr(1)\<close> of an empty name throws; the rest has its slashes replaced.\<close>

definition getSavedPathByFileName :: "string \<Rightarrow> string outcome" where
  "getSavedPathByFileName filename =
     (if filename = [] then Inl OutOfRange
      else Inr (map (\<lambda>c. if c = CHR ''/'' then CHR ''-'' else c) (c_str (drop 1 filename))))"

definition getCurrentSavedPositionFromFile :: "string \<Rightarrow> int" where
  "getCurrentSavedPositionFromFile content = position_of_bytes content"

text \<open>
  Initialisation takes the positions of all files of the directory into the table and removes the
  files; \<open>dir_ok\<close> tells whether the directory is there.
\<close>

definition save_init :: "bool \<Rightarrow> save_server \<Rightarrow> save_server outcome" where
  "save_init dir_ok s =
     (if \<not> dir_ok then Inl IqException
      else Inr \<lparr>sp_table = fold (\<lambda>(name, content) m. emplace name (getCurrentSavedPositionFromFile content) m)
                             (sp_files s) (sp_table s),
                sp_files = []\<rparr>)"

definition getSavedPosition :: "string \<Rightarrow> save_server \<Rightarrow> int outcome" where
  "getSavedPosition filename s =
     and_then (getSavedPathByFileName filename) (\<lambda>path.
       Inr (case map_of (sp_table s) path of None \<Rightarrow> 0 | Some p \<Rightarrow> p))"

definition savePosition :: "string \<Rightarrow> int \<Rightarrow> save_server \<Rightarrow> save_server outcome" where
  "savePosition filename position s =
     and_then (getSavedPathByFileName filename) (\<lambda>path.
       Inr (s\<lparr>sp_files := AList.update path (position_bytes position) (sp_files s)\<rparr>))"

definition erasePosition :: "string \<Rightarrow> save_server \<Rightarrow> save_server outcome" where
  "erasePosition filename s =
     and_then (getSavedPathByFileName filename) (\<lambda>path. Inr (s\<lparr>sp_files := AList.delete path (sp_files s)\<rparr>))"

subsection \<open>No byte is lost or made up\<close>

definition positions_ok :: "nat list \<Rightarrow> string \<Rightarrow> bool" where
  "positions_ok ps buffer \<longleftrightarrow> sorted ps \<and> (\<forall>p \<in> set ps. p \<le> length buffer)"

definition regex_ok :: "(string \<Rightarrow> nat list) \<Rightarrow> bool" where
  "regex_ok matches \<longleftrightarrow> (\<forall>b. positions_ok (matches b) b)"

lemma take_drop_join: "a \<le> b \<Longrightarrow> take (b - a) (drop a xs) @ drop b xs = drop a xs"
  using append_take_drop_id [of "b - a" "drop a xs"] by simp

lemma between_matches_join:
  "between_matches buffer prev ps = (ms, l) \<Longrightarrow> sorted (prev # ps) \<Longrightarrow>
   concat ms @ drop l buffer = drop prev buffer"
proof (induction buffer prev ps arbitrary: ms l rule: between_matches.induct)
  case (2 buffer prev p ps)
  obtain ms' where r: "between_matches buffer p ps = (ms', l)" "ms = take (p - prev) (drop prev buffer) # ms'"
    using 2(2) by (auto split: prod.splits)
  with 2 show ?case by (auto simp: take_drop_join)
qed simp

lemma processBuffer_regex_join:
  assumes "positions_ok ps buffer" "processBuffer_regex ps m_buffer buffer = (b, ms)"
  shows "concat ms @ b = m_buffer @ buffer"
proof (cases ps)
  case Nil
  with assms(2) show ?thesis by (auto simp: processBuffer_regex_def)
next
  case (Cons p qs)
  obtain ns l where n: "between_matches buffer p qs = (ns, l)" by fastforce
  have "concat ns @ drop l buffer = drop p buffer"
    using between_matches_join [OF n] assms(1) Cons by (simp add: positions_ok_def)
  with assms(2) Cons n show ?thesis
    by (auto simp: processBuffer_regex_def split: if_splits)
qed

lemma char_cases:
  obtains "x \<notin> set s" | l r where "s = l @ x # r" "x \<notin> set l"
  by (metis split_list_first)

lemma newline_pieces_plain: "CHR 0x0A \<notin> set b \<Longrightarrow> newline_pieces b = (if b = [] then [] else [b])"
proof -
  assume n: "CHR 0x0A \<notin> set b"
  then have t: "takeWhile (\<lambda>c. c \<noteq> CHR 0x0A) b = b" by (auto simp: takeWhile_eq_all_conv)
  have e: "newline_pieces [] = []" by (subst newline_pieces.simps) simp
  show ?thesis by (subst newline_pieces.simps) (simp add: Let_def t e)
qed

lemma newline_pieces_line:
  assumes "CHR 0x0A \<notin> set l"
  shows "newline_pieces (l @ CHR 0x0A # r) = (if l = [] then [] else [l]) @ newline_pieces r"
proof -
  have t: "takeWhile (\<lambda>c. c \<noteq> CHR 0x0A) (l @ CHR 0x0A # r) = l"
    using assms by (subst takeWhile_append2) auto
  show ?thesis by (subst newline_pieces.simps) (simp add: t Let_def del: takeWhile_append)
qed

lemma newline_pieces_spec:
  "concat (newline_pieces b) = filter (\<lambda>c. c \<noteq> CHR 0x0A) b
   \<and> (\<forall>l \<in> set (newline_pieces b). l \<noteq> [] \<and> CHR 0x0A \<notin> set l)"
proof (induction b rule: length_induct)
  case (1 b)
  have keep: "CHR 0x0A \<notin> set l \<Longrightarrow> filter (\<lambda>c. c \<noteq> CHR 0x0A) l = l" for l :: string
    by (auto simp: filter_id_conv)
  show ?case
  proof (cases "CHR 0x0A" b rule: char_cases)
    case 1
    then show ?thesis by (simp add: newline_pieces_plain keep)
  next
    case (2 l r)
    then have "length r < length b" by simp
    with 1 have "concat (newline_pieces r) = filter (\<lambda>c. c \<noteq> CHR 0x0A) r
        \<and> (\<forall>l \<in> set (newline_pieces r). l \<noteq> [] \<and> CHR 0x0A \<notin> set l)" by blast
    with 2 show ?thesis by (auto simp: newline_pieces_line keep)
  qed
qed

lemma read_blocks_regex:
  assumes "regex_ok matches"
  shows "read_blocks (Some matches) f pos todo buf tot = (buf', ms, tot') \<Longrightarrow> pos + todo \<le> length f \<Longrightarrow>
    concat ms @ buf' = buf @ take todo (drop pos f) \<and> tot' = tot + todo"
proof (induction "Some matches" f pos todo buf tot arbitrary: buf' ms tot' rule: read_blocks.induct)
  case (1 f pos todo buf tot)
  show ?case
  proof (cases "todo = 0")
    case True
    with 1(2) show ?thesis by (simp add: read_blocks.simps)
  next
    case False
    let ?n = "min read_buffer_size todo"
    let ?block = "take ?n (drop pos f)"
    have n: "length ?block = ?n" "0 < ?n" "?n \<le> todo"
      using 1(3) False by (auto simp: read_buffer_size_def)
    obtain b1 ms1 where p: "processBuffer (Some matches) buf ?block = (b1, ms1)" by fastforce
    obtain b2 ms2 t2 where r: "read_blocks (Some matches) f (pos + ?n) (todo - ?n) b1 (tot + ?n) = (b2, ms2, t2)"
      by (cases "read_blocks (Some matches) f (pos + ?n) (todo - ?n) b1 (tot + ?n)") auto
    have "read_blocks (Some matches) f pos todo buf tot = (b2, ms1 @ ms2, t2)"
      using False n p r 1(3) by (subst read_blocks.simps) (auto simp: Let_def)
    then have res: "buf' = b2" "ms = ms1 @ ms2" "tot' = t2" using 1(2) by simp_all
    have "positions_ok (matches ?block) ?block" using assms by (simp add: regex_ok_def)
    with p have "concat ms1 @ b1 = buf @ ?block"
      by (intro processBuffer_regex_join) (simp_all add: processBuffer_def)
    moreover have "concat ms2 @ b2 = b1 @ take (todo - ?n) (drop (pos + ?n) f) \<and> t2 = tot + ?n + (todo - ?n)"
      using 1(1) [OF False refl refl refl _ p [symmetric]] r n 1(3) by simp
    ultimately have e: "concat ms1 @ b1 = buf @ ?block"
        "concat ms2 @ b2 = b1 @ take (todo - ?n) (drop (pos + ?n) f)" "t2 = tot + todo"
      using n(3) by simp_all
    have "concat ms @ buf' = concat ms1 @ (concat ms2 @ b2)" using res by simp
    also have "\<dots> = (concat ms1 @ b1) @ take (todo - ?n) (drop (pos + ?n) f)"
      by (simp only: e(2) append.assoc)
    also have "\<dots> = buf @ ?block @ take (todo - ?n) (drop (pos + ?n) f)"
      by (simp only: e(1) append.assoc)
    finally have "concat ms @ buf' = buf @ ?block @ take (todo - ?n) (drop (pos + ?n) f)" .
    moreover have "?block @ take (todo - ?n) (drop (pos + ?n) f) = take todo (drop pos f)"
      using take_add [of ?n "todo - ?n" "drop pos f"] n(3) by (simp add: add.commute)
    ultimately show ?thesis using res(3) e(3) by simp
  qed
qed

lemma read_blocks_newline:
  "read_blocks None f pos todo buf tot = (buf', ms, tot') \<Longrightarrow> pos + todo \<le> length f \<Longrightarrow>
    concat ms = filter (\<lambda>c. c \<noteq> CHR 0x0A) (take todo (drop pos f)) \<and> buf' = buf \<and> tot' = tot + todo"
proof (induction "None :: (string \<Rightarrow> nat list) option" f pos todo buf tot arbitrary: buf' ms tot' rule: read_blocks.induct)
  case (1 f pos todo buf tot)
  show ?case
  proof (cases "todo = 0")
    case True
    with 1(2) show ?thesis by (simp add: read_blocks.simps)
  next
    case False
    let ?n = "min read_buffer_size todo"
    let ?block = "take ?n (drop pos f)"
    have n: "length ?block = ?n" "0 < ?n" "?n \<le> todo"
      using 1(3) False by (auto simp: read_buffer_size_def)
    have p: "processBuffer None buf ?block = (buf, newline_pieces ?block)" by (simp add: processBuffer_def)
    obtain b2 ms2 t2 where r: "read_blocks None f (pos + ?n) (todo - ?n) buf (tot + ?n) = (b2, ms2, t2)"
      by (cases "read_blocks None f (pos + ?n) (todo - ?n) buf (tot + ?n)") auto
    have "read_blocks None f pos todo buf tot = (b2, newline_pieces ?block @ ms2, t2)"
      using False n p r 1(3) by (subst read_blocks.simps) (auto simp: Let_def)
    then have res: "buf' = b2" "ms = newline_pieces ?block @ ms2" "tot' = t2" using 1(2) by simp_all
    have "concat ms2 = filter (\<lambda>c. c \<noteq> CHR 0x0A) (take (todo - ?n) (drop (pos + ?n) f))" "b2 = buf" "t2 = tot + todo"
      using 1(1) [OF False refl refl refl _ p [symmetric]] r n 1(3) by simp_all
    moreover have "?block @ take (todo - ?n) (drop (pos + ?n) f) = take todo (drop pos f)"
      using take_add [of ?n "todo - ?n" "drop pos f"] n(3) by (simp add: add.commute)
    ultimately show ?thesis
      using res newline_pieces_spec [of ?block] by (metis concat_append filter_append)
  qed
qed

subsection \<open>What a record knows of its file\<close>

text \<open>
  The buffer of a record is what the file has just before the record's position: from the saved
  position on nothing was handed over yet.
\<close>

definition record_inv :: "string \<Rightarrow> tail_record \<Rightarrow> bool" where
  "record_inv f r \<longleftrightarrow>
     0 \<le> tr_position r \<and> tr_position r \<le> int (length f)
     \<and> int (length (tr_buffer r)) \<le> tr_position r
     \<and> tr_buffer r = drop (nat (tr_position r) - length (tr_buffer r)) (take (nat (tr_position r)) f)"

lemma record_inv_split:
  assumes "record_inv f r"
  shows "take (nat (tr_position r) - length (tr_buffer r)) f @ tr_buffer r = take (nat (tr_position r)) f"
proof -
  let ?p = "nat (tr_position r)" and ?b = "length (tr_buffer r)"
  have "take (?p - ?b) (take ?p f) @ drop (?p - ?b) (take ?p f) = take ?p f" by (rule append_take_drop_id)
  moreover have "take (?p - ?b) (take ?p f) = take (?p - ?b) f" by (simp add: min_def)
  moreover have "drop (?p - ?b) (take ?p f) = tr_buffer r" using assms by (simp add: record_inv_def)
  ultimately show ?thesis by simp
qed

definition plain_record :: "tail_record \<Rightarrow> bool" where
  "plain_record r \<longleftrightarrow> tr_symlinkPath r = None \<and> tr_open r \<and> \<not> tr_fail r \<and> (tr_firstRead r \<or> \<not> tr_followOnly r)"

lemma record_process_regex:
  assumes "record_inv f r" "plain_record r" "tr_regex r = Some matches" "regex_ok matches"
    and "record_process (Some (f @ g)) r = (r', ms, sv)"
  shows "record_inv (f @ g) r'" "tr_position r' = int (length (f @ g))" "plain_record r'" "tr_regex r' = tr_regex r"
    "concat ms @ tr_buffer r' = tr_buffer r @ drop (nat (tr_position r)) (f @ g)"
proof -
  let ?fg = "f @ g"
  let ?p = "nat (tr_position r)"
  have p: "int ?p = tr_position r" "?p \<le> length f" "length (tr_buffer r) \<le> ?p"
    using assms(1) by (auto simp: record_inv_def)
  let ?added = "length ?fg - ?p"
  obtain buf ms' n where rb: "read_blocks (Some matches) ?fg ?p ?added (tr_buffer r) 0 = (buf, ms', n)"
    by (cases "read_blocks (Some matches) ?fg ?p ?added (tr_buffer r) 0") auto
  have join: "concat ms' @ buf = tr_buffer r @ drop ?p ?fg" "n = ?added"
    using read_blocks_regex [OF assms(4) rb] p by simp_all
  have res: "(r', ms, sv) = (let r2 = r\<lparr>tr_buffer := buf, tr_position := int (length ?fg), tr_fail := False\<rparr> in (r2, ms', saved_position r2))"
  proof (cases "?p < length ?fg")
    case True
    have nf: "\<not> (\<not> tr_firstRead r \<and> tr_followOnly r)" "tr_symlinkPath r = None" "tr_open r" "\<not> tr_fail r"
      using assms(2) by (auto simp: plain_record_def)
    have c: "\<not> int (length ?fg) < tr_position r" "0 \<le> tr_position r" "tr_position r < int (length ?fg)"
        "0 < int (length ?fg) - tr_position r" "nat (int (length ?fg) - tr_position r) = ?added"
        "tr_position r + int ?added = int (length ?fg)"
      using True p(1,2) by linarith+
    have "record_process (Some ?fg) r
        = (let r2 = r\<lparr>tr_buffer := buf, tr_position := int (length ?fg), tr_fail := False\<rparr> in (r2, ms', saved_position r2))"
      using assms(3) rb join(2) c nf
      by (cases "tr_firstRead r") (simp_all add: record_process_def Let_def del: length_append of_nat_add)
    then show ?thesis using assms(5) by simp
  next
    case False
    have l: "length ?fg = length f + length g" by simp
    have "length g = 0" using False p(2) l by linarith
    then have g: "?p = length ?fg" "g = []" using False p(2) by auto
    then have "buf = tr_buffer r" "ms' = []" using rb by (simp_all add: read_blocks.simps)
    moreover have "r\<lparr>tr_position := tr_position r\<rparr> = r" "\<not> tr_fail r \<Longrightarrow> r\<lparr>tr_fail := False\<rparr> = r" by simp_all
    ultimately show ?thesis
      using assms(2,3,5) g p by (auto simp: record_process_def plain_record_def saved_position_def Let_def)
  qed
  then show "tr_position r' = int (length ?fg)" "plain_record r'" "tr_regex r' = tr_regex r"
    "concat ms @ tr_buffer r' = tr_buffer r @ drop ?p ?fg"
    using assms(2) join by (auto simp: Let_def plain_record_def)
  have buf: "tr_buffer r' = buf" using res by (simp add: Let_def)
  have "take (?p - length (tr_buffer r)) ?fg @ concat ms' @ buf = take (?p - length (tr_buffer r)) f @ tr_buffer r @ drop ?p ?fg"
    using join p by simp
  also have "\<dots> = take ?p f @ drop ?p ?fg" using record_inv_split [OF assms(1)] by (metis append.assoc)
  also have "\<dots> = ?fg" using p(2) by simp
  finally obtain pre where pre: "?fg = pre @ buf" by (metis append.assoc)
  then have "length buf \<le> length ?fg" "drop (length ?fg - length buf) ?fg = buf" by simp_all
  with buf \<open>tr_position r' = int (length ?fg)\<close> show "record_inv ?fg r'"
    by (simp add: record_inv_def del: length_append of_nat_add drop_append take_append)
qed

lemma record_flush_ok:
  assumes "record_inv f r" "record_flush r = (r', ms, sv)"
  shows "record_inv f r'" "concat ms @ tr_buffer r' = tr_buffer r" "tr_position r' = tr_position r"
    "tr_regex r' = tr_regex r" "plain_record r \<Longrightarrow> plain_record r'"
  using assms by (auto simp: record_flush_def Let_def record_inv_def plain_record_def split: if_splits)

text \<open>A tailed file over time: it grows, is looked at, and its buffer times out.\<close>

datatype tail_step = Grow string | Look | Timeout

fun tail_run :: "tail_step list \<Rightarrow> string \<Rightarrow> tail_record \<Rightarrow> string \<times> tail_record \<times> string list" where
  "tail_run [] f r = (f, r, [])"
| "tail_run (Grow g # es) f r = tail_run es (f @ g) r"
| "tail_run (Look # es) f r =
     (case record_process (Some f) r of
        (r1, ms, sv) \<Rightarrow> (case tail_run es f r1 of (f2, r2, ms2) \<Rightarrow> (f2, r2, ms @ ms2)))"
| "tail_run (Timeout # es) f r =
     (case record_flush r of
        (r1, ms, sv) \<Rightarrow> (case tail_run es f r1 of (f2, r2, ms2) \<Rightarrow> (f2, r2, ms @ ms2)))"

lemma record_inv_grow: "record_inv f r \<Longrightarrow> record_inv (f @ g) r"
  by (auto simp: record_inv_def)

definition next_position :: "tail_record \<Rightarrow> nat" where
  "next_position r = nat (tr_position r - int (length (tr_buffer r)))"

lemma tail_run_regex:
  assumes "regex_ok matches"
  shows "record_inv f r \<Longrightarrow> plain_record r \<Longrightarrow> tr_regex r = Some matches \<Longrightarrow> tail_run es f r = (f', r', ms) \<Longrightarrow>
    record_inv f' r' \<and> take (next_position r) f' @ concat ms = take (next_position r') f'
    \<and> (\<exists>g. f' = f @ g) \<and> tr_regex r' = Some matches"
proof (induction es f r arbitrary: ms rule: tail_run.induct)
  case (1 f r)
  then show ?case by simp
next
  case (2 g es f r)
  from 2(1) [OF record_inv_grow [OF 2(2)] 2(3,4)] 2(5) show ?case by auto
next
  case (3 es f r)
  obtain r1 ms1 sv where p: "record_process (Some f) r = (r1, ms1, sv)" by (cases "record_process (Some f) r") auto
  obtain ms2 where t: "tail_run es f r1 = (f', r', ms2)" and res: "ms = ms1 @ ms2"
    using 3(5) p by (auto split: prod.splits)
  note step = record_process_regex [OF 3(2,3,4) assms, of "[]" r1 ms1 sv, simplified, OF p]
  have reg: "tr_regex r1 = Some matches" using step(4) 3(4) by simp
  from 3(1) [OF p [symmetric] refl step(1,3) reg t]
  obtain g where ih: "record_inv f' r'" "take (next_position r1) f' @ concat ms2 = take (next_position r') f'" "f' = f @ g"
      "tr_regex r' = Some matches"
    by blast
  have n0: "next_position r \<le> length f" "next_position r1 = length f - length (tr_buffer r1)"
    using 3(2) step(1,2) by (auto simp: next_position_def record_inv_def)
  have "take (next_position r) f @ concat ms1 @ tr_buffer r1 = take (next_position r) f @ tr_buffer r @ drop (nat (tr_position r)) f"
    using step(5) by simp
  also have "\<dots> = f"
    using record_inv_split [OF 3(2)] 3(2)
    by (metis append.assoc append_take_drop_id next_position_def nat_int record_inv_def nat_diff_distrib' of_nat_0_le_iff)
  also have "\<dots> = take (next_position r1) f @ tr_buffer r1"
    using record_inv_split [OF step(1)] n0(2) step(2) by simp
  finally have "take (next_position r) f @ concat ms1 = take (next_position r1) f" by simp
  then have "take (next_position r) f' @ concat ms1 = take (next_position r1) f'"
    using ih(3) n0 by simp
  with ih res show ?case by (metis append.assoc concat_append)
next
  case (4 es f r)
  obtain r1 ms1 sv where p: "record_flush r = (r1, ms1, sv)" by (cases "record_flush r") auto
  obtain ms2 where t: "tail_run es f r1 = (f', r', ms2)" and res: "ms = ms1 @ ms2"
    using 4(5) p by (auto split: prod.splits)
  note step = record_flush_ok [OF 4(2) p]
  have reg: "tr_regex r1 = Some matches" using step(4) 4(4) by simp
  from 4(1) [OF p [symmetric] refl step(1) step(5) [OF 4(3)] reg t]
  obtain g where ih: "record_inv f' r'" "take (next_position r1) f' @ concat ms2 = take (next_position r') f'" "f' = f @ g"
      "tr_regex r' = Some matches"
    by blast
  have e: "take (nat (tr_position r) - length (tr_buffer r)) f @ tr_buffer r = take (nat (tr_position r)) f"
      "take (nat (tr_position r) - length (tr_buffer r1)) f @ tr_buffer r1 = take (nat (tr_position r)) f"
    using record_inv_split [OF 4(2)] record_inv_split [OF step(1)] step(3) by simp_all
  have n: "next_position r = nat (tr_position r) - length (tr_buffer r)"
      "next_position r1 = nat (tr_position r) - length (tr_buffer r1)" "nat (tr_position r) \<le> length f"
    using 4(2) step(1,3) by (auto simp: next_position_def record_inv_def nat_diff_distrib')
  have "take (next_position r) f @ concat ms1 = take (next_position r1) f"
    using e step(2) n by (metis append.assoc append_same_eq)
  then have "take (next_position r) f' @ concat ms1 = take (next_position r1) f'"
    using ih(3) n by simp
  with ih res show ?case by (metis append.assoc concat_append)
qed

subsection \<open>Positions across a restart\<close>

text \<open>A run of one process in which the position server stores what the record asks for.\<close>

definition store_position :: "tail_record \<Rightarrow> int option \<Rightarrow> save_server \<Rightarrow> save_server outcome" where
  "store_position r sv s =
     (case sv of None \<Rightarrow> Inr s | Some p \<Rightarrow> savePosition (ts_filename (tr_source r)) p s)"

fun tail_session :: "tail_step list \<Rightarrow> string \<Rightarrow> tail_record \<Rightarrow> save_server
    \<Rightarrow> (string \<times> tail_record \<times> save_server \<times> string list) outcome" where
  "tail_session [] f r s = Inr (f, r, s, [])"
| "tail_session (Grow g # es) f r s = tail_session es (f @ g) r s"
| "tail_session (Look # es) f r s =
     (case record_process (Some f) r of (r1, ms, sv) \<Rightarrow>
        and_then (store_position r1 sv s) (\<lambda>s1.
          and_then (tail_session es f r1 s1) (\<lambda>(f2, r2, s2, ms2). Inr (f2, r2, s2, ms @ ms2))))"
| "tail_session (Timeout # es) f r s =
     (case record_flush r of (r1, ms, sv) \<Rightarrow>
        and_then (store_position r1 sv s) (\<lambda>s1.
          and_then (tail_session es f r1 s1) (\<lambda>(f2, r2, s2, ms2). Inr (f2, r2, s2, ms @ ms2))))"

lemma position_bytes_length [simp]: "length (position_bytes p) = 8"
  by (simp add: position_bytes_def)

lemma bytes_value_digits:
  "bytes_value (map (\<lambda>i. char_of (nat (p div 256 ^ i mod 256))) [k..<k + n]) = p div 256 ^ k mod 256 ^ n"
proof (induction n arbitrary: k)
  case (Suc n)
  have b: "int (byte (char_of (nat (q mod 256)))) = q mod 256" for q :: int
    by (simp add: of_char_of nat_less_iff)
  have "bytes_value (map (\<lambda>i. char_of (nat (p div 256 ^ i mod 256))) [k..<k + Suc n])
      = p div 256 ^ k mod 256 + 256 * (p div 256 ^ Suc k mod 256 ^ n)"
    using Suc.IH [of "Suc k"] b [of "p div 256 ^ k"] by (simp add: upt_conv_Cons del: upt_Suc)
  also have "p div 256 ^ Suc k = p div 256 ^ k div 256"
    by (metis mult.commute power_Suc zdiv_zmult2_eq zero_le_numeral zero_le_power)
  also have "p div 256 ^ k mod 256 + 256 * (p div 256 ^ k div 256 mod 256 ^ n) = p div 256 ^ k mod 256 ^ Suc n"
    using zmod_zmult2_eq [of "256 ^ n" "p div 256 ^ k" 256] by (simp add: mult.commute)
  finally show ?case .
qed simp

lemma position_roundtrip:
  assumes "- (2 ^ 63) \<le> p" "p < 2 ^ 63"
  shows "position_of_bytes (position_bytes p) = p"
proof -
  have v: "bytes_value (take 8 (position_bytes p)) = p mod 2 ^ 64"
    using bytes_value_digits [of p 0 8] by (simp add: position_bytes_def)
  show ?thesis
  proof (cases "0 \<le> p")
    case True
    with assms v show ?thesis by (simp add: position_of_bytes_def)
  next
    case False
    then have "p mod 2 ^ 64 = p + 2 ^ 64"
      using assms mod_add_self2 [of p "2 ^ 64 :: int"] by (simp add: mod_pos_pos_trivial del: mod_add_self2)
    with False assms v show ?thesis by (simp add: position_of_bytes_def)
  qed
qed

lemma tail_session_run:
  "tail_session es f r s = Inr (f', r', s', ms) \<Longrightarrow> tail_run es f r = (f', r', ms)"
proof (induction es f r s arbitrary: ms rule: tail_session.induct)
  case (3 es f r s)
  obtain r1 ms1 sv where p: "record_process (Some f) r = (r1, ms1, sv)" by (cases "record_process (Some f) r") auto
  with 3 show ?case by (auto simp: and_then_def split: sum.splits)
next
  case (4 es f r s)
  obtain r1 ms1 sv where p: "record_flush r = (r1, ms1, sv)" by (cases "record_flush r") auto
  with 4 show ?case by (auto simp: and_then_def split: sum.splits)
qed simp_all

lemma record_process_keeps:
  "record_process file r = (r', ms, sv) \<Longrightarrow> tr_source r' = tr_source r \<and> tr_saveState r' = tr_saveState r"
  by (auto simp: record_process_def Let_def split: if_splits option.splits prod.splits)

lemma record_flush_keeps:
  "record_flush r = (r', ms, sv) \<Longrightarrow> tr_source r' = tr_source r \<and> tr_saveState r' = tr_saveState r"
  by (auto simp: record_flush_def Let_def split: if_splits)

lemma record_process_saves:
  assumes "plain_record r" "tr_saveState r" "record_process (Some f) r = (r', ms, sv)"
  shows "sv = saved_position r'"
  using assms by (auto simp: record_process_def plain_record_def Let_def split: if_splits prod.splits)

lemma record_flush_saves:
  assumes "tr_saveState r" "record_flush r = (r', ms, sv)"
  shows "sv = saved_position r' \<or> sv = None \<and> r' = r"
  using assms by (auto simp: record_flush_def Let_def split: if_splits)

lemma next_position_saved:
  "record_inv f r \<Longrightarrow> tr_saveState r \<Longrightarrow> saved_position r = Some (int (next_position r))"
  by (auto simp: record_inv_def saved_position_def next_position_def)

lemma store_position_map:
  assumes "getSavedPathByFileName (ts_filename (tr_source r)) = Inr path" "store_position r (Some p) s = Inr s'"
  shows "map_of (sp_files s') path = Some (position_bytes p)"
  using assms by (auto simp: store_position_def savePosition_def update_conv')

lemma store_position_total:
  assumes "getSavedPathByFileName (ts_filename (tr_source r)) = Inr path"
  shows "\<exists>s'. store_position r sv s = Inr s'"
  using assms by (auto simp: store_position_def savePosition_def split: option.splits)

lemma tail_session_total:
  assumes "getSavedPathByFileName (ts_filename (tr_source r)) = Inr path"
  shows "\<exists>f' r' s' ms. tail_session es f r s = Inr (f', r', s', ms) \<and> tr_source r' = tr_source r"
  using assms
proof (induction es f r s rule: tail_session.induct)
  case (3 es f r s)
  obtain r1 ms1 sv where p: "record_process (Some f) r = (r1, ms1, sv)" by (cases "record_process (Some f) r") auto
  have k: "tr_source r1 = tr_source r" using record_process_keeps [OF p] by simp
  obtain s1 where "store_position r1 sv s = Inr s1"
    using store_position_total [of r1 path sv s] 3(2) k by auto
  with 3(1) [OF p [symmetric] refl] p k 3(2) show ?case by fastforce
next
  case (4 es f r s)
  obtain r1 ms1 sv where p: "record_flush r = (r1, ms1, sv)" by (cases "record_flush r") auto
  have k: "tr_source r1 = tr_source r" using record_flush_keeps [OF p] by simp
  obtain s1 where "store_position r1 sv s = Inr s1"
    using store_position_total [of r1 path sv s] 4(2) k by auto
  with 4(1) [OF p [symmetric] refl] p k 4(2) show ?case by fastforce
qed simp_all

lemma session_saved:
  assumes "regex_ok matches" "getSavedPathByFileName (ts_filename (tr_source r)) = Inr path"
  shows "record_inv f r \<Longrightarrow> plain_record r \<Longrightarrow> tr_regex r = Some matches \<Longrightarrow> tr_saveState r \<Longrightarrow>
    tail_session es f r s = Inr (f', r', s', ms) \<Longrightarrow>
    map_of (sp_files s) path = Some (position_bytes (int (next_position r))) \<or> Look \<in> set es \<Longrightarrow>
    map_of (sp_files s') path = Some (position_bytes (int (next_position r')))"
  using assms(2)
proof (induction es f r s arbitrary: ms rule: tail_session.induct)
  case (2 g es f r s)
  then show ?case using record_inv_grow [OF 2(2)] by simp
next
  case (3 es f r s)
  obtain r1 ms1 sv where p: "record_process (Some f) r = (r1, ms1, sv)" by (cases "record_process (Some f) r") auto
  note step = record_process_regex [OF 3(2,3,4) assms(1), of "[]" r1 ms1 sv, simplified, OF p]
  have k: "tr_source r1 = tr_source r" "tr_saveState r1" using record_process_keeps [OF p] 3(5) by simp_all
  have sv: "sv = Some (int (next_position r1))"
    using record_process_saves [OF 3(3,5) p] next_position_saved [OF step(1) k(2)] by simp
  from 3(6) p obtain s1 ms2 where s1: "store_position r1 sv s = Inr s1" "tail_session es f r1 s1 = Inr (f', r', s', ms2)"
    by (auto simp: and_then_def split: sum.splits)
  have m: "map_of (sp_files s1) path = Some (position_bytes (int (next_position r1)))"
    using store_position_map [of r1 path] s1(1) sv 3(8) k by simp
  show ?case
    using 3(1) [OF p [symmetric] refl s1(1) step(1,3) _ k(2) s1(2)] m step(4) 3(4,8) k(1) by simp
next
  case (4 es f r s)
  obtain r1 ms1 sv where p: "record_flush r = (r1, ms1, sv)" by (cases "record_flush r") auto
  note step = record_flush_ok [OF 4(2) p]
  have k: "tr_source r1 = tr_source r" "tr_saveState r1" using record_flush_keeps [OF p] 4(5) by simp_all
  from 4(6) p obtain s1 ms2 where s1: "store_position r1 sv s = Inr s1" "tail_session es f r1 s1 = Inr (f', r', s', ms2)"
    by (auto simp: and_then_def split: sum.splits)
  have m: "map_of (sp_files s1) path = Some (position_bytes (int (next_position r1))) \<or> Look \<in> set es"
    using record_flush_saves [OF 4(5) p]
  proof
    assume "sv = saved_position r1"
    then have "sv = Some (int (next_position r1))" using next_position_saved [OF step(1) k(2)] by simp
    then show ?thesis using store_position_map [of r1 path] s1(1) 4(8) k by simp
  next
    assume "sv = None \<and> r1 = r"
    then show ?thesis using s1(1) 4(7) by (auto simp: store_position_def)
  qed
  show ?case
    using 4(1) [OF p [symmetric] refl s1(1) step(1) step(5) [OF 4(3)] _ k(2) s1(2)] m step(4) 4(4,8) k(1) by simp
qed simp_all

lemma save_init_map:
  assumes "save_init True s = Inr s'" "sp_table s = []"
  shows "map_of (sp_table s') path = map_option getCurrentSavedPositionFromFile (map_of (sp_files s) path)"
proof -
  have "map_of (fold (\<lambda>(name, content) m. emplace name (getCurrentSavedPositionFromFile content) m) fs t) path =
    (case map_of t path of Some v \<Rightarrow> Some v | None \<Rightarrow> map_option getCurrentSavedPositionFromFile (map_of fs path))" for fs t
    by (induction fs arbitrary: t) (auto simp: map_of_emplace split: option.splits)
  with assms show ?thesis by (auto simp: save_init_def)
qed

text \<open>One process tails a file, ends, the file grows, and a second process goes on.\<close>

definition empty_server :: save_server where
  "empty_server = \<lparr>sp_table = [], sp_files = []\<rparr>"

definition tail_restart :: "(string \<Rightarrow> nat list) \<Rightarrow> string \<Rightarrow> tail_source \<Rightarrow> string \<Rightarrow> tail_step list
    \<Rightarrow> string \<Rightarrow> tail_step list \<Rightarrow> (string \<times> tail_record \<times> string list) outcome" where
  "tail_restart matches name src f0 es1 g es2 =
     and_then (PointersTableInternalRecord True None name src (Some matches) False True
                 (\<lambda>n. getSavedPosition n empty_server)) (\<lambda>r1.
     and_then (tail_session es1 f0 r1 empty_server) (\<lambda>(f1, r1', s1, ms1).
     and_then (save_init True (s1\<lparr>sp_table := []\<rparr>)) (\<lambda>s2.
     and_then (PointersTableInternalRecord True None name src (Some matches) False True
                 (\<lambda>n. getSavedPosition n s2)) (\<lambda>r2.
     and_then (tail_session es2 (f1 @ g) r2 s2) (\<lambda>(f2, r2', s3, ms2). Inr (f2, r2', ms1 @ ms2))))))"

fun grown :: "tail_step list \<Rightarrow> string" where
  "grown [] = []"
| "grown (Grow g # es) = g @ grown es"
| "grown (_ # es) = grown es"

lemma tail_run_file: "tail_run es f r = (f', r', ms) \<Longrightarrow> f' = f @ grown es"
  by (induction es f r arbitrary: ms rule: tail_run.induct) (auto split: prod.splits)

text \<open>
  C1: with a start expression and the state saved, a restart neither loses nor repeats a byte: the
  messages of the two processes, one after the other, are the file up to the first byte that is
  still buffered, and the buffer is the rest of what was read.
\<close>
theorem tail_restart_exact:
  assumes ok: "regex_ok matches" and name: "ts_filename src \<noteq> []" and looked: "Look \<in> set es1"
    and size: "length (f0 @ grown es1) < 2 ^ 63"
  shows "\<exists>r ms. tail_restart matches name src f0 es1 g es2 = Inr (f0 @ grown es1 @ g @ grown es2, r, ms)
    \<and> concat ms = take (next_position r) (f0 @ grown es1 @ g @ grown es2)
    \<and> concat ms @ tr_buffer r = take (nat (tr_position r)) (f0 @ grown es1 @ g @ grown es2)"
proof -
  obtain path where path: "getSavedPathByFileName (ts_filename src) = Inr path"
    using name by (simp add: getSavedPathByFileName_def)
  define new where "new p = \<lparr>tr_name = name, tr_source = src, tr_open = True, tr_fail = False, tr_position = p,
      tr_regex = Some matches, tr_buffer = [], tr_followOnly = False, tr_saveState = True,
      tr_firstRead = False, tr_symlinkPath = None\<rparr>" for p
  have plain: "plain_record (new p)" "tr_regex (new p) = Some matches" "tr_saveState (new p)" "tr_source (new p) = src" for p
    by (simp_all add: new_def plain_record_def)
  have inv0: "record_inv f0 (new 0)" by (simp add: new_def record_inv_def)
  have mk0: "PointersTableInternalRecord True None name src (Some matches) False True (\<lambda>n. getSavedPosition n empty_server) = Inr (new 0)"
    using path by (simp add: PointersTableInternalRecord_def getSavedPosition_def empty_server_def new_def)
  obtain f1 r1 s1 ms1 where run1: "tail_session es1 f0 (new 0) empty_server = Inr (f1, r1, s1, ms1)"
    using tail_session_total [of "new 0" path] path plain by metis
  note one = tail_run_regex [OF ok inv0 plain(1,2) tail_session_run [OF run1]]
  have f1: "f1 = f0 @ grown es1" by (rule tail_run_file [OF tail_session_run [OF run1]])
  let ?p = "int (next_position r1)"
  have next1: "next_position r1 \<le> length f1"
    using one by (auto simp: record_inv_def next_position_def)
  have "map_of (sp_files s1) path = Some (position_bytes ?p)"
    using session_saved [OF ok _ inv0 plain(1-3) run1] path plain(4) looked by simp
  moreover obtain s2 where s2: "save_init True (s1\<lparr>sp_table := []\<rparr>) = Inr s2" by (auto simp: save_init_def)
  ultimately have "map_of (sp_table s2) path = Some ?p"
    using save_init_map [OF s2] position_roundtrip [of ?p] next1 f1 size
    by (simp add: getCurrentSavedPositionFromFile_def)
  then have mk1: "PointersTableInternalRecord True None name src (Some matches) False True (\<lambda>n. getSavedPosition n s2) = Inr (new ?p)"
    using path by (simp add: PointersTableInternalRecord_def getSavedPosition_def new_def)
  have inv1: "record_inv (f1 @ g) (new ?p)" using next1 by (simp add: new_def record_inv_def)
  obtain f2 r2 s3 ms2 where run2: "tail_session es2 (f1 @ g) (new ?p) s2 = Inr (f2, r2, s3, ms2)"
    using tail_session_total [of "new ?p" path] path plain by metis
  note two = tail_run_regex [OF ok inv1 plain(1,2) tail_session_run [OF run2]]
  have f2: "f2 = (f0 @ grown es1 @ g @ grown es2)"
    using tail_run_file [OF tail_session_run [OF run2]] f1 by simp
  have nn: "next_position (new ?p) = next_position r1" by (simp add: next_position_def new_def)
  have e1: "concat ms1 = take (next_position r1) f1" using one by (simp add: next_position_def new_def)
  have "take (next_position r1) f2 @ concat ms2 = take (next_position r2) f2"
    using two nn by simp
  then have c: "concat (ms1 @ ms2) = take (next_position r2) f2"
    using e1 next1 f1 f2 by simp
  have "concat (ms1 @ ms2) @ tr_buffer r2 = take (nat (tr_position r2)) f2"
    using record_inv_split [of f2 r2] two c by (auto simp: next_position_def record_inv_def nat_diff_distrib')
  moreover have "tail_restart matches name src f0 es1 g es2 = Inr (f2, r2, ms1 @ ms2)"
    using mk0 run1 s2 mk1 run2 by (simp add: tail_restart_def)
  ultimately show ?thesis using c f2 by blast
qed

text \<open>A start expression that matches every \<open>#\<close>.\<close>

definition hash_matches :: "string \<Rightarrow> nat list" where
  "hash_matches b = filter (\<lambda>i. b ! i = CHR ''#'') [0..<length b]"

lemma hash_matches_ok: "regex_ok hash_matches"
  by (auto simp: regex_ok_def positions_ok_def hash_matches_def intro: sorted_wrt_filter)

theorem tail_restart_exact_witness:
  "\<exists>r ms. tail_restart hash_matches ''t'' (TailSource ''/l'' None) ''#a'' [Look, Grow ''b#'', Look] ''c'' [Look]
      = Inr (''#ab#c'', r, ms)
    \<and> concat ms = take (next_position r) ''#ab#c''
    \<and> concat ms @ tr_buffer r = take (nat (tr_position r)) ''#ab#c''"
  using tail_restart_exact [of hash_matches "TailSource ''/l'' None" "[Look, Grow ''b#'', Look]" "''#a''" "''t''" "''c''" "[Look]"]
  by (simp add: hash_matches_ok TailSource_def)

text \<open>
  Without a start expression nothing is kept between two reads, so a line that is written in
  two parts and read in between becomes two messages.
\<close>
theorem newline_mode_splits_line:
  assumes "plain_record r" "tr_regex r = None" "tr_position r = int (length f)"
    and "l1 \<noteq> []" "l2 \<noteq> []" "CHR 0x0A \<notin> set l1" "CHR 0x0A \<notin> set l2"
    and "length l1 < read_buffer_size" "length l2 < read_buffer_size"
  shows "snd (snd (tail_run [Grow l1, Look, Grow (l2 @ [CHR 0x0A]), Look] f r)) = [l1, l2]"
proof -
  have one: "record_process (Some (F @ g)) q = (q\<lparr>tr_position := int (length (F @ g)), tr_fail := False\<rparr>, newline_pieces g,
      saved_position (q\<lparr>tr_position := int (length (F @ g)), tr_fail := False\<rparr>))"
    if q: "plain_record q" "tr_regex q = None" "tr_position q = int (length F)"
      and g: "g \<noteq> []" "length g \<le> read_buffer_size" for q F g
  proof -
    have "read_blocks None (F @ g) (length F) (length g) (tr_buffer q) 0 = (tr_buffer q, newline_pieces g, length g)"
      using g by (subst read_blocks.simps) (simp add: Let_def processBuffer_def min_absorb2 read_blocks.simps)
    with q g show ?thesis
      by (cases "tr_firstRead q") (auto simp: record_process_def plain_record_def Let_def)
  qed
  have p: "newline_pieces l1 = [l1]" "newline_pieces (l2 @ [CHR 0x0A]) = [l2]"
    using assms(4-7) newline_pieces_line [of l2 "[]"] newline_pieces_plain [of "[]"]
    by (auto simp: newline_pieces_plain)
  let ?r1 = "r\<lparr>tr_position := int (length (f @ l1)), tr_fail := False\<rparr>"
  have "plain_record ?r1" using assms(1) by (auto simp: plain_record_def)
  with one [of r f l1] one [of ?r1 "f @ l1" "l2 @ [CHR 0x0A]"] assms p show ?thesis by simp
qed

definition fresh_record :: "bool \<Rightarrow> (string \<Rightarrow> nat list) option \<Rightarrow> tail_record" where
  "fresh_record followOnly startmsg_regex =
     (case PointersTableInternalRecord True None ''t'' (TailSource ''/l'' None) startmsg_regex followOnly False (\<lambda>_. Inr 0) of
        Inr r \<Rightarrow> r)"

theorem newline_mode_splits_line_witness:
  "snd (snd (tail_run [Grow ''he'', Look, Grow (''llo'' @ [CHR 0x0A]), Look] [] (fresh_record False None))) = [''he'', ''llo'']"
  using newline_mode_splits_line [of "fresh_record False None" "[]" "''he''" "''llo''"]
  by (simp add: fresh_record_def PointersTableInternalRecord_def plain_record_def read_buffer_size_def)

text \<open>
  In follow-only mode a file that is empty when it is first looked at loses the first data
  written to it: nothing is handed over and the position moves past it.
\<close>
theorem follow_only_skips_first_data:
  assumes "tr_followOnly r" "\<not> tr_firstRead r" "tr_symlinkPath r = None" "tr_open r" "\<not> tr_fail r"
    and "tr_position r = 0" "g \<noteq> []"
  shows "tail_run [Look, Grow g, Look] [] r = (g, r\<lparr>tr_position := int (length g), tr_firstRead := True\<rparr>, [])"
proof -
  have "record_process (Some []) r = (r, [], saved_position r)"
    using assms by (simp add: record_process_def Let_def)
  moreover have "record_process (Some g) r = (r\<lparr>tr_position := int (length g), tr_firstRead := True\<rparr>, [], None)"
    using assms by (simp add: record_process_def Let_def)
  ultimately show ?thesis by simp
qed

theorem follow_only_skips_first_data_witness:
  "tail_run [Look, Grow ''#x'', Look] [] (fresh_record True None)
     = (''#x'', (fresh_record True None)\<lparr>tr_position := 2, tr_firstRead := True\<rparr>, [])"
  using follow_only_skips_first_data [of "fresh_record True None" "''#x''"]
  by (simp add: fresh_record_def PointersTableInternalRecord_def)

text \<open>
  When a file was truncated, what was buffered of its old content is put before its new
  content, and the position asked to be saved is behind the file's beginning when no message
  starts in the new content.
\<close>
theorem truncation_keeps_stale_buffer:
  assumes "plain_record r" "tr_regex r = Some matches" "matches f = []" "tr_saveState r"
    and "int (length f) < tr_position r" "f \<noteq> []" "length f \<le> read_buffer_size"
  shows "record_process (Some f) r =
      (r\<lparr>tr_position := int (length f), tr_buffer := tr_buffer r @ f\<rparr>, [], Some (- int (length (tr_buffer r))))"
proof -
  have "read_blocks (Some matches) f 0 (length f) (tr_buffer r) 0 = (tr_buffer r @ f, [], length f)"
    using assms by (subst read_blocks.simps)
      (simp add: Let_def processBuffer_def processBuffer_regex_def min_absorb2 read_blocks.simps)
  moreover have "\<not> (\<not> tr_firstRead r \<and> tr_followOnly r)" "tr_symlinkPath r = None" "tr_open r" "\<not> tr_fail r"
      "r\<lparr>tr_fail := False\<rparr> = r"
    using assms(1) by (auto simp: plain_record_def)
  ultimately show ?thesis
    using assms(2-) by (cases "tr_firstRead r") (auto simp: record_process_def Let_def saved_position_def)
qed

theorem truncation_keeps_stale_buffer_witness:
  "record_process (Some ''new'') ((fresh_record False (Some hash_matches))\<lparr>tr_saveState := True, tr_position := 7, tr_buffer := ''#old''\<rparr>)
     = ((fresh_record False (Some hash_matches))\<lparr>tr_saveState := True, tr_position := 3, tr_buffer := ''#oldnew''\<rparr>, [], Some (- 4))"
  using truncation_keeps_stale_buffer
    [of "(fresh_record False (Some hash_matches))\<lparr>tr_saveState := True, tr_position := 7, tr_buffer := ''#old''\<rparr>" hash_matches "''new''"]
  by (simp add: fresh_record_def PointersTableInternalRecord_def plain_record_def read_buffer_size_def hash_matches_def)

text \<open>
  The name of a saved position does not tell a slash from a hyphen, so the position stored for
  one file replaces that of the other, and the other starts from it after a restart.
\<close>
theorem saved_position_collision:
  assumes a: "a = c # x @ CHR ''/'' # y" and b: "b = c # x @ CHR ''-'' # y"
    and p: "- (2 ^ 63) \<le> p" "p < 2 ^ 63"
    and s: "sp_table s = []"
  shows "and_then (savePosition a q s) (\<lambda>s1. and_then (savePosition b p s1) (\<lambda>s2.
      and_then (save_init True s2) (getSavedPosition a))) = Inr p"
proof -
  have "map h (c_str (x @ CHR ''/'' # y)) = map h (c_str (x @ CHR ''-'' # y))"
    if "h (CHR ''/'') = h (CHR ''-'')" for h :: "char \<Rightarrow> char"
    using that by (induction x) (simp_all add: c_str_def)
  then have same: "getSavedPathByFileName a = getSavedPathByFileName b"
    using a b by (simp add: getSavedPathByFileName_def)
  obtain path where path: "getSavedPathByFileName b = Inr path"
    using b by (simp add: getSavedPathByFileName_def)
  let ?s2 = "s\<lparr>sp_files := AList.update path (position_bytes p) (AList.update path (position_bytes q) (sp_files s))\<rparr>"
  obtain s3 where s3: "save_init True ?s2 = Inr s3" by (auto simp: save_init_def)
  have "map_of (sp_table s3) path = Some p"
    using save_init_map [OF s3] s p position_roundtrip [of p] by (simp add: update_conv' getCurrentSavedPositionFromFile_def)
  with path same s3 show ?thesis by (simp add: savePosition_def getSavedPosition_def)
qed

theorem saved_position_collision_witness:
  "and_then (savePosition ''/var/log/a'' 5 empty_server) (\<lambda>s1. and_then (savePosition ''/var/log-a'' 9 s1) (\<lambda>s2.
      and_then (save_init True s2) (getSavedPosition ''/var/log/a''))) = Inr 9"
  by (rule saved_position_collision [of _ "CHR ''/''" "''var/log''" "''a''"]) (simp_all add: empty_server_def)

end
