(* ===== verification/IQ_Tail_Watch.thy ===== *)
theory IQ_Tail_Watch
  imports IQ_Formats
begin

text \<open>
  The inotify side of the tail inputs (src/inputs/tail/InotifyServer.cpp, Watch.cpp,
  WatchDescriptorsMap.cpp, Event.h): decoding of the kernel's event stream, the map of watches with
  its two unique indexes, and the watches that add watches for directories and links. The file
  system, the kernel's watch descriptors and the regular expressions are a record of functions.
\<close>

subsection \<open>Events\<close>

datatype event_type = EV_UNKNOWN | EV_INIT | EV_CREATE | EV_MODIFY | EV_MOVE | EV_DELETE

record event =
  ev_watchDescriptor :: int
  ev_eventType :: event_type
  ev_source :: tail_source

definition Event :: "int \<Rightarrow> event_type \<Rightarrow> tail_source \<Rightarrow> event" where
  "Event wd event source = \<lparr>ev_watchDescriptor = wd, ev_eventType = event, ev_source = source\<rparr>"

text \<open>
  A structure \<open>inotify_event\<close> in memory: descriptor, mask, cookie and length of the name, of four
  bytes each, least significant first, and the name with its padding. Its name is read as a C
  string, up to the end of the buffer when its length is zero.
\<close>

record raw_event =
  re_wd :: int
  re_mask :: nat
  re_name :: string

fun le_value :: "string \<Rightarrow> nat" where
  "le_value [] = 0"
| "le_value (c # cs) = byte c + 256 * le_value cs"

definition le_bytes :: "nat \<Rightarrow> nat \<Rightarrow> string" where
  "le_bytes n v = map (\<lambda>i. char_of (v div 256 ^ i mod 256)) [0..<n]"

definition int32_of :: "nat \<Rightarrow> int" where
  "int32_of v = (if v < 2 ^ 31 then int v else int v - 2 ^ 32)"

definition sizeof_inotify_event :: nat where
  "sizeof_inotify_event = 16"

definition raw_event_of :: "string \<Rightarrow> raw_event" where
  "raw_event_of buffer =
     \<lparr>re_wd = int32_of (le_value (take 4 buffer)), re_mask = le_value (take 4 (drop 4 buffer)),
      re_name = c_str (drop sizeof_inotify_event buffer)\<rparr>"

definition raw_event_len :: "string \<Rightarrow> nat" where
  "raw_event_len buffer = le_value (take 4 (drop 12 buffer))"

function pending_events :: "string \<Rightarrow> raw_event list \<times> string" where
  "pending_events buffer =
     (if length buffer < sizeof_inotify_event then ([], buffer)
      else
        (case pending_events (drop (sizeof_inotify_event + raw_event_len buffer) buffer) of
           (es, rest) \<Rightarrow> (raw_event_of buffer # es, rest)))"
  by pat_completeness auto
termination by (relation "measure length") (auto simp: sizeof_inotify_event_def)

declare pending_events.simps [simp del]

text \<open>Only masks of exactly one of these values make an event.\<close>

definition IN_MODIFY :: nat where "IN_MODIFY = 0x2"
definition IN_MOVED_FROM :: nat where "IN_MOVED_FROM = 0x40"
definition IN_MOVED_TO :: nat where "IN_MOVED_TO = 0x80"
definition IN_CREATE :: nat where "IN_CREATE = 0x100"
definition IN_DELETE :: nat where "IN_DELETE = 0x200"
definition IN_ISDIR :: nat where "IN_ISDIR = 0x40000000"

definition mask_event :: "nat \<Rightarrow> event_type option" where
  "mask_event msk =
     (if msk = IN_CREATE then Some EV_CREATE
      else if msk = IN_DELETE then Some EV_DELETE
      else if msk = IN_MOVED_FROM then Some EV_MOVE
      else if msk = IN_MOVED_TO then Some EV_CREATE
      else if msk = IN_CREATE + IN_ISDIR then Some EV_CREATE
      else if msk = IN_MODIFY then Some EV_MODIFY
      else None)"

definition dispatched :: "raw_event \<Rightarrow> event option" where
  "dispatched r = map_option (\<lambda>t. Event (re_wd r) t (TailSource (re_name r) None)) (mask_event (re_mask r))"

subsection \<open>The map of watches\<close>

text \<open>
  A notifier hands an event to the monitor it was made for; a watch behind a symbolic link has a
  notifier that first puts the link's name into the event's source.
\<close>

datatype notifier = ToMonitor nat | Relabel notifier string

primrec deliver :: "notifier \<Rightarrow> event \<Rightarrow> nat \<times> event" where
  "deliver (ToMonitor k) e = (k, e)"
| "deliver (Relabel n filename) e =
     deliver n (Event (ev_watchDescriptor e) (ev_eventType e) (TailSource (ts_filename (ev_source e)) (Some filename)))"

record watch =
  w_watchDescriptor :: int
  w_directory :: string
  w_pattern :: string
  w_regex :: "string \<Rightarrow> bool"
  w_notifier :: notifier

type_synonym watches = "watch list"

definition getWatchPath :: "watch \<Rightarrow> string \<times> string" where
  "getWatchPath w = (w_directory w, w_pattern w)"

definition findByWatchDescriptor :: "int \<Rightarrow> watches \<Rightarrow> watch option" where
  "findByWatchDescriptor wd ws = List.find (\<lambda>w. w_watchDescriptor w = wd) ws"

definition findByWatchPath :: "string \<Rightarrow> string \<Rightarrow> watches \<Rightarrow> watch option" where
  "findByWatchPath directory pattern ws = List.find (\<lambda>w. getWatchPath w = (directory, pattern)) ws"

text \<open>Both indexes are unique: an insertion that would break one of them does nothing.\<close>

definition map_addWatch :: "watch \<Rightarrow> watches \<Rightarrow> watches" where
  "map_addWatch w ws =
     (if findByWatchDescriptor (w_watchDescriptor w) ws = None \<and> findByWatchPath (w_directory w) (w_pattern w) ws = None
      then ws @ [w] else ws)"

definition map_removeWatch :: "watch \<Rightarrow> watches \<Rightarrow> watches" where
  "map_removeWatch w ws = filter (\<lambda>v. w_watchDescriptor v \<noteq> w_watchDescriptor w) ws"

definition watches_ok :: "watches \<Rightarrow> bool" where
  "watches_ok ws \<longleftrightarrow> distinct (map w_watchDescriptor ws) \<and> distinct (map getWatchPath ws)"

subsection \<open>Watching\<close>

text \<open>
  \<open>fs_is_directory\<close> follows links and may throw, \<open>fs_read_symlink\<close> is the target when the path is
  a link, \<open>fs_list\<close> are the names in a directory, \<open>fs_add_watch\<close> is the descriptor the kernel gives
  to a directory, the same whenever it is watched again, or \<open>-1\<close>, and \<open>fs_regex\<close> compiles a pattern.
\<close>

record watch_env =
  fs_is_directory :: "string \<Rightarrow> bool outcome"
  fs_read_symlink :: "string \<Rightarrow> string option outcome"
  fs_list :: "string \<Rightarrow> string list outcome"
  fs_add_watch :: "string \<Rightarrow> int"
  fs_regex :: "string \<Rightarrow> (string \<Rightarrow> bool) option"

definition parent_path :: "string \<Rightarrow> string" where
  "parent_path p =
     (let d = rev (dropWhile (\<lambda>c. c \<noteq> CHR ''/'') (rev p));
          d' = rev (dropWhile (\<lambda>c. c = CHR ''/'') (rev d))
      in if d' = [] then (if d = [] then [] else ''/'') else d')"

text \<open>The path of an entry of a directory, as the iterator over the directory gives it.\<close>

definition path_join :: "string \<Rightarrow> string \<Rightarrow> string" where
  "path_join d n = (if d = [] \<or> last d = CHR ''/'' then d @ n else d @ ''/'' @ n)"

definition makeWatchPath :: "watch_env \<Rightarrow> string \<Rightarrow> (string \<times> string) outcome" where
  "makeWatchPath F path =
     and_then (fs_is_directory F path) (\<lambda>d.
       Inr (if d then (path, path @ ''/(.*)'') else (parent_path path, path)))"

text \<open>
  The state is the map and what was delivered so far; a step ends in a state and perhaps an
  exception, or does not return.
\<close>

type_synonym watch_state = "watches \<times> (nat \<times> event) list"
type_synonym watch_result = "(watch_state \<times> exn_class option) option"
type_synonym watch_adder = "string \<Rightarrow> notifier \<Rightarrow> watch_state \<Rightarrow> watch_result"

definition w_then :: "watch_result \<Rightarrow> (watch_state \<Rightarrow> watch_result) \<Rightarrow> watch_result" where
  "w_then r k = (case r of None \<Rightarrow> None | Some (s, Some e) \<Rightarrow> Some (s, Some e) | Some (s, None) \<Rightarrow> k s)"

definition w_deliver :: "notifier \<Rightarrow> event \<Rightarrow> watch_state \<Rightarrow> watch_state" where
  "w_deliver n e s = (fst s, snd s @ [deliver n e])"

text \<open>\<open>Watch::notify\<close>; \<open>add\<close> is the server's \<open>addWatch\<close>.\<close>

definition watch_notify :: "watch_env \<Rightarrow> watch_adder \<Rightarrow> watch \<Rightarrow> event \<Rightarrow> watch_state \<Rightarrow> watch_result" where
  "watch_notify F add w e s =
     (let filename = w_directory w @ ''/'' @ ts_filename (ev_source e);
          e' = Event (ev_watchDescriptor e) (ev_eventType e) (TailSource filename None)
      in if w_regex w filename then
           (case fs_is_directory F filename of
              Inl x \<Rightarrow> Some (s, Some x)
            | Inr True \<Rightarrow> add filename (w_notifier w) s
            | Inr False \<Rightarrow>
                (case fs_read_symlink F filename of
                   Inl x \<Rightarrow> Some (s, Some x)
                 | Inr (Some linked) \<Rightarrow>
                     w_then (add linked (Relabel (w_notifier w) filename) s)
                       (\<lambda>s. Some (w_deliver (w_notifier w) e' s, None))
                 | Inr None \<Rightarrow> Some (w_deliver (w_notifier w) e' s, None)))
         else Some (s, None))"

definition server_notify :: "watch_env \<Rightarrow> watch_adder \<Rightarrow> int \<Rightarrow> event \<Rightarrow> watch_state \<Rightarrow> watch_result" where
  "server_notify F add wd e s =
     (case findByWatchDescriptor wd (fst s) of
        None \<Rightarrow> Some (s, None) | Some w \<Rightarrow> watch_notify F add w e s)"

text \<open>The entries of a new watch's directory.\<close>

fun scan_entries :: "watch_env \<Rightarrow> watch_adder \<Rightarrow> int \<Rightarrow> string \<Rightarrow> (string \<Rightarrow> bool) \<Rightarrow> notifier \<Rightarrow> string list
    \<Rightarrow> watch_state \<Rightarrow> watch_result" where
  "scan_entries F add wd directory rx n [] s = Some (s, None)"
| "scan_entries F add wd directory rx n (p # ps) s =
     (let filename = path_join directory p;
          init = server_notify F add wd (Event wd EV_INIT (TailSource p None))
      in w_then
           (if rx filename then
              (case fs_is_directory F filename of
                 Inl x \<Rightarrow> Some (s, Some x)
               | Inr True \<Rightarrow> add filename n s
               | Inr False \<Rightarrow>
                   (case fs_read_symlink F filename of
                      Inl x \<Rightarrow> Some (s, Some x)
                    | Inr (Some linked) \<Rightarrow> w_then (add linked (Relabel n filename) s) init
                    | Inr None \<Rightarrow> init s))
            else Some (s, None))
           (scan_entries F add wd directory rx n ps))"

definition caught_filesystem :: "watch_result \<Rightarrow> watch_result" where
  "caught_filesystem r =
     (case r of
        Some (s, Some e) \<Rightarrow> Some (s, if catches FilesystemError e then None else Some e)
      | _ \<Rightarrow> r)"

text \<open>\<open>addWatch\<close>, with a bound on the depth of directories and links in each other.\<close>

fun addWatch :: "nat \<Rightarrow> watch_env \<Rightarrow> string \<Rightarrow> notifier \<Rightarrow> watch_state \<Rightarrow> watch_result" where
  "addWatch 0 F path n s = None"
| "addWatch (Suc depth) F path n s =
     (case makeWatchPath F path of
        Inl e \<Rightarrow> Some (s, Some e)
      | Inr (directory, pattern) \<Rightarrow>
          (let wd = fs_add_watch F directory
           in if wd = -1 then Some (s, None)
              else
                (case fs_regex F pattern of
                   None \<Rightarrow> Some (s, Some RegexError)
                 | Some rx \<Rightarrow>
                     (let w = \<lparr>w_watchDescriptor = wd, w_directory = directory, w_pattern = pattern,
                               w_regex = rx, w_notifier = n\<rparr>;
                          s1 = (map_addWatch w (fst s), snd s)
                      in caught_filesystem
                           (case fs_list F directory of
                              Inl e \<Rightarrow> Some (s1, Some e)
                            | Inr entries \<Rightarrow> scan_entries F (addWatch depth F) wd directory rx n entries s1)))))"

text \<open>\<open>removeWatch\<close>; what the kernel answers to the removal is only logged.\<close>

definition removeWatch :: "watch_env \<Rightarrow> string \<Rightarrow> watches \<Rightarrow> watches outcome" where
  "removeWatch F path ws =
     and_then (makeWatchPath F path) (\<lambda>(directory, pattern).
       Inr (case findByWatchPath directory pattern ws of None \<Rightarrow> ws | Some w \<Rightarrow> map_removeWatch w ws))"

subsection \<open>The reader\<close>

fun notify_all :: "nat \<Rightarrow> watch_env \<Rightarrow> raw_event list \<Rightarrow> watch_state \<Rightarrow> watch_result" where
  "notify_all depth F [] s = Some (s, None)"
| "notify_all depth F (r # rs) s =
     w_then
       (case dispatched r of
          None \<Rightarrow> Some (s, None) | Some e \<Rightarrow> server_notify F (addWatch depth F) (re_wd r) e s)
       (notify_all depth F rs)"

text \<open>
  A completed read. After an error nothing is read again: the last component tells whether the next
  read is begun. An exception ends the thread and leaves the buffer behind.
\<close>

datatype read_error = ReadOk | ReadAborted | ReadFailed

definition end_read :: "nat \<Rightarrow> watch_env \<Rightarrow> read_error \<Rightarrow> string \<Rightarrow> string \<times> watch_state
    \<Rightarrow> ((string \<times> watch_state) \<times> bool) outcome option" where
  "end_read depth F ec received st =
     (case st of (pending, s) \<Rightarrow>
        (case ec of
           ReadOk \<Rightarrow>
             (case pending_events (pending @ received) of (es, rest) \<Rightarrow>
                (case notify_all depth F es s of
                   None \<Rightarrow> None
                 | Some (s', Some e) \<Rightarrow> Some (Inl e)
                 | Some (s', None) \<Rightarrow> Some (Inr ((rest, s'), True))))
         | _ \<Rightarrow> Some (Inr ((pending, s), False))))"

subsection \<open>The kernel's stream\<close>

text \<open>An event as the kernel writes it: a name is padded with at least one NUL.\<close>

record kernel_event =
  ke_wd :: nat
  ke_mask :: nat
  ke_cookie :: nat
  ke_name :: string
  ke_pad :: nat

definition kernel_bytes :: "kernel_event \<Rightarrow> string" where
  "kernel_bytes e =
     le_bytes 4 (ke_wd e) @ le_bytes 4 (ke_mask e) @ le_bytes 4 (ke_cookie e)
     @ le_bytes 4 (length (ke_name e) + ke_pad e) @ ke_name e @ replicate (ke_pad e) (CHR 0x00)"

definition kernel_event_ok :: "kernel_event \<Rightarrow> bool" where
  "kernel_event_ok e \<longleftrightarrow>
     ke_wd e < 2 ^ 31 \<and> ke_mask e < 2 ^ 32 \<and> length (ke_name e) + ke_pad e < 2 ^ 32
     \<and> CHR 0x00 \<notin> set (ke_name e) \<and> 0 < ke_pad e"

definition raw_of_kernel :: "kernel_event \<Rightarrow> raw_event" where
  "raw_of_kernel e = \<lparr>re_wd = int (ke_wd e), re_mask = ke_mask e, re_name = ke_name e\<rparr>"

lemma le_bytes_length [simp]: "length (le_bytes n v) = n"
  by (simp add: le_bytes_def)

lemma le_value_digits: "le_value (map (\<lambda>i. char_of (v div 256 ^ i mod 256)) [k..<k + n]) = v div 256 ^ k mod 256 ^ n"
proof (induction n arbitrary: k)
  case (Suc n)
  have "le_value (map (\<lambda>i. char_of (v div 256 ^ i mod 256)) [k..<k + Suc n])
      = v div 256 ^ k mod 256 + 256 * (v div 256 ^ Suc k mod 256 ^ n)"
    using Suc.IH [of "Suc k"] by (simp add: upt_conv_Cons of_char_of del: upt_Suc)
  also have "v div 256 ^ Suc k = v div 256 ^ k div 256" by (metis div_mult2_eq mult.commute power_Suc)
  also have "v div 256 ^ k mod 256 + 256 * (v div 256 ^ k div 256 mod 256 ^ n) = v div 256 ^ k mod 256 ^ Suc n"
    by (simp add: mod_mult2_eq)
  finally show ?case .
qed simp

lemma le_roundtrip: "v < 256 ^ n \<Longrightarrow> le_value (le_bytes n v) = v"
  using le_value_digits [of v 0 n] by (simp add: le_bytes_def)

lemma kernel_event_fields:
  assumes "kernel_event_ok e"
  shows "raw_event_of (kernel_bytes e @ rest) = raw_of_kernel e"
    "sizeof_inotify_event + raw_event_len (kernel_bytes e @ rest) = length (kernel_bytes e)"
proof -
  note ok = assms [unfolded kernel_event_ok_def]
  let ?n = "length (ke_name e) + ke_pad e"
  obtain pad where pad: "replicate (ke_pad e) (CHR 0x00) = CHR 0x00 # pad"
    using ok by (cases "ke_pad e") auto
  have name: "c_str (ke_name e @ CHR 0x00 # r) = ke_name e" for r
    using ok by (simp add: c_str_def takeWhile_until del: takeWhile_append)
  have v: "le_value (le_bytes 4 (ke_wd e)) = ke_wd e" "le_value (le_bytes 4 (ke_mask e)) = ke_mask e"
      "le_value (le_bytes 4 ?n) = ?n"
    using ok by (simp_all add: le_roundtrip)
  have b: "kernel_bytes e @ rest = le_bytes 4 (ke_wd e) @ le_bytes 4 (ke_mask e) @ le_bytes 4 (ke_cookie e)
      @ le_bytes 4 ?n @ ke_name e @ CHR 0x00 # (pad @ rest)"
    by (simp add: kernel_bytes_def pad)
  show "raw_event_of (kernel_bytes e @ rest) = raw_of_kernel e"
    using ok unfolding b by (simp add: raw_event_of_def raw_of_kernel_def sizeof_inotify_event_def v name int32_of_def)
  show "sizeof_inotify_event + raw_event_len (kernel_bytes e @ rest) = length (kernel_bytes e)"
    unfolding b by (simp add: raw_event_len_def sizeof_inotify_event_def v kernel_bytes_def)
qed

lemma kernel_bytes_long: "sizeof_inotify_event \<le> length (kernel_bytes e)"
  by (simp add: kernel_bytes_def sizeof_inotify_event_def)

lemma pending_events_decode:
  assumes "list_all kernel_event_ok es"
  shows "pending_events (concat (map kernel_bytes es)) = (map raw_of_kernel es, [])"
  using assms
proof (induction es)
  case Nil
  show ?case by (subst pending_events.simps) (simp add: sizeof_inotify_event_def)
next
  case (Cons e es)
  then show ?case
    using kernel_event_fields [of e "concat (map kernel_bytes es)"] kernel_bytes_long [of e]
    by (subst pending_events.simps) (simp add: not_less)
qed

subsection \<open>The unique indexes\<close>

lemma find_none: "List.find P xs = None \<longleftrightarrow> (\<forall>x \<in> set xs. \<not> P x)"
  by (induction xs) auto

lemma watches_ok_add: "watches_ok ws \<Longrightarrow> watches_ok (map_addWatch w ws)"
  by (auto simp: watches_ok_def map_addWatch_def findByWatchDescriptor_def findByWatchPath_def find_none getWatchPath_def)

lemma watches_ok_remove: "watches_ok ws \<Longrightarrow> watches_ok (map_removeWatch w ws)"
  by (auto simp: watches_ok_def map_removeWatch_def distinct_map inj_on_def)

text \<open>A property of the map that adding a watch keeps is kept by everything the server does.\<close>

definition keeps :: "(watches \<Rightarrow> bool) \<Rightarrow> (watch_state \<Rightarrow> watch_result) \<Rightarrow> bool" where
  "keeps P f \<longleftrightarrow> (\<forall>s s' e. P (fst s) \<longrightarrow> f s = Some (s', e) \<longrightarrow> P (fst s'))"

lemma keepsD: "keeps P f \<Longrightarrow> f s = Some (s', e) \<Longrightarrow> P (fst s) \<Longrightarrow> P (fst s')"
  unfolding keeps_def by blast

lemma keepsI: "(\<And>s s' e. P (fst s) \<Longrightarrow> f s = Some (s', e) \<Longrightarrow> P (fst s')) \<Longrightarrow> keeps P f"
  unfolding keeps_def by blast

lemma bool_outcome_cases:
  obtains (Throws) e where "x = Inl e" | (Yes) "x = Inr True" | (No) "x = Inr False"
  by (cases x) auto

lemma option_outcome_cases:
  obtains (Throws) e where "x = Inl e" | (Without) "x = Inr None" | (With) a where "x = Inr (Some a)"
  by (cases x) auto

lemma keeps_same: "keeps P (\<lambda>s. Some (s, x))"
  by (simp add: keeps_def)

lemma keeps_deliver: "keeps P (\<lambda>s. Some (w_deliver n e s, None))"
  by (simp add: keeps_def w_deliver_def)

lemma keeps_then:
  assumes "keeps P f" "keeps P g"
  shows "keeps P (\<lambda>s. w_then (f s) g)"
proof (rule keepsI)
  fix s s' e
  assume s: "P (fst s)" and r: "w_then (f s) g = Some (s', e)"
  then obtain s1 e1 where f: "f s = Some (s1, e1)" by (auto simp: w_then_def split: option.splits)
  have "P (fst s1)" by (rule keepsD [OF assms(1) f s])
  with r f show "P (fst s')" using keepsD [OF assms(2)] by (auto simp: w_then_def split: option.splits)
qed

lemma watch_notify_keeps:
  assumes "\<And>p n. keeps P (add p n)"
  shows "keeps P (watch_notify F add w e)"
proof -
  let ?f = "w_directory w @ ''/'' @ ts_filename (ev_source e)"
  let ?e = "Event (ev_watchDescriptor e) (ev_eventType e) (TailSource ?f None)"
  have l: "keeps P (\<lambda>s. w_then (add linked (Relabel (w_notifier w) ?f) s) (\<lambda>s. Some (w_deliver (w_notifier w) ?e s, None)))"
    for linked by (rule keeps_then [OF assms keeps_deliver])
  have e: "watch_notify F add w e =
     (\<lambda>s. if w_regex w ?f then
           (case fs_is_directory F ?f of
              Inl x \<Rightarrow> Some (s, Some x)
            | Inr True \<Rightarrow> add ?f (w_notifier w) s
            | Inr False \<Rightarrow>
                (case fs_read_symlink F ?f of
                   Inl x \<Rightarrow> Some (s, Some x)
                 | Inr (Some linked) \<Rightarrow>
                     w_then (add linked (Relabel (w_notifier w) ?f) s)
                       (\<lambda>s. Some (w_deliver (w_notifier w) ?e s, None))
                 | Inr None \<Rightarrow> Some (w_deliver (w_notifier w) ?e s, None)))
         else Some (s, None))"
    by (rule ext) (simp only: watch_notify_def Let_def)
  show ?thesis
    unfolding e
    using l assms
    by (cases "w_regex w ?f"; cases "fs_is_directory F ?f" rule: bool_outcome_cases;
        cases "fs_read_symlink F ?f" rule: option_outcome_cases)
      (simp_all add: keeps_same keeps_deliver)
qed

lemma server_notify_keeps:
  assumes "\<And>p n. keeps P (add p n)"
  shows "keeps P (server_notify F add wd e)"
proof (rule keepsI)
  fix s s' x
  assume s: "P (fst s)" and r: "server_notify F add wd e s = Some (s', x)"
  show "P (fst s')"
    using r s keepsD [OF watch_notify_keeps [OF assms]]
    by (cases "findByWatchDescriptor wd (fst s)") (auto simp: server_notify_def)
qed

lemma scan_entries_keeps:
  assumes "\<And>p n. keeps P (add p n)"
  shows "keeps P (scan_entries F add wd directory rx n ps)"
proof (induction ps)
  case (Cons p ps)
  let ?f = "path_join directory p"
  let ?init = "server_notify F add wd (Event wd EV_INIT (TailSource p None))"
  have 1: "keeps P ?init" by (rule server_notify_keeps [OF assms])
  have 2: "keeps P (\<lambda>s. w_then (add linked m s) ?init)" for linked m by (rule keeps_then [OF assms 1])
  have "keeps P (\<lambda>s. if rx ?f then
              (case fs_is_directory F ?f of
                 Inl x \<Rightarrow> Some (s, Some x)
               | Inr True \<Rightarrow> add ?f n s
               | Inr False \<Rightarrow>
                   (case fs_read_symlink F ?f of
                      Inl x \<Rightarrow> Some (s, Some x)
                    | Inr (Some linked) \<Rightarrow> w_then (add linked (Relabel n ?f) s) ?init
                    | Inr None \<Rightarrow> ?init s))
            else Some (s, None))"
    using 1 2 assms
    by (cases "rx ?f"; cases "fs_is_directory F ?f" rule: bool_outcome_cases;
        cases "fs_read_symlink F ?f" rule: option_outcome_cases)
      (simp_all add: keeps_same)
  from keeps_then [OF this Cons.IH] show ?case by (simp add: Let_def keeps_def)
qed (simp add: keeps_same)

lemma caught_keeps:
  assumes "keeps P f"
  shows "keeps P (\<lambda>s. caught_filesystem (f s))"
proof (rule keepsI)
  fix s s' e
  assume s: "P (fst s)" and r: "caught_filesystem (f s) = Some (s', e)"
  then obtain e' where "f s = Some (s', e')"
    by (auto simp: caught_filesystem_def split: option.splits)
  from keepsD [OF assms this s] show "P (fst s')" .
qed

lemma addWatch_keeps:
  assumes "\<And>w ws. P ws \<Longrightarrow> P (map_addWatch w ws)"
  shows "keeps P (addWatch depth F path n)"
proof (induction depth arbitrary: path n)
  case (Suc depth)
  have sc: "keeps P (\<lambda>s. caught_filesystem (case fs_list F directory of Inl e \<Rightarrow> Some (s, Some e)
      | Inr entries \<Rightarrow> scan_entries F (addWatch depth F) wd directory rx n entries s))" for directory wd rx
    using scan_entries_keeps [OF Suc.IH]
    by (intro caught_keeps) (cases "fs_list F directory"; simp add: keeps_same)
  show ?case
  proof (unfold keeps_def, intro allI impI)
    fix s s' e
    assume s: "P (fst s)" and r: "addWatch (Suc depth) F path n s = Some (s', e)"
    show "P (fst s')"
    proof (cases "makeWatchPath F path")
      case (Inr dp)
      obtain directory pattern where dp: "dp = (directory, pattern)" by (cases dp)
      show ?thesis
      proof (cases "fs_regex F pattern")
        case (Some rx)
        with r s Inr dp keepsD [OF sc [where directory = directory and wd = "fs_add_watch F directory" and rx = rx]] assms show ?thesis
          by (auto simp: Let_def split: if_splits)
      qed (use r s Inr dp in \<open>auto simp: Let_def split: if_splits\<close>)
    qed (use r s in simp)
  qed
qed (simp add: keeps_def)

lemma notify_all_keeps:
  assumes "\<And>w ws. P ws \<Longrightarrow> P (map_addWatch w ws)"
  shows "keeps P (notify_all depth F rs)"
proof (induction rs)
  case (Cons r rs)
  have "keeps P (\<lambda>s. case dispatched r of
          None \<Rightarrow> Some (s, None) | Some e \<Rightarrow> server_notify F (addWatch depth F) (re_wd r) e s)"
    using server_notify_keeps [of P "addWatch depth F", OF addWatch_keeps, OF assms]
    by (cases "dispatched r") (simp_all add: keeps_same)
  from keeps_then [OF this Cons.IH] show ?case by (simp add: keeps_def)
qed (simp add: keeps_same)

subsection \<open>What the watches do\<close>

text \<open>
  Everything the kernel sends is seen by at most one watch and every path is watched at most
  once: a read, with all watches it adds, keeps descriptors and paths of the map unique.
\<close>

theorem watches_stay_unique:
  assumes "watches_ok (fst s)" "end_read depth F ec received (pending, s) = Some (Inr ((pending', s'), again))"
  shows "watches_ok (fst s')"
proof -
  have k: "keeps watches_ok (notify_all depth F rs)" for rs
    by (rule notify_all_keeps) (rule watches_ok_add)
  obtain es rest where p: "pending_events (pending @ received) = (es, rest)" by fastforce
  from assms(2) p keepsD [OF k, of es s] assms(1) show ?thesis
    by (auto simp: end_read_def split: read_error.splits option.splits)
qed

definition flat_env :: "string list \<Rightarrow> watch_env" where
  "flat_env names =
     \<lparr>fs_is_directory = (\<lambda>p. Inr (p = ''/log'')), fs_read_symlink = (\<lambda>_. Inr None),
      fs_list = (\<lambda>_. Inr names), fs_add_watch = (\<lambda>_. 1), fs_regex = (\<lambda>p. Some (\<lambda>f. f = p))\<rparr>"

definition file_watch :: "string \<Rightarrow> nat \<Rightarrow> watch" where
  "file_watch path k = \<lparr>w_watchDescriptor = 1, w_directory = ''/log'', w_pattern = path,
     w_regex = (\<lambda>f. f = path), w_notifier = ToMonitor k\<rparr>"

theorem watches_stay_unique_witness:
  "watches_ok [file_watch ''/log/a'' 0]"
proof -
  have "end_read 1 (flat_env []) ReadAborted [] ([], [file_watch ''/log/a'' 0], []) =
      Some (Inr (([], [file_watch ''/log/a'' 0], []), False))"
    by (simp add: end_read_def)
  from watches_stay_unique [OF _ this] show ?thesis by (simp add: watches_ok_def)
qed



text \<open>The monitor a notifier hands to.\<close>

primrec notified :: "notifier \<Rightarrow> nat" where
  "notified (ToMonitor k) = k"
| "notified (Relabel n _) = notified n"

lemma fst_deliver: "fst (deliver n e) = notified n"
  by (induction n arbitrary: e) auto

lemma scan_entries_first_watch:
  assumes "findByWatchDescriptor wd ws = Some w"
    and "list_all (\<lambda>p. fs_is_directory F (path_join directory p) = Inr False
        \<and> fs_read_symlink F (path_join directory p) = Inr None
        \<and> fs_is_directory F (w_directory w @ ''/'' @ p) = Inr False
        \<and> fs_read_symlink F (w_directory w @ ''/'' @ p) = Inr None) ps"
  shows "\<exists>new. scan_entries F add wd directory rx n ps (ws, out) = Some ((ws, out @ new), None)
    \<and> list_all (\<lambda>x. fst x = notified (w_notifier w)) new"
  using assms(2)
proof (induction ps arbitrary: out)
  case (Cons p ps)
  have one: "\<exists>new. server_notify F add wd (Event wd EV_INIT (TailSource p None)) (ws, out) = Some ((ws, out @ new), None)
      \<and> list_all (\<lambda>x. fst x = notified (w_notifier w)) new"
    using assms(1) Cons.prems
    by (auto simp: server_notify_def watch_notify_def Let_def Event_def TailSource_def w_deliver_def fst_deliver)
  then obtain new where n: "server_notify F add wd (Event wd EV_INIT (TailSource p None)) (ws, out) = Some ((ws, out @ new), None)"
      "list_all (\<lambda>x. fst x = notified (w_notifier w)) new" by blast
  show ?case
  proof (cases "rx (path_join directory p)")
    case True
    obtain new2 where "scan_entries F add wd directory rx n ps (ws, out @ new) = Some ((ws, (out @ new) @ new2), None)"
        "list_all (\<lambda>x. fst x = notified (w_notifier w)) new2"
      using Cons.IH [of "out @ new"] Cons.prems by auto
    with True n Cons.prems show ?thesis
      by (intro exI [of _ "new @ new2"]) (simp add: Let_def w_then_def)
  next
    case False
    with Cons.IH [of out] Cons.prems show ?thesis by (simp add: Let_def w_then_def)
  qed
qed simp

text \<open>
  Of two inputs that tail files of one directory the second gets nothing: the kernel gives the
  directory the descriptor it has already, the map ignores the second watch, and the files found
  at once, like every later event of the descriptor, go to the first input or nowhere.
\<close>

theorem second_watch_ignored:
  assumes "findByWatchDescriptor wd ws = Some w"
    and "makeWatchPath F path = Inr (directory, pattern)" "fs_add_watch F directory = wd" "wd \<noteq> -1"
    and "fs_regex F pattern = Some rx" "fs_list F directory = Inr entries"
    and "list_all (\<lambda>p. fs_is_directory F (path_join directory p) = Inr False
        \<and> fs_read_symlink F (path_join directory p) = Inr None
        \<and> fs_is_directory F (w_directory w @ ''/'' @ p) = Inr False
        \<and> fs_read_symlink F (w_directory w @ ''/'' @ p) = Inr None) entries"
  shows "\<exists>new. addWatch (Suc depth) F path n (ws, out) = Some ((ws, out @ new), None)
    \<and> list_all (\<lambda>x. fst x = notified (w_notifier w)) new"
proof -
  let ?w = "\<lparr>w_watchDescriptor = wd, w_directory = directory, w_pattern = pattern, w_regex = rx, w_notifier = n\<rparr>"
  have "map_addWatch ?w ws = ws" using assms(1) by (simp add: map_addWatch_def)
  moreover obtain new where "scan_entries F (addWatch depth F) wd directory rx n entries (ws, out) = Some ((ws, out @ new), None)"
      "list_all (\<lambda>x. fst x = notified (w_notifier w)) new"
    using scan_entries_first_watch [OF assms(1,7)] by blast
  ultimately show ?thesis
    using assms(2-6) by (auto simp: Let_def caught_filesystem_def)
qed

theorem second_watch_ignored_witness:
  "\<exists>new. addWatch 1 (flat_env [''a'', ''b'']) ''/log/b'' (ToMonitor 2) ([file_watch ''/log/a'' 1], [])
      = Some (([file_watch ''/log/a'' 1], [] @ new), None)
    \<and> list_all (\<lambda>x. fst x = notified (w_notifier (file_watch ''/log/a'' 1))) new"
proof -
  have m: "makeWatchPath (flat_env [''a'', ''b'']) ''/log/b'' = Inr (''/log'', ''/log/b'')"
    by (simp add: makeWatchPath_def flat_env_def parent_path_def Let_def)
  have f: "findByWatchDescriptor 1 [file_watch ''/log/a'' 1] = Some (file_watch ''/log/a'' 1)"
    by (simp add: findByWatchDescriptor_def file_watch_def)
  show ?thesis
    using second_watch_ignored [OF f m, of "\<lambda>f. f = ''/log/b''" "[''a'', ''b'']" 0 "ToMonitor 2" "[]"]
    by (simp add: flat_env_def path_join_def file_watch_def)
qed

text \<open>
  The watch of a file right under the root compares its path to names with two slashes, so it
  never notifies.
\<close>

lemma root_file_never_notified:
  assumes "w_directory w = ''/''" "w_regex w = (\<lambda>f. f = CHR ''/'' # c # name)" "c \<noteq> CHR ''/''"
  shows "watch_notify F add w e s = Some (s, None)"
  using assms by (auto simp: watch_notify_def Let_def)

end
