(* ===== verification/IQ_Tail_Monitor.thy ===== *)
theory IQ_Tail_Monitor
  imports IQ_Tail_Record IQ_Tail_Watch IQ_Gelf_Chunk IQ_Config
begin

text \<open>
  The monitor of a tail input (src/inputs/tail/TailMonitor.cpp): the table of tailed files and what
  the events of the watches do to it; and the tail input itself (src/inputs/tail/TailInput.cpp). What
  the file system shows at an event is a record of functions.
\<close>

subsection \<open>State\<close>

text \<open>An entry of the table is a shared pointer, which is null when its record could not be made.\<close>

record tail_monitor =
  tm_name :: string
  tm_regex :: "(string \<Rightarrow> nat list) option"
  tm_followOnly :: bool
  tm_saveState :: bool
  tm_table :: "(string \<times> tail_record option) list"

record tail_world =
  tw_server :: save_server
  tw_watches :: watches
  tw_out :: "(string, tail_source) in_record list"

type_synonym tail_state = "tail_monitor \<times> tail_world"
type_synonym tail_result = "(tail_state \<times> unit run_result) option"

text \<open>The name a descriptor has now is the target of a link of the process, where that is not empty.\<close>

definition getCurrentFileName :: "(string \<Rightarrow> string outcome) \<Rightarrow> nat \<Rightarrow> tail_source \<Rightarrow> string outcome" where
  "getCurrentFileName read_symlink fd source =
     and_then (read_symlink (''/proc/self/fd/'' @ to_string fd)) (\<lambda>path.
       Inr (if path \<noteq> [] then path else ts_filename source))"

text \<open>
  \<open>te_content\<close> is what the descriptor of the record filed under a name sees, \<open>te_current\<close> the name its
  file has now (\<open>getCurrentFileName\<close> of its descriptor).
\<close>

record tail_env =
  te_opens :: "string \<Rightarrow> bool"
  te_symlink :: "string \<Rightarrow> string option"
  te_content :: "string \<Rightarrow> string option"
  te_current :: "string \<Rightarrow> string outcome"
  te_watch :: watch_env

definition t_return :: "tail_state \<Rightarrow> tail_result" where
  "t_return s = Some (s, Returned ())"

text \<open>What a record made is enqueued under the monitor's name and the record's source, then the position is stored.\<close>

definition record_effects :: "string \<Rightarrow> tail_monitor \<Rightarrow> tail_world \<Rightarrow> tail_record \<times> string list \<times> int option \<Rightarrow> tail_result" where
  "record_effects filename m w r =
     (case r of (rec, ms, sv) \<Rightarrow>
        (let m' = m\<lparr>tm_table := AList.update filename (Some rec) (tm_table m)\<rparr>;
             w1 = w\<lparr>tw_out := tw_out w @ map (\<lambda>d. Record (tr_name rec) d (tr_source rec)) ms\<rparr>
         in case store_position rec sv (tw_server w) of
              Inl e \<Rightarrow> Some ((m', w1), Threw e)
            | Inr srv \<Rightarrow> t_return (m', w1\<lparr>tw_server := srv\<rparr>)))"

definition createRecord :: "tail_env \<Rightarrow> tail_source \<Rightarrow> tail_state \<Rightarrow> tail_record outcome" where
  "createRecord E source s =
     (case s of (m, w) \<Rightarrow>
        PointersTableInternalRecord (te_opens E (ts_filename source)) (te_symlink E (ts_filename source)) (tm_name m)
          source (tm_regex m) (tm_followOnly m) (tm_saveState m) (\<lambda>n. getSavedPosition n (tw_server w)))"

text \<open>The accessor has inserted a null pointer when the record is made.\<close>

definition insert_record :: "tail_env \<Rightarrow> tail_source \<Rightarrow> tail_state \<Rightarrow> tail_result" where
  "insert_record E source s =
     (case s of (m, w) \<Rightarrow>
        (let filename = ts_filename source; put = (\<lambda>r. m\<lparr>tm_table := AList.update filename r (tm_table m)\<rparr>)
         in case map_of (tm_table m) filename of
              Some _ \<Rightarrow> t_return s
            | None \<Rightarrow>
                (case createRecord E source s of
                   Inl e \<Rightarrow> Some ((put None, w), Threw e)
                 | Inr rec \<Rightarrow> t_return (put (Some rec), w))))"

definition process_entry :: "tail_env \<Rightarrow> string \<Rightarrow> tail_state \<Rightarrow> tail_result" where
  "process_entry E filename s =
     (case s of (m, w) \<Rightarrow>
        (case map_of (tm_table m) filename of
           Some (Some rec) \<Rightarrow> record_effects filename m w (record_process (te_content E filename) rec)
         | _ \<Rightarrow> Some (s, Aborted)))"

definition modify :: "tail_env \<Rightarrow> tail_source \<Rightarrow> tail_state \<Rightarrow> tail_result" where
  "modify E source s = run_then (insert_record E source s) (\<lambda>s _. process_entry E (ts_filename source) s)"

definition create :: "tail_env \<Rightarrow> tail_source \<Rightarrow> tail_state \<Rightarrow> tail_result" where
  "create E source s = modify E source s"

definition move :: "tail_env \<Rightarrow> tail_source \<Rightarrow> tail_state \<Rightarrow> tail_result" where
  "move E source s =
     (case s of (m, w) \<Rightarrow>
        (let filename = ts_filename source
         in case map_of (tm_table m) filename of
              None \<Rightarrow> t_return s
            | Some None \<Rightarrow> Some (s, Aborted)
            | Some (Some rec) \<Rightarrow>
                (case te_current E filename of
                   Inl e \<Rightarrow> Some (s, Threw e)
                 | Inr path \<Rightarrow>
                     (let newFilename = (if path \<noteq> [] then path else ts_filename (tr_source rec))
                      in if newFilename \<noteq> filename then
                           (let rec' = record_rename newFilename rec;
                                t1 = (if map_of (tm_table m) newFilename = None
                                      then AList.update newFilename (Some rec') (tm_table m) else tm_table m)
                            in t_return (m\<lparr>tm_table := AList.delete filename t1\<rparr>, w))
                         else t_return s))))"

definition remove :: "tail_env \<Rightarrow> tail_source \<Rightarrow> tail_state \<Rightarrow> tail_result" where
  "remove E source s =
     (case s of (m, w) \<Rightarrow>
        (let filename = ts_filename source
         in case map_of (tm_table m) filename of
              None \<Rightarrow> t_return s
            | Some None \<Rightarrow> Some (s, Aborted)
            | Some (Some rec) \<Rightarrow>
                (let m' = m\<lparr>tm_table := AList.delete filename (tm_table m)\<rparr>
                 in case erasePosition filename (tw_server w) of
                      Inl e \<Rightarrow> Some ((m', w), Threw e)
                    | Inr srv \<Rightarrow>
                        (let w1 = w\<lparr>tw_server := srv\<rparr>
                         in case tr_symlinkPath rec of
                              None \<Rightarrow> t_return (m', w1)
                            | Some path \<Rightarrow>
                                (case removeWatch (te_watch E) path (tw_watches w) of
                                   Inl e \<Rightarrow> Some ((m', w1), Threw e)
                                 | Inr ws \<Rightarrow> t_return (m', w1\<lparr>tw_watches := ws\<rparr>))))))"

definition handle_event :: "tail_env \<Rightarrow> event \<Rightarrow> tail_state \<Rightarrow> tail_result" where
  "handle_event E e s =
     (case ev_eventType e of
        EV_INIT \<Rightarrow> create E (ev_source e) s
      | EV_CREATE \<Rightarrow> create E (ev_source e) s
      | EV_MODIFY \<Rightarrow> modify E (ev_source e) s
      | EV_MOVE \<Rightarrow> move E (ev_source e) s
      | EV_DELETE \<Rightarrow> remove E (ev_source e) s
      | EV_UNKNOWN \<Rightarrow> t_return s)"

text \<open>The events of one bulk; an exception leaves the rest of the bulk behind.\<close>

fun handle_events :: "(event \<times> tail_env) list \<Rightarrow> tail_state \<Rightarrow> tail_result" where
  "handle_events [] s = t_return s"
| "handle_events ((e, E) # es) s = run_then (handle_event E e s) (\<lambda>s _. handle_events es s)"

text \<open>One run: a bulk of events is taken and handled; the number of events is the result.\<close>

definition monitor_run :: "('q, event) cq_lib \<Rightarrow> (nat \<Rightarrow> tail_env) \<Rightarrow> 'q message_queue \<Rightarrow> tail_state
    \<Rightarrow> 'q message_queue \<times> (tail_state \<times> nat run_result) option" where
  "monitor_run L envs q s =
     (case mq_try_dequeue_bulk L q max_queue_bulk_size of (q', es) \<Rightarrow>
        (q', run_then (handle_events (zip es (map envs [0..<length es])) s)
               (\<lambda>s _. Some (s, Returned (length es)))))"

definition flush_entry :: "string \<Rightarrow> tail_state \<Rightarrow> tail_result" where
  "flush_entry k s =
     (case s of (m, w) \<Rightarrow>
        (case map_of (tm_table m) k of
           None \<Rightarrow> t_return s
         | Some None \<Rightarrow> Some (s, Aborted)
         | Some (Some rec) \<Rightarrow> record_effects k m w (record_flush rec)))"

fun flush_all :: "string list \<Rightarrow> tail_state \<Rightarrow> tail_result" where
  "flush_all [] s = t_return s"
| "flush_all (k # ks) s = run_then (flush_entry k s) (\<lambda>s _. flush_all ks s)"

definition monitor_flush :: "tail_state \<Rightarrow> tail_result" where
  "monitor_flush s = flush_all (map fst (tm_table (fst s))) s"

subsection \<open>The input\<close>

record tail_input =
  ti_path :: string
  ti_followOnly :: bool
  ti_saveState :: bool
  ti_regex :: "(string \<Rightarrow> nat list) option"
  ti_read_timeout :: "16 word"

text \<open>
  The constructor's settings. An empty path is indexed before its beginning. \<open>boost_regex\<close> compiles
  a start expression.
\<close>

definition TailInput :: "'d json_lib \<Rightarrow> (string \<Rightarrow> (string \<Rightarrow> nat list) option) \<Rightarrow> 'd source_config
    \<Rightarrow> tail_input run_result" where
  "TailInput L boost_regex c =
     (case getParam (jl_get_string L) (sc_params c) ''path'' of
        None \<Rightarrow> Threw IqException
      | Some path \<Rightarrow>
          if path = [] then Aborted
          else
            (let m_path = (if last path = CHR ''/'' then butlast path else path);
                 bool_param = (\<lambda>key dflt. case getParam (jl_get_bool L) (sc_params c) key of Some b \<Rightarrow> b | None \<Rightarrow> dflt);
                 followOnly = bool_param ''follow_only_mode'' False;
                 timeout = (case getParam (jl_get_ushort L) (sc_params c) ''read_timeout'' of Some t \<Rightarrow> t | None \<Rightarrow> 10);
                 saveState = (if followOnly then bool_param ''save_state'' False else bool_param ''save_state'' True)
             in if followOnly \<and> saveState then Threw IqException
                else
                  (case getParam (jl_get_string L) (sc_params c) ''startmsg_regex'' of
                     None \<Rightarrow>
                       Returned \<lparr>ti_path = m_path, ti_followOnly = followOnly, ti_saveState = saveState,
                                 ti_regex = None, ti_read_timeout = timeout\<rparr>
                   | Some r \<Rightarrow>
                       (case boost_regex r of
                          None \<Rightarrow> Threw RegexError
                        | Some matches \<Rightarrow>
                            Returned \<lparr>ti_path = m_path, ti_followOnly = followOnly, ti_saveState = saveState,
                                      ti_regex = Some matches, ti_read_timeout = timeout\<rparr>))))"

text \<open>The monitor it makes, the \<open>k\<close>-th of the program, and its watch.\<close>

definition TailMonitor :: "nat \<Rightarrow> watch_env \<Rightarrow> nat \<Rightarrow> string \<Rightarrow> tail_input \<Rightarrow> watch_state
    \<Rightarrow> tail_monitor \<times> watch_result" where
  "TailMonitor depth F k name i ws =
     (\<lparr>tm_name = name, tm_regex = ti_regex i, tm_followOnly = ti_followOnly i, tm_saveState = ti_saveState i,
       tm_table = []\<rparr>,
      addWatch depth F (ti_path i) (ToMonitor k) ws)"

subsection \<open>The table\<close>

text \<open>Names are distinct, and a record is filed under the name of its source.\<close>

definition table_ok :: "tail_monitor \<Rightarrow> bool" where
  "table_ok m \<longleftrightarrow> distinct (map fst (tm_table m))
     \<and> (\<forall>k rec. map_of (tm_table m) k = Some (Some rec) \<longrightarrow> ts_filename (tr_source rec) = k)"

definition no_null :: "tail_monitor \<Rightarrow> bool" where
  "no_null m \<longleftrightarrow> None \<notin> snd ` set (tm_table m)"

definition t_keeps :: "(tail_monitor \<Rightarrow> bool) \<Rightarrow> (tail_state \<Rightarrow> tail_result) \<Rightarrow> bool" where
  "t_keeps P f \<longleftrightarrow> (\<forall>s s' x. P (fst s) \<longrightarrow> f s = Some (s', x) \<longrightarrow> P (fst s'))"

lemma t_keepsD: "t_keeps P f \<Longrightarrow> f s = Some (s', x) \<Longrightarrow> P (fst s) \<Longrightarrow> P (fst s')"
  unfolding t_keeps_def by blast

lemma t_keeps_then:
  assumes "t_keeps P f" "t_keeps P g"
  shows "t_keeps P (\<lambda>s. run_then (f s) (\<lambda>s _. g s))"
  unfolding t_keeps_def
proof (intro allI impI)
  fix s s' x
  assume s: "P (fst s)" and r: "run_then (f s) (\<lambda>s _. g s) = Some (s', x)"
  then obtain s1 x1 where f: "f s = Some (s1, x1)" by (auto simp: run_then_def split: option.splits)
  have "P (fst s1)" by (rule t_keepsD [OF assms(1) f s])
  with r f show "P (fst s')"
    using t_keepsD [OF assms(2)] by (auto simp: run_then_def split: option.splits run_result.splits)
qed

lemma table_ok_update:
  assumes "table_ok m" "\<And>rec. x = Some rec \<Longrightarrow> ts_filename (tr_source rec) = k"
  shows "table_ok (m\<lparr>tm_table := AList.update k x (tm_table m)\<rparr>)"
  using assms by (auto simp: table_ok_def distinct_update update_conv')

lemma table_ok_delete: "table_ok m \<Longrightarrow> table_ok (m\<lparr>tm_table := AList.delete k (tm_table m)\<rparr>)"
  by (auto simp: table_ok_def distinct_delete delete_conv' split: if_splits)

lemma record_process_source: "record_process f rec = (rec', ms, sv) \<Longrightarrow> tr_source rec' = tr_source rec"
  using record_process_keeps by blast

lemma record_effects_table_ok:
  assumes "table_ok m" "ts_filename (tr_source (fst r)) = filename"
    and "record_effects filename m w r = Some (s', x)"
  shows "table_ok (fst s')"
  using assms table_ok_update [OF assms(1), of "Some (fst r)" filename]
  by (auto simp: record_effects_def Let_def t_return_def split: prod.splits sum.splits)

lemma insert_record_table_ok: "t_keeps table_ok (insert_record E source)"
proof -
  have src: "createRecord E source s = Inr rec \<Longrightarrow> tr_source rec = source" for s rec
    by (auto simp: createRecord_def PointersTableInternalRecord_def and_then_def
        split: prod.splits if_splits sum.splits)
  show ?thesis
    unfolding t_keeps_def
    by (auto simp: insert_record_def Let_def t_return_def intro!: table_ok_update dest: src
        split: prod.splits option.splits sum.splits)
qed

lemma process_entry_table_ok: "t_keeps table_ok (process_entry E k)"
  unfolding t_keeps_def
proof (intro allI impI)
  fix s s' x
  assume s: "table_ok (fst s)" and r: "process_entry E k s = Some (s', x)"
  obtain m w where mw: "s = (m, w)" by (cases s)
  show "table_ok (fst s')"
  proof (cases "map_of (tm_table m) k")
    case (Some y)
    show ?thesis
    proof (cases y)
      case (Some rec)
      obtain p where p: "record_process (te_content E k) rec = p" by blast
      obtain rec' ms sv where q: "p = (rec', ms, sv)" by (cases p)
      have "ts_filename (tr_source (fst p)) = k"
        using s mw Some \<open>map_of (tm_table m) k = Some y\<close> record_process_source [OF p [unfolded q]]
        by (auto simp: table_ok_def q)
      moreover have "record_effects k m w p = Some (s', x)"
        using r mw Some \<open>map_of (tm_table m) k = Some y\<close> p by (simp add: process_entry_def)
      ultimately show ?thesis using record_effects_table_ok s mw by simp
    qed (use r mw Some s in \<open>auto simp: process_entry_def\<close>)
  qed (use r mw s in \<open>auto simp: process_entry_def\<close>)
qed

lemma modify_table_ok: "t_keeps table_ok (modify E source)"
  using t_keeps_then [OF insert_record_table_ok process_entry_table_ok, of E source E "ts_filename source"]
  by (simp add: t_keeps_def modify_def)

lemma move_table_ok: "t_keeps table_ok (move E source)"
  unfolding t_keeps_def
proof (intro allI impI)
  fix s s' x
  assume s: "table_ok (fst s)" and r: "move E source s = Some (s', x)"
  obtain m w where mw: "s = (m, w)" by (cases s)
  have u: "table_ok (m\<lparr>tm_table := AList.delete a (AList.update n (Some (record_rename n rec)) (tm_table m))\<rparr>)" for a n rec
    using table_ok_delete [OF table_ok_update [of m "Some (record_rename n rec)" n]] s mw
    by (simp add: record_rename_def)
  show "table_ok (fst s')"
    using r mw s u table_ok_delete [of m]
    by (auto simp: move_def Let_def t_return_def split: option.splits sum.splits if_splits)
qed

lemma remove_table_ok: "t_keeps table_ok (remove E source)"
  unfolding t_keeps_def
  by (auto simp: remove_def Let_def t_return_def intro: table_ok_delete
      split: prod.splits option.splits sum.splits)

lemma t_keeps_return: "t_keeps P t_return"
  by (auto simp: t_keeps_def t_return_def)

lemma handle_event_table_ok: "t_keeps table_ok (handle_event E e)"
proof -
  have "handle_event E e \<in> {modify E (ev_source e), move E (ev_source e), remove E (ev_source e), t_return}"
    by (cases "ev_eventType e") (auto simp: handle_event_def create_def fun_eq_iff)
  then show ?thesis
    using modify_table_ok move_table_ok remove_table_ok t_keeps_return by auto
qed

lemma handle_events_table_ok: "t_keeps table_ok (handle_events es)"
proof (induction es)
  case Nil
  then show ?case using t_keeps_return [of table_ok] by (simp add: t_keeps_def)
next
  case (Cons a es)
  from t_keeps_then [OF handle_event_table_ok Cons.IH, of "snd a" "fst a"] show ?case
    by (cases a) (simp add: t_keeps_def)
qed

lemma flush_entry_table_ok: "t_keeps table_ok (flush_entry k)"
  unfolding t_keeps_def
proof (intro allI impI)
  fix s s' x
  assume s: "table_ok (fst s)" and r: "flush_entry k s = Some (s', x)"
  obtain m w where mw: "s = (m, w)" by (cases s)
  consider "map_of (tm_table m) k = None" | "map_of (tm_table m) k = Some None"
    | rec where "map_of (tm_table m) k = Some (Some rec)"
    by (cases "map_of (tm_table m) k") auto
  then show "table_ok (fst s')"
  proof cases
    case 3
    obtain rec' ms sv where p: "record_flush rec = (rec', ms, sv)" by (cases "record_flush rec") auto
    have "ts_filename (tr_source (fst (record_flush rec))) = k"
      using s mw 3 record_flush_keeps [OF p] by (simp add: p table_ok_def)
    moreover have "record_effects k m w (record_flush rec) = Some (s', x)"
      using r mw 3 by (simp add: flush_entry_def)
    ultimately show ?thesis using record_effects_table_ok s mw by simp
  qed (use r mw s in \<open>auto simp: flush_entry_def t_return_def\<close>)
qed

lemma flush_all_table_ok: "t_keeps table_ok (flush_all ks)"
proof (induction ks)
  case Nil
  then show ?case using t_keeps_return [of table_ok] by (simp add: t_keeps_def)
next
  case (Cons k ks)
  from t_keeps_then [OF flush_entry_table_ok Cons.IH, of k] show ?case by (simp add: t_keeps_def)
qed

text \<open>
  C37: whatever events a monitor handles and however it ends, followed by a flush of all its files,
  the names of its table are distinct and every record is filed under the name of its own source,
  which is what a later event will look for.
\<close>

theorem monitor_table_ok:
  assumes "table_ok (fst s)" "run_then (handle_events es s) (\<lambda>s _. monitor_flush s) = Some (s', x)"
  shows "table_ok (fst s')"
proof -
  have "t_keeps table_ok monitor_flush"
    using flush_all_table_ok by (auto simp: t_keeps_def monitor_flush_def)
  from t_keepsD [OF t_keeps_then [OF handle_events_table_ok this] assms(2,1)] show ?thesis .
qed

definition demo_env :: "string \<Rightarrow> string \<Rightarrow> tail_env" where
  "demo_env content current =
     \<lparr>te_opens = (\<lambda>n. n \<noteq> ''/gone''), te_symlink = (\<lambda>_. None), te_content = (\<lambda>_. Some content),
      te_current = (\<lambda>_. Inr current), te_watch = flat_env []\<rparr>"

definition demo_monitor :: tail_monitor where
  "demo_monitor = \<lparr>tm_name = ''t'', tm_regex = Some hash_matches, tm_followOnly = False, tm_saveState = True, tm_table = []\<rparr>"

definition demo_world :: tail_world where
  "demo_world = \<lparr>tw_server = \<lparr>sp_table = [(''l'', 3)], sp_files = []\<rparr>, tw_watches = [], tw_out = []\<rparr>"

theorem monitor_table_ok_witness:
  "table_ok (demo_monitor\<lparr>tm_table := [(''/gone'', None)]\<rparr>)"
proof -
  have "run_then (handle_events [(Event 1 EV_MODIFY (TailSource ''/gone'' None), demo_env [] [])] (demo_monitor, demo_world))
      (\<lambda>s _. monitor_flush s) = Some ((demo_monitor\<lparr>tm_table := [(''/gone'', None)]\<rparr>, demo_world), Threw SystemError)"
    by (simp add: handle_event_def Event_def TailSource_def modify_def insert_record_def createRecord_def
        PointersTableInternalRecord_def demo_env_def demo_monitor_def run_then_def Let_def)
  from monitor_table_ok [OF _ this] show ?thesis by (simp add: table_ok_def demo_monitor_def)
qed

text \<open>
  C38: when a file cannot be opened, because it is gone before its event is handled, the monitor's
  thread ends with an exception and its table keeps a null pointer under the name; the next event
  for it, and the timer's next flush, go through that pointer.
\<close>

theorem vanished_file_crashes:
  assumes "ev_eventType e = EV_MODIFY" "ts_filename (ev_source e) = filename"
    and "map_of (tm_table m) filename = None" "\<not> te_opens E filename"
  shows "\<exists>m'. handle_event E e (m, w) = Some ((m', w), Threw SystemError)
    \<and> map_of (tm_table m') filename = Some None
    \<and> handle_event E' e (m', w) = Some ((m', w), Aborted)
    \<and> flush_entry filename (m', w) = Some ((m', w), Aborted)"
  using assms
  by (simp add: handle_event_def modify_def insert_record_def createRecord_def PointersTableInternalRecord_def
      run_then_def Let_def update_conv' process_entry_def flush_entry_def t_return_def)

theorem vanished_file_crashes_witness:
  "\<exists>m'. handle_event (demo_env [] []) (Event 1 EV_MODIFY (TailSource ''/gone'' None)) (demo_monitor, demo_world)
      = Some ((m', demo_world), Threw SystemError)
    \<and> map_of (tm_table m') ''/gone'' = Some None
    \<and> handle_event (demo_env [] []) (Event 1 EV_MODIFY (TailSource ''/gone'' None)) (m', demo_world) = Some ((m', demo_world), Aborted)
    \<and> flush_entry ''/gone'' (m', demo_world) = Some ((m', demo_world), Aborted)"
  by (rule vanished_file_crashes) (simp_all add: Event_def TailSource_def demo_monitor_def demo_env_def)

text \<open>What the table has after a rename and the creation of a new file under the old name.\<close>

definition new_record :: "tail_monitor \<Rightarrow> tail_source \<Rightarrow> int \<Rightarrow> tail_record" where
  "new_record m source p =
     \<lparr>tr_name = tm_name m, tr_source = source, tr_open = True, tr_fail = False, tr_position = p,
      tr_regex = tm_regex m, tr_buffer = [], tr_followOnly = tm_followOnly m, tr_saveState = tm_saveState m,
      tr_firstRead = False, tr_symlinkPath = None\<rparr>"

text \<open>
  A rename carries the record over with its position and its buffer, so the renamed file goes on
  where it was; but the new file under the old name starts at the position that was on disk when the
  program started, and what is before that position is never read.
\<close>

theorem rotated_file_starts_late:
  assumes "ok": "regex_ok matches" and m: "tm_regex m = Some matches" "tm_saveState m" "\<not> tm_followOnly m"
    and A: "map_of (tm_table m) A = Some (Some rec)" "A \<noteq> []" "B \<noteq> A" "B \<noteq> []" "map_of (tm_table m) B = None"
    and E: "te_current E A = Inr B" "te_opens E' A" "te_symlink E' A = None" "te_content E' A = Some f"
    and p: "getSavedPosition A (tw_server w) = Inr p" "0 \<le> p" "p \<le> int (length f)"
  shows "\<exists>m' w' rec' ms. run_then (handle_event E (Event wd1 EV_MOVE (TailSource A None)) (m, w))
      (\<lambda>s _. handle_event E' (Event wd2 EV_CREATE (TailSource A None)) s) = Some ((m', w'), Returned ())
    \<and> map_of (tm_table m') B = Some (Some (record_rename B rec))
    \<and> map_of (tm_table m') A = Some (Some rec')
    \<and> tw_out w' = tw_out w @ map (\<lambda>d. Record (tm_name m) d (TailSource A None)) ms
    \<and> concat ms @ tr_buffer rec' = drop (nat p) f"
proof -
  let ?src = "TailSource A None"
  let ?t1 = "AList.delete A (AList.update B (Some (record_rename B rec)) (tm_table m))"
  let ?m1 = "m\<lparr>tm_table := ?t1\<rparr>"
  let ?r = "new_record m ?src p"
  have 1: "handle_event E (Event wd1 EV_MOVE ?src) (m, w) = t_return (?m1, w)"
    using A E(1) by (simp add: handle_event_def Event_def TailSource_def move_def)
  have t1: "map_of ?t1 A = None" "map_of ?t1 B = Some (Some (record_rename B rec))"
    using A(3) by (simp_all add: delete_conv' update_conv')
  have c: "createRecord E' ?src (?m1, w) = Inr ?r"
    using E m p(1) by (simp add: createRecord_def PointersTableInternalRecord_def new_record_def TailSource_def)
  obtain rec' ms sv where pr: "record_process (Some (take (nat p) f @ drop (nat p) f)) ?r = (rec', ms, sv)"
    by (cases "record_process (Some (take (nat p) f @ drop (nat p) f)) ?r") auto
  have inv: "record_inv (take (nat p) f) ?r" "plain_record ?r" "tr_regex ?r = Some matches"
    using p m by (simp_all add: record_inv_def new_record_def plain_record_def)
  have post: "concat ms @ tr_buffer rec' = drop (nat p) f" "tr_source rec' = ?src" "tr_name rec' = tm_name m"
    using record_process_regex(5) [OF inv ok pr] record_process_source [OF pr] pr
    by (auto simp: new_record_def record_process_def Let_def split: if_splits option.splits prod.splits)
  have e2: "run_then (insert_record E' ?src (?m1, w)) (\<lambda>s _. process_entry E' A s)
      = record_effects A (?m1\<lparr>tm_table := AList.update A (Some ?r) ?t1\<rparr>) w (rec', ms, sv)"
    using t1(1) c E(4) pr
    by (simp add: insert_record_def Let_def TailSource_def run_then_def t_return_def process_entry_def update_conv')
  obtain srv where srv: "store_position rec' sv (tw_server w) = Inr srv"
    using store_position_total [of rec' _ sv "tw_server w"] post(2) A(2)
    by (fastforce simp: getSavedPathByFileName_def TailSource_def)
  have 2: "handle_event E' (Event wd2 EV_CREATE ?src) (?m1, w)
      = record_effects A (?m1\<lparr>tm_table := AList.update A (Some ?r) ?t1\<rparr>) w (rec', ms, sv)"
    using e2 by (simp add: handle_event_def Event_def create_def modify_def TailSource_def)
  have "run_then (handle_event E (Event wd1 EV_MOVE ?src) (m, w)) (\<lambda>s _. handle_event E' (Event wd2 EV_CREATE ?src) s)
      = record_effects A (?m1\<lparr>tm_table := AList.update A (Some ?r) ?t1\<rparr>) w (rec', ms, sv)"
    by (simp only: 1 t_return_def run_then_def option.case prod.case run_result.case 2)
  then show ?thesis
    using srv post A(3) t1(2)
    by (intro exI [of _ "m\<lparr>tm_table := AList.update A (Some rec') (AList.update A (Some ?r) ?t1)\<rparr>"]
        exI [of _ "w\<lparr>tw_out := tw_out w @ map (\<lambda>d. Record (tr_name rec') d (tr_source rec')) ms, tw_server := srv\<rparr>"]
        exI [of _ rec'] exI [of _ ms])
      (simp add: record_effects_def Let_def t_return_def update_conv')
qed

definition rotated_monitor :: tail_monitor where
  "rotated_monitor = demo_monitor\<lparr>tm_table := [(''/l'', Some (new_record demo_monitor (TailSource ''/l'' None) 9))]\<rparr>"

theorem rotated_file_starts_late_witness:
  "\<exists>m' w' rec' ms. run_then (handle_event (demo_env [] ''/l.1'') (Event 1 EV_MOVE (TailSource ''/l'' None)) (rotated_monitor, demo_world))
      (\<lambda>s _. handle_event (demo_env ''new#text'' []) (Event 1 EV_CREATE (TailSource ''/l'' None)) s) = Some ((m', w'), Returned ())
    \<and> map_of (tm_table m') ''/l.1'' = Some (Some (record_rename ''/l.1'' (new_record demo_monitor (TailSource ''/l'' None) 9)))
    \<and> map_of (tm_table m') ''/l'' = Some (Some rec')
    \<and> tw_out w' = tw_out demo_world @ map (\<lambda>d. Record (tm_name rotated_monitor) d (TailSource ''/l'' None)) ms
    \<and> concat ms @ tr_buffer rec' = drop (nat 3) ''new#text''"
  by (rule rotated_file_starts_late [OF hash_matches_ok])
    (simp_all add: rotated_monitor_def demo_monitor_def demo_env_def demo_world_def getSavedPosition_def
      getSavedPathByFileName_def c_str_def)

end
