(* ===== verification/IQ_Tail_Depth.thy ===== *)
theory IQ_Tail_Depth
  imports IQ_Tail_Watch
begin

text \<open>
  The set-up of watches follows directories and links (src/inputs/tail/InotifyServer.cpp,
  src/inputs/tail/Watch.cpp), so it calls itself. It returns whenever the file system has no endless
  path of directories and links, and then the bound on the depth does not matter.
\<close>

subsection \<open>File systems without endless paths\<close>

text \<open>
  A call for \<open>f\<close> happens when an entry \<open>f\<close> is a directory; one for the target when it is a link.
\<close>

definition calls_below :: "watch_env \<Rightarrow> (string \<Rightarrow> nat) \<Rightarrow> nat \<Rightarrow> string \<Rightarrow> bool" where
  "calls_below F rank k f \<longleftrightarrow>
     (fs_is_directory F f = Inr True \<longrightarrow> rank f < k)
     \<and> (\<forall>l. fs_is_directory F f = Inr False \<longrightarrow> fs_read_symlink F f = Inr (Some l) \<longrightarrow> rank l < k)"

text \<open>
  The entries that match are seen under the watched directory, and under the directory of any other
  watch that has the same descriptor.
\<close>

definition descends :: "watch_env \<Rightarrow> (string \<Rightarrow> nat) \<Rightarrow> bool" where
  "descends F rank \<longleftrightarrow>
     (\<forall>path directory pattern rx entries p d.
        makeWatchPath F path = Inr (directory, pattern) \<longrightarrow> fs_regex F pattern = Some rx
        \<longrightarrow> fs_list F directory = Inr entries \<longrightarrow> p \<in> set entries \<longrightarrow> rx (path_join directory p)
        \<longrightarrow> calls_below F rank (rank path) (path_join directory p)
            \<and> (fs_add_watch F d = fs_add_watch F directory \<longrightarrow> calls_below F rank (rank path) (d @ ''/'' @ p)))"

definition kernel_map :: "watch_env \<Rightarrow> watches \<Rightarrow> bool" where
  "kernel_map F ws \<longleftrightarrow> (\<forall>w\<in>set ws. fs_add_watch F (w_directory w) = w_watchDescriptor w)"

lemma kernel_map_add: "kernel_map F ws \<Longrightarrow> fs_add_watch F (w_directory w) = w_watchDescriptor w \<Longrightarrow> kernel_map F (map_addWatch w ws)"
  by (simp add: kernel_map_def map_addWatch_def)

lemma kernel_map_find:
  assumes "kernel_map F ws" "findByWatchDescriptor wd ws = Some w"
  shows "fs_add_watch F (w_directory w) = wd"
proof -
  from assms(2) have "w \<in> set ws" "w_watchDescriptor w = wd"
    by (auto simp: findByWatchDescriptor_def find_Some_iff)
  with assms(1) show ?thesis by (simp add: kernel_map_def)
qed

subsection \<open>Steps that return\<close>

definition returned :: "watch_env \<Rightarrow> watch_result \<Rightarrow> bool" where
  "returned F r \<longleftrightarrow> (case r of None \<Rightarrow> False | Some (s, e) \<Rightarrow> kernel_map F (fst s))"

lemma returned_Some [simp]: "returned F (Some (s, e)) = kernel_map F (fst s)"
  by (simp add: returned_def)

lemma returned_then: "returned F r \<Longrightarrow> (\<And>s. kernel_map F (fst s) \<Longrightarrow> returned F (g s)) \<Longrightarrow> returned F (w_then r g)"
proof (cases r)
  case (Some x)
  assume "returned F r" and g: "\<And>s. kernel_map F (fst s) \<Longrightarrow> returned F (g s)"
  with Some have "kernel_map F (fst (fst x))" by (simp add: returned_def split: prod.splits)
  with g [of "fst x"] Some show ?thesis by (cases x; cases "snd x") (simp_all add: w_then_def)
qed (simp add: returned_def)

lemma returned_caught: "returned F r \<Longrightarrow> returned F (caught_filesystem r)"
  by (auto simp: returned_def caught_filesystem_def split: option.splits)

lemma watch_notify_returned:
  assumes "calls_below F rank k (w_directory w @ ''/'' @ ts_filename (ev_source e))" "kernel_map F (fst s)"
    and "\<And>path n s. rank path < k \<Longrightarrow> kernel_map F (fst s) \<Longrightarrow> returned F (add path n s)"
  shows "returned F (watch_notify F add w e s)"
proof -
  let ?f = "w_directory w @ ''/'' @ ts_filename (ev_source e)"
  show ?thesis
  proof (cases "fs_is_directory F ?f" rule: bool_outcome_cases)
    case No
    then show ?thesis
    proof (cases "fs_read_symlink F ?f" rule: option_outcome_cases)
      case (With linked)
      with No assms(1) have "rank linked < k" by (simp add: calls_below_def)
      then have "returned F (add linked n s)" for n using assms(2,3) by blast
      with No With assms(2) show ?thesis
        by (auto simp: watch_notify_def Let_def w_deliver_def intro!: returned_then)
    qed (use assms(2) No in \<open>simp_all add: watch_notify_def Let_def w_deliver_def\<close>)
  next
    case Yes
    with assms(1) have "rank ?f < k" by (simp add: calls_below_def)
    then have "returned F (add ?f n s)" for n using assms(2,3) by blast
    with Yes assms(2) show ?thesis by (simp add: watch_notify_def Let_def)
  qed (use assms(2) in \<open>simp add: watch_notify_def Let_def\<close>)
qed

lemma server_notify_returned:
  assumes "\<And>d. fs_add_watch F d = wd \<Longrightarrow> calls_below F rank k (d @ ''/'' @ ts_filename (ev_source e))" "kernel_map F (fst s)"
    and "\<And>path n s. rank path < k \<Longrightarrow> kernel_map F (fst s) \<Longrightarrow> returned F (add path n s)"
  shows "returned F (server_notify F add wd e s)"
proof (cases "findByWatchDescriptor wd (fst s)")
  case (Some w)
  from watch_notify_returned [OF assms(1) [OF kernel_map_find [OF assms(2) Some]] assms(2,3)] Some
  show ?thesis by (simp add: server_notify_def)
qed (use assms(2) in \<open>simp add: server_notify_def\<close>)

lemma scan_entries_returned:
  assumes "\<And>path n s. rank path < k \<Longrightarrow> kernel_map F (fst s) \<Longrightarrow> returned F (add path n s)"
  shows "(\<And>p. p \<in> set ps \<Longrightarrow> rx (path_join directory p) \<Longrightarrow> calls_below F rank k (path_join directory p)
      \<and> (\<forall>d. fs_add_watch F d = wd \<longrightarrow> calls_below F rank k (d @ ''/'' @ p))) \<Longrightarrow> kernel_map F (fst s) \<Longrightarrow>
    returned F (scan_entries F add wd directory rx n ps s)"
proof (induction ps arbitrary: s)
  case (Cons p ps)
  let ?f = "path_join directory p"
  let ?init = "server_notify F add wd (Event wd EV_INIT (TailSource p None))"
  let ?one = "if rx ?f then
              (case fs_is_directory F ?f of
                 Inl x \<Rightarrow> Some (s, Some x)
               | Inr True \<Rightarrow> add ?f n s
               | Inr False \<Rightarrow>
                   (case fs_read_symlink F ?f of
                      Inl x \<Rightarrow> Some (s, Some x)
                    | Inr (Some linked) \<Rightarrow> w_then (add linked (Relabel n ?f) s) ?init
                    | Inr None \<Rightarrow> ?init s))
            else Some (s, None)"
  have "returned F ?one"
  proof (cases "rx ?f")
    case True
    have c: "calls_below F rank k ?f" "\<And>d. fs_add_watch F d = wd \<Longrightarrow> calls_below F rank k (d @ ''/'' @ p)"
      using Cons.prems(1) [of p] True by simp_all
    have i: "kernel_map F (fst s) \<Longrightarrow> returned F (?init s)" for s
      using c(2) assms by (intro server_notify_returned) (simp_all add: Event_def TailSource_def)
    show ?thesis
    proof (cases "fs_is_directory F ?f" rule: bool_outcome_cases)
      case Yes
      with c(1) have "rank ?f < k" by (simp add: calls_below_def)
      then have "returned F (add ?f n s)" using Cons.prems(2) assms by blast
      with True Yes show ?thesis by simp
    next
      case No
      then show ?thesis
      proof (cases "fs_read_symlink F ?f" rule: option_outcome_cases)
        case (With linked)
        with No c(1) have "rank linked < k" by (simp add: calls_below_def)
        then have "returned F (add linked (Relabel n ?f) s)" using Cons.prems(2) assms by blast
        from returned_then [OF this i] True No With show ?thesis by simp
      qed (use Cons.prems(2) True No i in simp_all)
    qed (use Cons.prems(2) True in simp)
  qed (use Cons.prems(2) in simp)
  moreover have "kernel_map F (fst s) \<Longrightarrow> returned F (scan_entries F add wd directory rx n ps s)" for s
    using Cons.IH Cons.prems(1) by simp
  ultimately have "returned F (w_then ?one (scan_entries F add wd directory rx n ps))" by (rule returned_then)
  then show ?case by (simp add: Let_def)
qed simp

lemma addWatch_returned:
  assumes "descends F rank"
  shows "rank path < depth \<Longrightarrow> kernel_map F (fst s) \<Longrightarrow> returned F (addWatch depth F path n s)"
proof (induction depth arbitrary: path n s)
  case (Suc depth)
  show ?case
  proof (cases "makeWatchPath F path")
    case (Inr dp)
    obtain directory pattern where dp: "dp = (directory, pattern)" by (cases dp)
    let ?wd = "fs_add_watch F directory"
    show ?thesis
    proof (cases "fs_regex F pattern")
      case (Some rx)
      let ?w = "\<lparr>w_watchDescriptor = ?wd, w_directory = directory, w_pattern = pattern, w_regex = rx, w_notifier = n\<rparr>"
      let ?s = "(map_addWatch ?w (fst s), snd s)"
      have s1: "kernel_map F (fst ?s)" using kernel_map_add [OF Suc.prems(2), of ?w] by simp
      have "returned F (case fs_list F directory of Inl e \<Rightarrow> Some (?s, Some e)
          | Inr entries \<Rightarrow> scan_entries F (addWatch depth F) ?wd directory rx n entries ?s)"
      proof (cases "fs_list F directory")
        case (Inr entries)
        have "returned F (scan_entries F (addWatch depth F) ?wd directory rx n entries ?s)"
        proof (rule scan_entries_returned [where rank = rank and k = "rank path", OF _ _ s1])
          show "rank path' < rank path \<Longrightarrow> kernel_map F (fst t) \<Longrightarrow> returned F (addWatch depth F path' n' t)" for path' n' t
            using Suc by simp
        qed (use assms Inr dp Some \<open>makeWatchPath F path = Inr dp\<close> in \<open>simp add: descends_def\<close>)
        with Inr show ?thesis by simp
      qed (use s1 in simp)
      from returned_caught [OF this] Suc.prems(2) Inr dp Some show ?thesis by (simp add: Let_def)
    qed (use Suc.prems(2) Inr dp in \<open>simp add: Let_def\<close>)
  qed (use Suc.prems(2) in simp)
qed simp

subsection \<open>More depth changes nothing\<close>

definition ext :: "watch_result \<Rightarrow> watch_result \<Rightarrow> bool" where
  "ext r r' \<longleftrightarrow> r = None \<or> r = r'"

lemma ext_refl [simp]: "ext r r" and ext_None [simp]: "ext None r"
  by (simp_all add: ext_def)

lemma ext_then: "ext r r' \<Longrightarrow> (\<And>s. ext (g s) (g' s)) \<Longrightarrow> ext (w_then r g) (w_then r' g')"
  by (auto simp: ext_def w_then_def split: option.splits)

lemma ext_caught: "ext r r' \<Longrightarrow> ext (caught_filesystem r) (caught_filesystem r')"
  by (auto simp: ext_def caught_filesystem_def)

lemma watch_notify_ext:
  assumes "\<And>path n s. ext (f path n s) (g path n s)"
  shows "ext (watch_notify F f w e s) (watch_notify F g w e s)"
  by (cases "fs_is_directory F (w_directory w @ ''/'' @ ts_filename (ev_source e))" rule: bool_outcome_cases;
      cases "fs_read_symlink F (w_directory w @ ''/'' @ ts_filename (ev_source e))" rule: option_outcome_cases)
    (simp_all add: watch_notify_def Let_def assms ext_then)

lemma server_notify_ext:
  "(\<And>path n s. ext (f path n s) (g path n s)) \<Longrightarrow> ext (server_notify F f wd e s) (server_notify F g wd e s)"
  by (simp add: server_notify_def watch_notify_ext split: option.split)

lemma scan_entries_ext:
  assumes "\<And>path n s. ext (f path n s) (g path n s)"
  shows "ext (scan_entries F f wd directory rx n ps s) (scan_entries F g wd directory rx n ps s)"
proof (induction ps arbitrary: s)
  case (Cons p ps)
  show ?case
    by (cases "fs_is_directory F (path_join directory p)" rule: bool_outcome_cases;
        cases "fs_read_symlink F (path_join directory p)" rule: option_outcome_cases)
      (simp_all add: Let_def, (intro conjI impI ext_then ext_refl assms server_notify_ext Cons)+)
qed simp

text \<open>One call, over what the calls it makes do.\<close>

definition add_body :: "watch_env \<Rightarrow> watch_adder \<Rightarrow> watch_adder" where
  "add_body F add path n s =
     (case makeWatchPath F path of
        Inl e \<Rightarrow> Some (s, Some e)
      | Inr (directory, pattern) \<Rightarrow>
          (if fs_add_watch F directory = -1 then Some (s, None)
           else
             (case fs_regex F pattern of
                None \<Rightarrow> Some (s, Some RegexError)
              | Some rx \<Rightarrow>
                  (let s1 = (map_addWatch \<lparr>w_watchDescriptor = fs_add_watch F directory, w_directory = directory,
                       w_pattern = pattern, w_regex = rx, w_notifier = n\<rparr> (fst s), snd s)
                   in caught_filesystem
                        (case fs_list F directory of
                           Inl e \<Rightarrow> Some (s1, Some e)
                         | Inr entries \<Rightarrow> scan_entries F add (fs_add_watch F directory) directory rx n entries s1)))))"

lemma addWatch_Suc: "addWatch (Suc depth) F path n s = add_body F (addWatch depth F) path n s"
  by (simp only: addWatch.simps add_body_def Let_def)

lemma add_body_ext:
  assumes "\<And>path n s. ext (f path n s) (g path n s)"
  shows "ext (add_body F f path n s) (add_body F g path n s)"
  unfolding add_body_def Let_def
  by (auto split: sum.split option.split intro!: ext_caught scan_entries_ext assms)

lemma addWatch_ext: "ext (addWatch depth F path n s) (addWatch (Suc depth) F path n s)"
proof (induction depth arbitrary: path n s)
  case (Suc depth)
  have "ext (add_body F (addWatch depth F) path n s) (add_body F (addWatch (Suc depth) F) path n s)"
    by (rule add_body_ext) (rule Suc)
  then show ?case by (simp only: addWatch_Suc)
qed simp

lemma addWatch_depth: "addWatch depth F path n s = Some r \<Longrightarrow> addWatch (depth + k) F path n s = Some r"
proof (induction k)
  case (Suc k)
  with addWatch_ext [of "depth + k" F path n s] show ?case by (simp add: ext_def del: addWatch.simps)
qed simp

subsection \<open>Property\<close>

text \<open>
  C25: setting up a watch returns, and with the same result for every bound on the depth above the
  rank of the path, when each matching directory or link in a watched directory leads to a path of a
  smaller rank.
\<close>

theorem addWatch_terminates:
  assumes "descends F rank" "kernel_map F ws"
  shows "\<exists>s e. \<forall>depth > rank path. addWatch depth F path n (ws, out) = Some (s, e)"
proof -
  have "returned F (addWatch (Suc (rank path)) F path n (ws, out))"
    using addWatch_returned [OF assms(1), of path "Suc (rank path)"] assms(2) by simp
  then obtain s e where r: "addWatch (Suc (rank path)) F path n (ws, out) = Some (s, e)"
    by (auto simp: returned_def simp del: addWatch.simps split: option.splits)
  have "addWatch depth F path n (ws, out) = Some (s, e)" if "depth > rank path" for depth
    using addWatch_depth [OF r, of "depth - Suc (rank path)"] that by simp
  then show ?thesis by blast
qed

text \<open>A directory with a file and a link to a file in another directory.\<close>

definition link_env :: watch_env where
  "link_env = \<lparr>fs_is_directory = \<lambda>p. Inr (p = ''/log'' \<or> p = ''/data''),
     fs_read_symlink = \<lambda>p. Inr (if p = ''/log/l'' then Some ''/data/f'' else None),
     fs_list = \<lambda>d. Inr (if d = ''/log'' then [''a'', ''l''] else if d = ''/data'' then [''f''] else []),
     fs_add_watch = \<lambda>d. if d = ''/log'' then 1 else if d = ''/data'' then 2 else -1,
     fs_regex = \<lambda>p. Some (\<lambda>f. p = f \<or> p = ''/log/(.*)'')\<rparr>"

definition link_rank :: "string \<Rightarrow> nat" where
  "link_rank p = (if p = ''/data/f'' then 0 else 1)"

lemma addWatch_terminates_witness:
  "\<exists>s e. \<forall>depth > link_rank ''/log''. addWatch depth link_env ''/log'' (ToMonitor 1) ([], []) = Some (s, e)"
proof (rule addWatch_terminates)
  show "descends link_env link_rank"
    by (auto simp: descends_def link_env_def link_rank_def makeWatchPath_def calls_below_def and_then_Inr_iff path_join_def
        parent_path_def split: if_splits)
qed (simp add: kernel_map_def)

end
