(* ===== verification/IQ_Journal.thy ===== *)
theory IQ_Journal
  imports IQ_Config IQ_Queue
begin

text \<open>
  The journal input (src/inputs/journal/JournalReader.cpp, JournalInput.cpp). The journal library is
  a record of functions over its own state, with the integer codes it returns.
\<close>

subsection \<open>Opening the journal\<close>

record 'j journal_lib =
  sj_open :: "int \<times> 'j"
  sj_get_fd :: "'j \<Rightarrow> int"
  sj_add_match :: "'j \<Rightarrow> string \<Rightarrow> int \<times> 'j"
  sj_add_disjunction :: "'j \<Rightarrow> int \<times> 'j"
  sj_seek_tail :: "'j \<Rightarrow> int \<times> 'j"
  sj_previous :: "'j \<Rightarrow> int \<times> 'j"
  sj_next :: "'j \<Rightarrow> int \<times> 'j"
  sj_data :: "'j \<Rightarrow> string list"
  sj_usec :: "'j \<Rightarrow> 64 word"
  sj_process :: "'j \<Rightarrow> int \<times> 'j"

definition checked :: "int \<times> 'j \<Rightarrow> 'j outcome" where
  "checked r = (if fst r < 0 then Inl IqException else Inr (snd r))"

fun add_unit_filters :: "'j journal_lib \<Rightarrow> 'j \<Rightarrow> string list \<Rightarrow> 'j outcome" where
  "add_unit_filters J j [] = Inr j"
| "add_unit_filters J j (unit_name # us) =
     and_then (checked (sj_add_match J j (c_str (''_SYSTEMD_UNIT='' @ unit_name)))) (\<lambda>j. add_unit_filters J j us)"

definition apply_units :: "'j journal_lib \<Rightarrow> string list option \<Rightarrow> 'j \<Rightarrow> 'j outcome" where
  "apply_units J m_units j =
     (case m_units of
        None \<Rightarrow> Inr j
      | Some us \<Rightarrow>
          and_then (add_unit_filters J j us) (\<lambda>j.
            if 1 < length us then checked (sj_add_disjunction J j) else Inr j))"

definition JournalReader :: "'j journal_lib \<Rightarrow> string list option \<Rightarrow> 'j outcome" where
  "JournalReader J m_units =
     and_then (checked (sj_open J)) (\<lambda>j.
     if sj_get_fd J j < 0 then Inl IqException
     else
       and_then (apply_units J m_units j) (\<lambda>j.
       and_then (checked (sj_seek_tail J j)) (\<lambda>j.
       and_then (checked (sj_previous J j)) (\<lambda>j.
       checked (sj_next J j)))))"

definition JournalInput :: "'d json_lib \<Rightarrow> 'j journal_lib \<Rightarrow> 'd source_config \<Rightarrow> 'j outcome" where
  "JournalInput L J c = JournalReader J (getParam (get_strings L) (sc_params c) ''units'')"

subsection \<open>Reading\<close>

text \<open>
  The fields of an entry: the text before the first equals sign and the text after it. A field
  without one is skipped, a field whose name is there already is ignored.
\<close>

definition split_field :: "string \<Rightarrow> (string \<times> string) option" where
  "split_field line =
     (let key = takeWhile (\<lambda>c. c \<noteq> CHR ''='') line
      in if length key = length line then None else Some (key, drop (Suc (length key)) line))"

fun entry_values :: "string list \<Rightarrow> 'd object \<Rightarrow> 'd object" where
  "entry_values [] vs = vs"
| "entry_values (line # ls) vs =
     (case split_field line of
        None \<Rightarrow> entry_values ls vs
      | Some (k, v) \<Rightarrow> entry_values ls (emplace k (VStr v) vs))"

definition entry_message :: "string \<Rightarrow> string list \<Rightarrow> 64 word \<Rightarrow> 'd journal_message" where
  "entry_message m_name lines usec = JournalMessage m_name (entry_values lines []) usec"

text \<open>A full queue is only logged. The environments are those of the successive enqueues.\<close>

definition journal_process :: "('q, 'd journal_message) cq_lib \<Rightarrow> 'd journal_message other_act list list
    \<Rightarrow> 'd journal_message \<Rightarrow> 'q message_queue \<Rightarrow> 'q message_queue option" where
  "journal_process L env journal_message mq =
     (case mq_enqueue L env mq journal_message of None \<Rightarrow> None | Some (mq', ok, t, p) \<Rightarrow> Some mq')"

partial_function (option) read_journal :: "'j journal_lib \<Rightarrow> ('q, 'd journal_message) cq_lib
    \<Rightarrow> (nat \<Rightarrow> 'd journal_message other_act list list) \<Rightarrow> string \<Rightarrow> nat \<Rightarrow> 'j \<Rightarrow> 'q message_queue
    \<Rightarrow> ('j \<times> 'q message_queue) option" where
  "read_journal J L envs m_name k j mq =
     (case sj_next J j of (error_code, j1) \<Rightarrow>
        if error_code = 1 then
          Option.bind (journal_process L (envs k) (entry_message m_name (sj_data J j1) (sj_usec J j1)) mq)
            (read_journal J L envs m_name (Suc k) j1)
        else Some (j1, mq))"

text \<open>
  A completed wait. After an error nothing is read; in every case the next wait begins.
\<close>

definition SD_JOURNAL_APPEND :: int where "SD_JOURNAL_APPEND = 1"

definition journal_handle_receive :: "'j journal_lib \<Rightarrow> ('q, 'd journal_message) cq_lib
    \<Rightarrow> (nat \<Rightarrow> 'd journal_message other_act list list) \<Rightarrow> string \<Rightarrow> bool \<Rightarrow> 'j \<Rightarrow> 'q message_queue
    \<Rightarrow> ('j \<times> 'q message_queue) option" where
  "journal_handle_receive J L envs m_name error j mq =
     (if error then Some (j, mq)
      else
        (case sj_process J j of (code, j1) \<Rightarrow>
           if code = SD_JOURNAL_APPEND then read_journal J L envs m_name 0 j1 mq else Some (j1, mq)))"

subsection \<open>What is read\<close>

text \<open>
  The journal serves a list of entries, fields and time of each, from a state on when each call of
  \<open>next\<close> moves to the next of them and the one after the last does not find any.
\<close>

fun serves :: "'j journal_lib \<Rightarrow> 'j \<Rightarrow> (string list \<times> 64 word) list \<Rightarrow> 'j option" where
  "serves J j [] = (case sj_next J j of (ec, j1) \<Rightarrow> if ec = 1 then None else Some j1)"
| "serves J j (e # es) =
     (case sj_next J j of (ec, j1) \<Rightarrow>
        if ec = 1 \<and> sj_data J j1 = fst e \<and> sj_usec J j1 = snd e then serves J j1 es else None)"

fun process_all :: "('q, 'd journal_message) cq_lib \<Rightarrow> (nat \<Rightarrow> 'd journal_message other_act list list)
    \<Rightarrow> nat \<Rightarrow> 'd journal_message list \<Rightarrow> 'q message_queue \<Rightarrow> 'q message_queue option" where
  "process_all L envs k [] mq = Some mq"
| "process_all L envs k (m # ms) mq =
     Option.bind (journal_process L (envs k) m mq) (process_all L envs (Suc k) ms)"

lemma read_journal_serves:
  "serves J j es = Some j' \<Longrightarrow>
   read_journal J L envs m_name k j mq =
     map_option (\<lambda>mq'. (j', mq')) (process_all L envs k (map (\<lambda>e. entry_message m_name (fst e) (snd e)) es) mq)"
proof (induction es arbitrary: j k mq)
  case Nil
  then show ?case by (subst read_journal.simps) (auto split: prod.splits if_splits)
next
  case (Cons e es)
  obtain ec j1 where n: "sj_next J j = (ec, j1)" by fastforce
  with Cons.prems have s: "ec = 1" "sj_data J j1 = fst e" "sj_usec J j1 = snd e" "serves J j1 es = Some j'"
    by (auto split: if_splits)
  have "read_journal J L envs m_name k j mq =
      Option.bind (journal_process L (envs k) (entry_message m_name (fst e) (snd e)) mq) (read_journal J L envs m_name (Suc k) j1)"
    using n s by (subst read_journal.simps) simp
  also have "\<dots> = Option.bind (journal_process L (envs k) (entry_message m_name (fst e) (snd e)) mq)
      (\<lambda>mq. map_option (\<lambda>mq'. (j', mq')) (process_all L envs (Suc k) (map (\<lambda>e. entry_message m_name (fst e) (snd e)) es) mq))"
    using Cons.IH [OF s(4)] by (intro Option.bind_cong) simp_all
  also have "\<dots> = map_option (\<lambda>mq'. (j', mq')) (process_all L envs k (map (\<lambda>e. entry_message m_name (fst e) (snd e)) (e # es)) mq)"
    by (simp add: map_option_bind comp_def)
  finally show ?case .
qed

lemma entry_values_lookup:
  "map_of (entry_values lines vs) k =
     (case map_of vs k of
        Some v \<Rightarrow> Some v
      | None \<Rightarrow> map_option VStr (map_of (List.map_filter split_field lines) k))"
  by (induction lines arbitrary: vs) (auto simp: map_filter_simps map_of_emplace split: option.splits)

lemma split_field_spec: "split_field line = Some (k, v) \<longleftrightarrow> line = k @ CHR ''='' # v \<and> CHR ''='' \<notin> set k"
proof
  assume a: "split_field line = Some (k, v)"
  let ?k = "takeWhile (\<lambda>c. c \<noteq> CHR ''='') line"
  have f: "length ?k \<noteq> length line" "k = ?k" "v = drop (Suc (length ?k)) line"
    using a by (auto simp: split_field_def Let_def split: if_splits)
  have "CHR ''='' \<in> set line"
  proof (rule ccontr)
    assume "CHR ''='' \<notin> set line"
    then have "?k = line" by (auto simp: takeWhile_eq_all_conv)
    with f(1) show False by simp
  qed
  then obtain l r where l: "line = l @ CHR ''='' # r" "CHR ''='' \<notin> set l" by (blast dest: split_list_first)
  then have "?k = l" by (simp only: takeWhile_until not_False_eq_True)
  with f l show "line = k @ CHR ''='' # v \<and> CHR ''='' \<notin> set k" by simp
next
  assume a: "line = k @ CHR ''='' # v \<and> CHR ''='' \<notin> set k"
  then have "takeWhile (\<lambda>c. c \<noteq> CHR ''='') line = k" by (simp only: takeWhile_until not_False_eq_True)
  with a show "split_field line = Some (k, v)" by (simp add: split_field_def)
qed

text \<open>
  C39: when the journal reports new entries, the reader hands over every one of them, in order, with
  its time and its fields, of fields with one name the first; it returns whenever the queue takes
  what it is given.
\<close>

theorem journal_reads_all:
  assumes "sj_process J j = (SD_JOURNAL_APPEND, j1)" "serves J j1 es = Some j'"
    and "process_all L envs 0 (map (\<lambda>e. entry_message m_name (fst e) (snd e)) es) mq = Some mq'"
  shows "journal_handle_receive J L envs m_name False j mq = Some (j', mq')
    \<and> map_of (jm_data (entry_message m_name lines usec)) k = map_option VStr (map_of (List.map_filter split_field lines) k)"
  using assms read_journal_serves [OF assms(2), of L envs m_name 0 mq]
  by (simp add: journal_handle_receive_def entry_message_def JournalMessage_def entry_values_lookup)

text \<open>A journal that is the list of the entries to come, behind the current one.\<close>

definition list_journal :: "(string list \<times> 64 word) list journal_lib" where
  "list_journal =
     \<lparr>sj_open = (0, []), sj_get_fd = (\<lambda>_. 3), sj_add_match = (\<lambda>j _. (0, j)), sj_add_disjunction = (\<lambda>j. (0, j)),
      sj_seek_tail = (\<lambda>j. (0, j)), sj_previous = (\<lambda>j. (0, j)),
      sj_next = (\<lambda>j. case j of [] \<Rightarrow> (0, []) | [e] \<Rightarrow> (0, [e]) | e # es \<Rightarrow> (1, es)),
      sj_data = (\<lambda>j. fst (hd j)), sj_usec = (\<lambda>j. snd (hd j)), sj_process = (\<lambda>j. (1, j))\<rparr>"

theorem journal_reads_all_witness:
  "journal_handle_receive list_journal (list_cq :: (int journal_message list, int journal_message) cq_lib) (\<lambda>_. []) ''j'' False
      [([], 0), ([''A=1'', ''A=2'', ''x''], 5)] (MessageQueue ''q'' 10 OV_DROP [])
    = Some ([([''A=1'', ''A=2'', ''x''], 5)],
        (MessageQueue ''q'' 10 OV_DROP [])\<lparr>m_messageQueue := [entry_message ''j'' [''A=1'', ''A=2'', ''x''] 5]\<rparr>)
    \<and> map_of (jm_data (entry_message ''j'' [''A=1'', ''A=2'', ''x''] 5 :: int journal_message)) ''A'' = Some (VStr ''1'')"
  using journal_reads_all [of list_journal "[([], 0), ([''A=1'', ''A=2'', ''x''], 5)]" "[([], 0), ([''A=1'', ''A=2'', ''x''], 5)]"
      "[([''A=1'', ''A=2'', ''x''], 5)]" "[([''A=1'', ''A=2'', ''x''], 5)]"
      "list_cq :: (int journal_message list, int journal_message) cq_lib" "\<lambda>_. []" "''j''"
      "MessageQueue ''q'' 10 OV_DROP []"
      "(MessageQueue ''q'' 10 OV_DROP [])\<lparr>m_messageQueue := [entry_message ''j'' [''A=1'', ''A=2'', ''x''] 5]\<rparr>"
      "[''A=1'', ''A=2'', ''x'']" 5 "''A''"]
  by (simp add: list_journal_def SD_JOURNAL_APPEND_def journal_process_def mq_enqueue_def MessageQueue_def list_cq_def
      map_filter_simps split_field_def)

end
