(* ===== verification/IQ_Metrics.thy ===== *)
theory IQ_Metrics
  imports IQ_Formats
begin

text \<open>
  The metrics (src/metrics/MetricsController.h, MetricsController.cpp, InternalMetrics.h, ProcStat.h):
  the table of callbacks and current values, the metrics of the process, and the reading of a line
  of /proc/PID/stat. A callback reads a state of the program and may throw.
\<close>

subsection \<open>The table\<close>

record 's metrics_table =
  m_metricsCallbacks :: "(string \<times> ('s \<Rightarrow> 64 word outcome)) list"
  m_currentMetrics :: "(string \<times> 64 word) list"

definition MetricsTableInternal :: "'s metrics_table" where
  "MetricsTableInternal = \<lparr>m_metricsCallbacks = [], m_currentMetrics = []\<rparr>"

text \<open>\<open>insert\<close> keeps what is filed under the name already; the result is always true.\<close>

definition registerMetric :: "string \<Rightarrow> ('s \<Rightarrow> 64 word outcome) \<Rightarrow> 's metrics_table \<Rightarrow> 's metrics_table \<times> bool" where
  "registerMetric name callback t =
     (\<lparr>m_metricsCallbacks = emplace name callback (m_metricsCallbacks t),
       m_currentMetrics = emplace name 0 (m_currentMetrics t)\<rparr>, True)"

text \<open>An exception of a callback leaves the loop with the values updated so far.\<close>

fun process_callbacks :: "(string \<times> ('s \<Rightarrow> 64 word outcome)) list \<Rightarrow> 's \<Rightarrow> (string \<times> 64 word) list
    \<Rightarrow> (string \<times> 64 word) list \<times> unit run_result" where
  "process_callbacks [] s cur = (cur, Returned ())"
| "process_callbacks ((name, callback) # cs) s cur =
     (case callback s of
        Inl e \<Rightarrow> (cur, Threw e)
      | Inr v \<Rightarrow> process_callbacks cs s (AList.update name v cur))"

definition processMetrics :: "'s \<Rightarrow> 's metrics_table \<Rightarrow> 's metrics_table \<times> bool run_result" where
  "processMetrics s t =
     (case process_callbacks (m_metricsCallbacks t) s (m_currentMetrics t) of
        (cur, r) \<Rightarrow>
          (t\<lparr>m_currentMetrics := cur\<rparr>,
           (case r of Returned _ \<Rightarrow> Returned True | Threw e \<Rightarrow> Threw e | Aborted \<Rightarrow> Aborted)))"

definition getMetrics :: "'s metrics_table \<Rightarrow> (string \<times> 64 word) list" where
  "getMetrics t = m_currentMetrics t"

text \<open>The thread: rounds over the program's states as they are when each round begins, until one throws.\<close>

fun metrics_thread :: "'s list \<Rightarrow> 's metrics_table \<Rightarrow> 's metrics_table \<times> unit run_result" where
  "metrics_thread [] t = (t, Returned ())"
| "metrics_thread (s # ss) t =
     (case processMetrics s t of
        (t', Returned _) \<Rightarrow> metrics_thread ss t'
      | (t', Threw e) \<Rightarrow> (t', Threw e)
      | (t', Aborted) \<Rightarrow> (t', Aborted))"

subsection \<open>The line of /proc/PID/stat\<close>

text \<open>
  The conversions of the format: white space before a number or a word is skipped, a blank in the
  format skips white space before the one character. Scanning ends at the first conversion that
  fails; what was not scanned keeps no value. Numbers are read as integers.
\<close>

datatype conv = ConvInt | ConvStr | ConvChar
datatype scanned = SInt int | SStr string | SChar char

definition scan_one :: "conv \<Rightarrow> string \<Rightarrow> (scanned \<times> string) option" where
  "scan_one c s =
     (let s1 = dropWhile is_space s
      in case c of
           ConvInt \<Rightarrow>
             (let (neg, s2) = split_sign s1; ds = takeWhile is_dec s2
              in if ds = [] then None
                 else Some (SInt (if neg then - int (dec_val ds) else int (dec_val ds)), drop (length ds) s2))
         | ConvStr \<Rightarrow>
             (let w = takeWhile (\<lambda>x. \<not> is_space x) s1
              in if w = [] then None else Some (SStr w, drop (length w) s1))
         | ConvChar \<Rightarrow> (case s1 of [] \<Rightarrow> None | x # r \<Rightarrow> Some (SChar x, r)))"

fun sscanf :: "conv list \<Rightarrow> string \<Rightarrow> scanned list" where
  "sscanf [] s = []"
| "sscanf (c # cs) s = (case scan_one c s of None \<Rightarrow> [] | Some (v, r) \<Rightarrow> v # sscanf cs r)"

definition stat_format :: "conv list" where
  "stat_format = ConvInt # ConvStr # ConvChar # replicate 49 ConvInt"

text \<open>
  \<open>stat_line\<close> is the first line of the file, of which at most 2047 bytes are read, or nothing when
  it cannot be read.
\<close>

definition get_proc_info :: "string option \<Rightarrow> int \<times> scanned list" where
  "get_proc_info stat_line =
     (case stat_line of
        None \<Rightarrow> (-1, [SInt (-1)])
      | Some line \<Rightarrow> (0, sscanf stat_format (c_str (take 2047 line))))"

text \<open>A field of the structure; one that was not written has whatever the stack had there.\<close>

definition proc_field :: "int \<Rightarrow> scanned list \<Rightarrow> nat \<Rightarrow> int" where
  "proc_field garbage vs i = (if i < length vs then (case vs ! i of SInt v \<Rightarrow> v | _ \<Rightarrow> garbage) else garbage)"

subsection \<open>Metrics of the process\<close>

record proc_env =
  pe_utime :: "64 word"
  pe_stime :: "64 word"
  pe_stat :: "string option"
  pe_page_size :: int
  pe_fds :: "64 word outcome"
  pe_rlim_max :: "64 word"
  pe_garbage :: int

definition internal_metrics :: "('s \<Rightarrow> proc_env) \<Rightarrow> (string \<times> ('s \<Rightarrow> 64 word outcome)) list" where
  "internal_metrics P =
     [(''process.cpu_user_seconds_total'', \<lambda>s. Inr (pe_utime (P s))),
      (''process.cpu_system_seconds_total'', \<lambda>s. Inr (pe_stime (P s))),
      (''process.resident_memory_bytes'',
         \<lambda>s. Inr (word_of_int (proc_field (pe_garbage (P s)) (snd (get_proc_info (pe_stat (P s)))) 23 * pe_page_size (P s)))),
      (''process.threads'',
         \<lambda>s. Inr (word_of_int (proc_field (pe_garbage (P s)) (snd (get_proc_info (pe_stat (P s)))) 19))),
      (''process.open_fds'', \<lambda>s. pe_fds (P s)),
      (''process.max_fds'', \<lambda>s. Inr (pe_rlim_max (P s)))]"

fun register_all :: "(string \<times> ('s \<Rightarrow> 64 word outcome)) list \<Rightarrow> 's metrics_table \<Rightarrow> 's metrics_table \<times> bool" where
  "register_all [] t = (t, True)"
| "register_all ((name, callback) # cs) t =
     (case registerMetric name callback t of
        (t', True) \<Rightarrow> register_all cs t' | (t', False) \<Rightarrow> (t', False))"

definition registerInternalMetrics :: "('s \<Rightarrow> proc_env) \<Rightarrow> 's metrics_table \<Rightarrow> 's metrics_table \<times> bool" where
  "registerInternalMetrics P t = register_all (internal_metrics P) t"

subsection \<open>What a round shows\<close>

definition metrics_ok :: "'s metrics_table \<Rightarrow> bool" where
  "metrics_ok t \<longleftrightarrow> distinct (map fst (m_metricsCallbacks t)) \<and> distinct (map fst (m_currentMetrics t))
     \<and> fst ` set (m_metricsCallbacks t) = fst ` set (m_currentMetrics t)"

lemma emplace_keys: "fst ` set (emplace k v m) = insert k (fst ` set m)"
  by (auto simp: emplace_def map_of_eq_None_iff)

lemma emplace_distinct: "distinct (map fst m) \<Longrightarrow> distinct (map fst (emplace k v m))"
  by (auto simp: emplace_def map_of_eq_None_iff)

lemma metrics_ok_register: "metrics_ok t \<Longrightarrow> metrics_ok (fst (registerMetric name cb t))"
  by (simp add: metrics_ok_def registerMetric_def emplace_keys emplace_distinct)

lemma metrics_ok_empty: "metrics_ok MetricsTableInternal"
  by (simp add: metrics_ok_def MetricsTableInternal_def)

lemma register_all_ok: "metrics_ok t \<Longrightarrow> metrics_ok (fst (register_all cs t)) \<and> snd (register_all cs t)"
proof (induction cs arbitrary: t)
  case (Cons c cs)
  obtain name cb where "c = (name, cb)" by (cases c)
  with Cons metrics_ok_register [OF Cons.prems, of name cb] show ?case by (simp add: registerMetric_def)
qed simp

lemma process_callbacks_map:
  "process_callbacks cs s cur = (cur', Returned u) \<Longrightarrow> distinct (map fst cs) \<Longrightarrow>
   map_of cur' k = (case map_of cs k of None \<Rightarrow> map_of cur k | Some cb \<Rightarrow> (case cb s of Inr v \<Rightarrow> Some v | Inl _ \<Rightarrow> None))
   \<and> (\<forall>cb. map_of cs k = Some cb \<longrightarrow> (\<exists>v. cb s = Inr v))"
proof (induction cs s cur rule: process_callbacks.induct)
  case (2 name callback cs s cur)
  then obtain v where v: "callback s = Inr v" by (auto split: sum.splits)
  have "map_of cs name = None" using 2(3) by (simp add: map_of_eq_None_iff)
  with 2(1) [OF v] 2(2,3) v show ?case by (auto simp: update_conv' split: option.splits)
qed auto

lemma process_callbacks_keys:
  "process_callbacks cs s cur = (cur', r) \<Longrightarrow> distinct (map fst cur) \<Longrightarrow> fst ` set cs \<subseteq> fst ` set cur \<Longrightarrow>
   distinct (map fst cur') \<and> fst ` set cur' = fst ` set cur"
proof (induction cs s cur rule: process_callbacks.induct)
  case (2 name callback cs s cur)
  show ?case
  proof (cases "callback s")
    case (Inr v)
    have k: "fst ` set (AList.update name v cur) = fst ` set cur" "distinct (map fst (AList.update name v cur))"
      using 2(3,4) by (auto simp: dom_update distinct_update)
    with 2(1) [OF Inr] 2(2,4) Inr show ?thesis by auto
  qed (use 2 in auto)
qed auto

text \<open>
  Registering a metric never replaces one of the same name: after a round that returns, the
  value shown under a name is that of the callback registered first, whatever is registered under
  the name later.
\<close>

theorem metrics_first_callback_counts:
  assumes "metrics_ok t" "map_of (m_metricsCallbacks t) name = Some callback"
    and "processMetrics s (fst (registerMetric name later t)) = (t', Returned b)"
  shows "\<exists>v. callback s = Inr v \<and> map_of (getMetrics t') name = Some v"
proof -
  let ?t = "fst (registerMetric name later t)"
  have d: "distinct (map fst (m_metricsCallbacks ?t))"
    using metrics_ok_register [OF assms(1), of name later] by (simp add: metrics_ok_def)
  have m: "map_of (m_metricsCallbacks ?t) name = Some callback"
    using assms(2) by (simp add: registerMetric_def map_of_emplace)
  obtain cur u where c: "process_callbacks (m_metricsCallbacks ?t) s (m_currentMetrics ?t) = (cur, Returned u)"
      "t' = ?t\<lparr>m_currentMetrics := cur\<rparr>"
    using assms(3) by (auto simp: processMetrics_def split: prod.splits run_result.splits)
  from process_callbacks_map [OF c(1) d, of name] m obtain v where "callback s = Inr v" "map_of cur name = Some v"
    by auto
  with c(2) show ?thesis by (simp add: getMetrics_def)
qed

theorem metrics_first_callback_counts_witness:
  "\<exists>v. (Inr 7 :: 64 word outcome) = Inr v \<and>
     map_of (getMetrics \<lparr>m_metricsCallbacks = [(''m'', \<lambda>_ :: unit. Inr 7)], m_currentMetrics = [(''m'', 7)]\<rparr>) ''m'' = Some v"
proof -
  let ?t = "fst (registerMetric ''m'' (\<lambda>_ :: unit. Inr 7) MetricsTableInternal)"
  have "processMetrics () (fst (registerMetric ''m'' (\<lambda>_. Inr 9) ?t))
      = (\<lparr>m_metricsCallbacks = [(''m'', \<lambda>_ :: unit. Inr 7)], m_currentMetrics = [(''m'', 7)]\<rparr>, Returned True)"
    by (simp add: registerMetric_def MetricsTableInternal_def emplace_def processMetrics_def)
  from metrics_first_callback_counts [OF metrics_ok_register [OF metrics_ok_empty] _ this] show ?thesis
    by (simp add: registerMetric_def MetricsTableInternal_def emplace_def)
qed

lemma process_callbacks_throws:
  "(name, callback) \<in> set cs \<Longrightarrow> callback s = Inl e \<Longrightarrow> \<exists>cur' e'. process_callbacks cs s cur = (cur', Threw e')"
  by (induction cs s cur rule: process_callbacks.induct) (auto split: sum.splits)

text \<open>
  The metrics are computed by one thread without a handler: a callback that throws, as that of
  the open file descriptors does when their directory cannot be listed, ends the whole computation.
\<close>

theorem throwing_metric_ends_thread:
  assumes "map_of (m_metricsCallbacks t) name = Some callback" "callback s = Inl e"
  shows "\<exists>t' e'. metrics_thread (s # ss) t = (t', Threw e')"
proof -
  obtain cur e' where "process_callbacks (m_metricsCallbacks t) s (m_currentMetrics t) = (cur, Threw e')"
    using process_callbacks_throws [OF map_of_SomeD [OF assms(1)] assms(2)] by blast
  then show ?thesis by (simp add: processMetrics_def)
qed

theorem throwing_metric_ends_thread_witness:
  "\<exists>t' e'. metrics_thread [()] (fst (registerMetric ''fds'' (\<lambda>_. Inl FilesystemError) MetricsTableInternal)) = (t', Threw e')"
  by (rule throwing_metric_ends_thread [where name = "''fds''"])
    (simp_all add: registerMetric_def MetricsTableInternal_def emplace_def)

subsection \<open>Reading the line back\<close>

fun show_scanned :: "scanned \<Rightarrow> string" where
  "show_scanned (SInt v) = (if v < 0 then CHR ''-'' # to_string (nat (- v)) else to_string (nat v))"
| "show_scanned (SStr w) = w"
| "show_scanned (SChar c) = [c]"

fun scanned_ok :: "conv \<Rightarrow> scanned \<Rightarrow> bool" where
  "scanned_ok ConvInt (SInt v) = True"
| "scanned_ok ConvStr (SStr w) = (w \<noteq> [] \<and> list_all (\<lambda>c. \<not> is_space c) w)"
| "scanned_ok ConvChar (SChar c) = (\<not> is_space c)"
| "scanned_ok _ _ = False"

definition stat_text :: "scanned list \<Rightarrow> string" where
  "stat_text vs = concat (map (\<lambda>v. CHR '' '' # show_scanned v) vs)"

lemma to_string_stop:
  assumes "r = [] \<or> \<not> is_dec (hd r)"
  shows "takeWhile is_dec (to_string n @ r) = to_string n"
  using to_string_digits [of n] assms
  by (cases r) (auto simp: list_all_iff takeWhile_append2)

lemma scan_one_show:
  assumes "scanned_ok c v" "r = [] \<or> is_space (hd r)"
  shows "scan_one c (CHR '' '' # show_scanned v @ r) = Some (v, r)"
proof -
  have sp: "is_space (CHR '' '')" "\<not> is_space (CHR ''-'')" by (simp_all add: is_space_def)
  have r: "r = [] \<or> \<not> is_dec (hd r)" using assms(2) is_dec_not_special by blast
  have num: "dropWhile is_space (to_string n @ x) = to_string n @ x"
      "split_sign (to_string n @ x) = (False, to_string n @ x)" for n x
    using to_string_Cons [of n] by (auto simp: split_sign_def dest: is_dec_not_special)
  have neg: "split_sign (CHR ''-'' # x) = (True, x)" for x by (simp add: split_sign_def)
  show ?thesis
  proof (cases v)
    case (SInt n)
    with assms have c: "c = ConvInt" by (cases c) auto
    show ?thesis
      using SInt c sp by (simp add: scan_one_def Let_def num neg to_string_stop [OF r] del: takeWhile_append)
  next
    case (SStr w)
    with assms have c: "c = ConvStr" "w \<noteq> []" "list_all (\<lambda>c. \<not> is_space c) w" by (cases c; simp)+
    have "takeWhile (\<lambda>x. \<not> is_space x) (w @ r) = w"
      using c(3) assms(2) by (cases r) (auto simp: list_all_iff takeWhile_append2)
    moreover have "dropWhile is_space (w @ r) = w @ r"
      using c(2,3) by (auto simp: neq_Nil_conv)
    ultimately show ?thesis using SStr c sp by (simp add: scan_one_def Let_def)
  next
    case (SChar x)
    with assms have "c = ConvChar" "\<not> is_space x" by (cases c; simp)+
    with SChar sp show ?thesis by (simp add: scan_one_def)
  qed
qed

lemma sscanf_show: "list_all2 scanned_ok cs vs \<Longrightarrow> sscanf cs (stat_text vs) = vs"
proof (induction cs vs rule: list_all2_induct)
  case (Cons c cs v vs)
  have "stat_text vs = [] \<or> is_space (hd (stat_text vs))"
    by (cases vs) (simp_all add: stat_text_def is_space_def)
  from scan_one_show [OF Cons(1) this] Cons(3) show ?case by (simp add: stat_text_def)
qed simp

end
