(* ===== verification/IQ_Procstat.thy ===== *)
theory IQ_Procstat
  imports IQ_Metrics
begin

text \<open>
  The structure a line of /proc/PID/stat is read into (src/metrics/ProcStat.h): its fields with their
  types, the format the line is scanned with, and what the metrics of the process (InternalMetrics.h)
  show of a line.
\<close>

subsection \<open>The structure and the format\<close>

datatype c_type = CInt | CUInt | CLong | CULong | CULLong | CChar | CChars

definition procstat :: "(string \<times> c_type) list" where
  "procstat =
   [(''pid'', CInt), (''comm'', CChars), (''state'', CChar), (''ppid'', CInt), (''pgrp'', CInt), (''session'', CInt),
    (''tty_nr'', CInt), (''tpgid'', CInt), (''flags'', CUInt), (''minflt'', CULong), (''cminflt'', CULong),
    (''majflt'', CULong), (''cmajflt'', CULong), (''utime'', CULong), (''stime'', CULong), (''cutime'', CLong),
    (''cstime'', CLong), (''priority'', CLong), (''nice'', CLong), (''num_threads'', CLong),
    (''itrealvalue'', CLong), (''starttime'', CULLong), (''vsize'', CULong), (''rss'', CLong), (''rsslim'', CULong),
    (''startcode'', CULong), (''endcode'', CULong), (''startstack'', CULong), (''kstkesp'', CULong),
    (''kstkeip'', CULong), (''signal'', CULong), (''blocked'', CULong), (''sigignore'', CULong),
    (''sigcatch'', CULong), (''wchan'', CULong), (''nswap'', CULong), (''cnswap'', CULong), (''exit_signal'', CInt),
    (''processor'', CInt), (''rt_priority'', CUInt), (''policy'', CUInt), (''delayacct_blkio_ticks'', CULLong),
    (''guest_time'', CULong), (''cguest_time'', CLong), (''start_data'', CULong), (''end_data'', CULong),
    (''start_brk'', CULong), (''arg_start'', CULong), (''arg_end'', CULong), (''env_start'', CULong),
    (''env_end'', CULong), (''exit_code'', CInt)]"

definition stat_format_text :: string where
  "stat_format_text =
     ''%d %s %c %d %d %d %d %d %u %lu %lu %lu %lu %lu %lu %ld %ld %ld %ld %ld %ld %llu %lu %ld %lu %lu %lu %lu %lu ''
     @ ''%lu %lu %lu %lu %lu %lu %lu %lu %d %d %u %u %llu %lu %ld %lu %lu %lu %lu %lu %lu %lu %d''"

text \<open>The conversions of a format, each with the type its argument has to point to.\<close>

fun format_types :: "string \<Rightarrow> c_type list option" where
  "format_types [] = Some []"
| "format_types (c # r) =
     (if c = CHR '' '' then format_types r
      else if c = CHR ''%'' then
        (case r of
           a # r1 \<Rightarrow>
             (if a = CHR ''d'' then map_option ((#) CInt) (format_types r1)
              else if a = CHR ''u'' then map_option ((#) CUInt) (format_types r1)
              else if a = CHR ''s'' then map_option ((#) CChars) (format_types r1)
              else if a = CHR ''c'' then map_option ((#) CChar) (format_types r1)
              else if a = CHR ''l'' then
                (case r1 of
                   b # r2 \<Rightarrow>
                     (if b = CHR ''d'' then map_option ((#) CLong) (format_types r2)
                      else if b = CHR ''u'' then map_option ((#) CULong) (format_types r2)
                      else if b = CHR ''l'' then
                        (case r2 of
                           e # r3 \<Rightarrow> if e = CHR ''u'' then map_option ((#) CULLong) (format_types r3) else None
                         | [] \<Rightarrow> None)
                      else None)
                 | [] \<Rightarrow> None)
              else None)
         | [] \<Rightarrow> None)
      else None)"

primrec conv_of :: "c_type \<Rightarrow> conv" where
  "conv_of CInt = ConvInt"
| "conv_of CUInt = ConvInt"
| "conv_of CLong = ConvInt"
| "conv_of CULong = ConvInt"
| "conv_of CULLong = ConvInt"
| "conv_of CChar = ConvChar"
| "conv_of CChars = ConvStr"

subsection \<open>A line as the kernel writes it\<close>

text \<open>The values separated by blanks and ended by a newline.\<close>

definition stat_line_of :: "scanned list \<Rightarrow> string" where
  "stat_line_of vs = tl (stat_text vs) @ [CHR 0x0A]"

lemma sscanf_stat_text:
  "list_all2 scanned_ok cs vs \<Longrightarrow> r = [] \<or> is_space (hd r) \<Longrightarrow> sscanf cs (stat_text vs @ r) = vs"
proof (induction cs vs rule: list_all2_induct)
  case (Cons c cs v vs)
  have "stat_text vs @ r = [] \<or> is_space (hd (stat_text vs @ r))"
    using Cons.prems by (cases vs) (simp_all add: stat_text_def is_space_def)
  from scan_one_show [OF Cons(1) this] Cons.IH Cons.prems show ?case by (simp add: stat_text_def)
qed simp

lemma scan_int_blank: "scan_one ConvInt (CHR '' '' # s) = scan_one ConvInt s"
  by (simp add: scan_one_def is_space_def)

lemma sscanf_line:
  assumes "list_all2 scanned_ok (ConvInt # cs) vs"
  shows "sscanf (ConvInt # cs) (stat_line_of vs) = vs"
proof -
  obtain t where t: "stat_text vs = CHR '' '' # t" using assms by (cases vs) (simp_all add: stat_text_def)
  have "sscanf (ConvInt # cs) (stat_text vs @ [CHR 0x0A]) = vs"
    by (rule sscanf_stat_text [OF assms]) (simp add: is_space_def)
  then show ?thesis by (simp add: t stat_line_of_def scan_int_blank)
qed

subsection \<open>Properties\<close>

text \<open>
  The format and the structure agree: the format has a conversion for each field, in order, of the
  type of the field, so that no conversion writes past its field; and the two fields the metrics use
  are the number of threads and the resident set.
\<close>

theorem stat_format_fits:
  "format_types stat_format_text = Some (map snd procstat) \<and> stat_format = map conv_of (map snd procstat)
   \<and> procstat ! 19 = (''num_threads'', CLong) \<and> procstat ! 23 = (''rss'', CLong)"
proof (intro conjI)
  show "format_types stat_format_text = Some (map snd procstat)" by code_simp
  show "stat_format = map conv_of (map snd procstat)" by code_simp
  show "procstat ! 19 = (''num_threads'', CLong)" "procstat ! 23 = (''rss'', CLong)" by code_simp+
qed

text \<open>
  The metrics of the process show the line: with values of the kinds of the format, whose text fits the
  buffer, the threads and the resident memory in bytes are those of the line.
\<close>

theorem proc_metrics_shown:
  assumes "list_all2 scanned_ok stat_format vs" "vs ! 19 = SInt threads" "vs ! 23 = SInt rss"
    and "pe_stat (P s) = Some (stat_line_of vs)" "length (stat_line_of vs) \<le> 2047" "c_str (stat_line_of vs) = stat_line_of vs"
  shows "\<exists>t r. map_of (internal_metrics P) ''process.threads'' = Some t \<and> t s = Inr (word_of_int threads)
    \<and> map_of (internal_metrics P) ''process.resident_memory_bytes'' = Some r
    \<and> r s = Inr (word_of_int (rss * pe_page_size (P s)))"
proof -
  have f: "stat_format = ConvInt # tl stat_format" by (simp add: stat_format_def)
  have "list_all2 scanned_ok (ConvInt # tl stat_format) vs" using assms(1) f by simp
  from sscanf_line [OF this] f have "sscanf stat_format (stat_line_of vs) = vs" by simp
  then have "snd (get_proc_info (pe_stat (P s))) = vs" using assms(4-6) by (simp add: get_proc_info_def)
  moreover have "length vs = 52" using list_all2_lengthD [OF assms(1)] by (simp add: stat_format_def)
  ultimately show ?thesis using assms(2,3) by (simp add: internal_metrics_def proc_field_def)
qed

text \<open>A process of four threads and a resident set of 1000 pages.\<close>

definition sample_stat :: "scanned list" where
  "sample_stat = [SInt 7, SStr ''(iqlogger)'', SChar CHR ''S''] @ replicate 16 (SInt 0) @ [SInt 4] @ replicate 3 (SInt 0)
     @ [SInt 1000] @ replicate 28 (SInt 0)"

lemma proc_metrics_shown_witness:
  "\<exists>t r. map_of (internal_metrics (\<lambda>_ :: unit. \<lparr>pe_utime = 0, pe_stime = 0, pe_stat = Some (stat_line_of sample_stat),
        pe_page_size = 4096, pe_fds = Inr 0, pe_rlim_max = 0, pe_garbage = 9\<rparr>)) ''process.threads'' = Some t
    \<and> t () = Inr 4 \<and> r () = (Inr 4096000 :: 64 word outcome)"
proof -
  let ?P = "\<lambda>_ :: unit. \<lparr>pe_utime = 0, pe_stime = 0, pe_stat = Some (stat_line_of sample_stat),
      pe_page_size = 4096, pe_fds = Inr 0, pe_rlim_max = 0, pe_garbage = 9\<rparr>"
  have o1: "list_all2 scanned_ok stat_format sample_stat" by code_simp
  have o2: "sample_stat ! 19 = SInt 4" "sample_stat ! 23 = SInt 1000" by code_simp+
  have o3: "length (stat_line_of sample_stat) \<le> 2047" "c_str (stat_line_of sample_stat) = stat_line_of sample_stat"
    by code_simp+
  from proc_metrics_shown [OF o1 o2 _ o3, of ?P "()"] show ?thesis by auto
qed

text \<open>
  The name of the program is read up to the first white space: a name with a blank shifts the fields
  behind it, and scanning ends at the first that is no number.
\<close>

lemma comm_with_blank:
  "sscanf stat_format (''7 (a bc) S 1'' @ [CHR 0x0A]) = [SInt 7, SStr ''(a'', SChar CHR ''b'']"
  by code_simp

end
