(* ===== verification/IQ_Output.thy ===== *)
theory IQ_Output
  imports IQ_Input
begin

text \<open>
  The output stage up to the queues of the outputs: what a message becomes as a record of the GELF
  and of the log output (src/outputs/gelf/Output.cpp, src/outputs/log/Output.cpp), the import of a
  bulk by an output (src/outputs/Output.h), and the loop of the output server over all outputs
  (src/OutputServer.cpp). The records of both outputs are texts.
\<close>

subsection \<open>Messages become GELF records\<close>

record 'd output_env =
  oe_export :: "'d export_env"
  oe_assign :: "'d json_assign"
  oe_hostname :: string
  oe_stream_dbl :: "'d \<Rightarrow> string"

definition oe_json :: "'d output_env \<Rightarrow> 'd json_lib" where
  "oe_json X = ee_json (oe_export X)"

definition oe_gelf :: "'d output_env \<Rightarrow> 'd gelf" where
  "oe_gelf X = gelf_default (oe_hostname X) (ee_now (oe_export X))"

definition oe_setField :: "'d output_env \<Rightarrow> string \<Rightarrow> 'd field_arg \<Rightarrow> 'd gelf \<Rightarrow> 'd gelf outcome" where
  "oe_setField X = setField (ee_dbl (oe_export X)) (oe_json X) (oe_assign X)"

primrec variant_arg :: "'d variant \<Rightarrow> 'd field_arg" where
  "variant_arg (VStr s) = FString s"
| "variant_arg (VInt n) = FInt n"
| "variant_arg (VDbl d) = FDouble d"
| "variant_arg (VBool b) = FBool b"

text \<open>
  A journal message: \<open>MESSAGE\<close> and \<open>_HOSTNAME\<close> are looked up with \<open>at\<close>, whose \<open>out_of_range\<close> is
  caught; the field functions run inside the same handlers.
\<close>

definition data_at :: "'d object \<Rightarrow> string \<Rightarrow> 'd variant outcome" where
  "data_at data key = (case map_of data key of None \<Rightarrow> Inl OutOfRange | Some v \<Rightarrow> Inr v)"

definition on_out_of_range :: "'a outcome \<Rightarrow> 'a outcome \<Rightarrow> 'a outcome" where
  "on_out_of_range r handler = (case r of Inl e \<Rightarrow> if catches OutOfRange e then handler else Inl e | Inr a \<Rightarrow> Inr a)"

fun journal_fields :: "'d output_env \<Rightarrow> 'd object \<Rightarrow> 'd gelf \<Rightarrow> 'd gelf outcome" where
  "journal_fields X [] g = Inr g"
| "journal_fields X ((key, v) # data) g =
     and_then (if key \<noteq> ''MESSAGE'' \<and> key \<noteq> ''_HOSTNAME'' then oe_setField X key (variant_arg v) g else Inr g)
       (journal_fields X data)"

definition gelf_from_journal :: "'d output_env \<Rightarrow> 'd journal_message \<Rightarrow> string outcome" where
  "gelf_from_journal X m =
     (let D = ee_dbl (oe_export X); data = jm_data m; g0 = oe_gelf X
      in and_then (on_out_of_range
           (and_then (data_at data ''MESSAGE'') (\<lambda>v. oe_setField X ''short_message'' (variant_arg v) g0))
           (oe_setField X ''short_message'' (FString (journal_exportMessage (oe_json X) m)) g0)) (\<lambda>g1.
         and_then (oe_setField X ''timestamp''
           (FDouble (d_div D (d_of_int D (uint (jm_timestamp m))) (d_of_int D 1000000))) g1) (\<lambda>g2.
         and_then (on_out_of_range
           (and_then (data_at data ''_HOSTNAME'') (\<lambda>v. oe_setField X ''host'' (variant_arg v) g2))
           (Inr g2)) (\<lambda>g3.
         and_then (journal_fields X data g3) (\<lambda>g4.
         Inr (gelf_dump (oe_json X) g4))))))"

text \<open>
  A tail message whose text is a JSON object with an object \<open>data\<close> gives its strings, numbers and
  booleans as fields; a document without \<open>data\<close> has to be a GELF document itself; a text that is no
  document, or a field the library cannot convert, makes the text the short message. What was set
  before an exception stays set.
\<close>

definition settable :: "'d json \<Rightarrow> bool" where
  "settable j = (case j of JStr _ \<Rightarrow> True | JInt _ \<Rightarrow> True | JFloat _ \<Rightarrow> True | JBool _ \<Rightarrow> True | _ \<Rightarrow> False)"

fun data_fields :: "'d output_env \<Rightarrow> (string \<times> 'd json) list \<Rightarrow> 'd gelf \<Rightarrow> 'd gelf \<times> exn_class option" where
  "data_fields X [] g = (g, None)"
| "data_fields X ((key, j) # r) g =
     (if settable j then
        (case oe_setField X key (FJson j) g of
           Inl e \<Rightarrow> (g, Some e)
         | Inr g' \<Rightarrow> data_fields X r g')
      else data_fields X r g)"

definition gelf_of_text :: "'d output_env \<Rightarrow> tail_message \<Rightarrow> string outcome" where
  "gelf_of_text X m =
     (let E = oe_export X
      in and_then (GelfMessage (ee_dbl E) (ee_json E) (ee_gunzip E) (ee_inflate E) (ee_now E) (tm_input m) (tm_data m) ())
           (\<lambda>g. and_then (oe_setField X ''file'' (FString (ts_filename (tm_source m))) (gm_gelf g))
           (\<lambda>g. Inr (gelf_dump (oe_json X) g))))"

text \<open>The body of the \<open>try\<close>: the message as it was left, and the end (a record already made, or none yet).\<close>

definition tail_try :: "'d output_env \<Rightarrow> tail_message \<Rightarrow> 'd gelf \<times> string option outcome" where
  "tail_try X m =
     (let gelf = oe_gelf X
      in case jl_parse (oe_json X) (tm_data m) of
           Inl e \<Rightarrow> (gelf, Inl e)
         | Inr json \<Rightarrow>
             (case find_field json ''data'' of
                None \<Rightarrow> (gelf, and_then (gelf_of_text X m) (\<lambda>s. Inr (Some s)))
              | Some d \<Rightarrow>
                  (case d of
                     JObj fs \<Rightarrow>
                       (case data_fields X fs gelf of
                          (g, None) \<Rightarrow> (g, Inr None)
                        | (g, Some e) \<Rightarrow> (g, Inl e))
                   | _ \<Rightarrow> (gelf, Inl IqException))))"

definition gelf_from_tail :: "'d output_env \<Rightarrow> tail_message \<Rightarrow> string outcome" where
  "gelf_from_tail X m =
     (let finish = (\<lambda>g. and_then (oe_setField X ''file'' (FString (ts_filename (tm_source m))) g)
                          (\<lambda>g. Inr (gelf_dump (oe_json X) g)))
      in case tail_try X m of
           (_, Inr (Some s)) \<Rightarrow> Inr s
         | (g, Inr None) \<Rightarrow> finish g
         | (g, Inl e) \<Rightarrow>
             (if catches NlohmannParseError e \<or> catches NlohmannException e
              then and_then (oe_setField X ''short_message'' (FString (tm_data m)) g) finish
              else if catches GelfException e then Inl IqException else Inl e))"

text \<open>
  A JSON message: the iterator of a document that is no object visits values without a key, and
  asking for the key throws.
\<close>

fun item_fields :: "'d output_env \<Rightarrow> (string option \<times> 'd json) list \<Rightarrow> 'd gelf \<Rightarrow> 'd gelf outcome" where
  "item_fields X [] g = Inr g"
| "item_fields X ((key, j) # r) g =
     (if settable j then
        (case key of
           None \<Rightarrow> Inl NlohmannException
         | Some k \<Rightarrow> and_then (oe_setField X k (FJson j) g) (item_fields X r))
      else item_fields X r g)"

definition gelf_from_json :: "'d output_env \<Rightarrow> ('d, 'ep) json_message \<Rightarrow> string outcome" where
  "gelf_from_json X m =
     and_then (item_fields X (json_items (js_json m)) (oe_gelf X)) (\<lambda>g. Inr (gelf_dump (oe_json X) g))"

definition gelf_from_dummy :: "'d output_env \<Rightarrow> dummy_message \<Rightarrow> string outcome" where
  "gelf_from_dummy X m =
     and_then (oe_setField X ''short_message'' (FString (dm_data m)) (oe_gelf X)) (\<lambda>g. Inr (gelf_dump (oe_json X) g))"

primrec gelf_record :: "'d output_env \<Rightarrow> ('d, 'ep) message \<Rightarrow> string outcome" where
  "gelf_record X (MTail m) = gelf_from_tail X m"
| "gelf_record X (MJournal m) = gelf_from_journal X m"
| "gelf_record X (MGelf m) = Inr (gelf_exportMessage (oe_json X) m)"
| "gelf_record X (MJson m) = gelf_from_json X m"
| "gelf_record X (MDummy m) = gelf_from_dummy X m"
| "gelf_record X (MProcessor s) = Inr (processor_exportMessage s)"

subsection \<open>Messages become log records\<close>

text \<open>The stream operator: numbers in decimal, booleans as 1 and 0.\<close>

primrec stream_variant :: "'d output_env \<Rightarrow> 'd variant \<Rightarrow> string" where
  "stream_variant X (VStr s) = s"
| "stream_variant X (VInt n) = (if n < 0 then CHR ''-'' # to_string (nat (- n)) else to_string (nat n))"
| "stream_variant X (VDbl d) = oe_stream_dbl X d"
| "stream_variant X (VBool b) = (if b then ''1'' else ''0'')"

definition log_from_journal :: "'d output_env \<Rightarrow> 'd journal_message \<Rightarrow> string" where
  "log_from_journal X m =
     concat (map (\<lambda>(key, value). key @ '' : '' @ stream_variant X value @ [CHR 0x0A]) (jm_data m))"

definition log_from_tail :: "tail_message \<Rightarrow> string" where
  "log_from_tail m = ts_filename (tm_source m) @ '' : '' @ tm_data m @ [CHR 0x0A]"

primrec log_record :: "'d output_env \<Rightarrow> ('d, 'ep) message \<Rightarrow> string outcome" where
  "log_record X (MTail m) = Inr (log_from_tail m)"
| "log_record X (MJournal m) = Inr (log_from_journal X m)"
| "log_record X (MGelf m) = Inr (gelf_exportMessage (oe_json X) m)"
| "log_record X (MJson m) = Inr (json_exportMessage (oe_json X) m)"
| "log_record X (MDummy m) = Inr (dm_data m)"
| "log_record X (MProcessor s) = Inr (processor_exportMessage s)"

subsection \<open>Importing a bulk\<close>

definition output_record :: "'d output_env \<Rightarrow> output_type \<Rightarrow> ('d, 'ep) message \<Rightarrow> string outcome" where
  "output_record X type m = (case type of OUT_LOG \<Rightarrow> log_record X m | _ \<Rightarrow> gelf_record X m)"

record 'o output_state =
  out_name :: string
  out_type :: output_type
  out_queue :: "'o message_queue"
  out_send_counter :: "64 word"

definition Output :: "'d destination_config \<Rightarrow> 'o \<Rightarrow> 'o output_state" where
  "Output c q0 =
     \<lparr>out_name = dc_name c, out_type = dc_type c,
      out_queue = MessageQueue_default (''outputs.'' @ dc_name c @ ''.queue'') q0, out_send_counter = 0\<rparr>"

text \<open>
  The messages stay with the caller: an output makes its own records of them. A message that cannot
  be converted is skipped when the exception is one of the program's.
\<close>

definition output_importMessages :: "('o, string) cq_lib \<Rightarrow> (output_type \<Rightarrow> 'm \<Rightarrow> string outcome)
    \<Rightarrow> string other_act list list \<Rightarrow> 'm list \<Rightarrow> 'o output_state \<Rightarrow> ('o output_state \<times> bool) outcome option" where
  "output_importMessages L conv env messages out =
     (case export_bulk (conv (out_type out)) messages of
        Inl e \<Rightarrow> Some (Inl e)
      | Inr imported \<Rightarrow>
          (if imported \<noteq> [] then
             (case mq_enqueue_bulk L env (out_queue out) imported of
                None \<Rightarrow> None
              | Some (q, ok, t, p) \<Rightarrow> Some (Inr (out\<lparr>out_queue := q\<rparr>, ok)))
           else Some (Inr (out, False))))"

subsection \<open>The output server\<close>

fun import_outputs :: "('o, string) cq_lib \<Rightarrow> (output_type \<Rightarrow> 'm \<Rightarrow> string outcome)
    \<Rightarrow> (nat \<Rightarrow> string other_act list list) \<Rightarrow> 'm list \<Rightarrow> 'o output_state list \<Rightarrow> 'o output_state list outcome option" where
  "import_outputs L conv envs messages [] = Some (Inr [])"
| "import_outputs L conv envs messages (out # outs) =
     (case output_importMessages L conv (envs 0) messages out of
        None \<Rightarrow> None
      | Some (Inl e) \<Rightarrow> Some (Inl e)
      | Some (Inr (out', imported)) \<Rightarrow>
          (case import_outputs L conv (\<lambda>n. envs (Suc n)) messages outs of
             None \<Rightarrow> None
           | Some (Inl e) \<Rightarrow> Some (Inl e)
           | Some (Inr outs') \<Rightarrow> Some (Inr (out' # outs'))))"

record ('q, 'o) output_server =
  os_main :: "'q message_queue"
  os_outputs :: "'o output_state list"

text \<open>
  One turn of a thread: a bulk from the main queue goes to every output; an exception that leaves an
  import ends the thread.
\<close>

definition output_server_turn :: "('q, 'm) cq_lib \<Rightarrow> ('o, string) cq_lib \<Rightarrow> (output_type \<Rightarrow> 'm \<Rightarrow> string outcome)
    \<Rightarrow> (nat \<Rightarrow> string other_act list list) \<Rightarrow> ('q, 'o) output_server
    \<Rightarrow> ('q, 'o) output_server outcome option" where
  "output_server_turn Lm Lo conv envs s =
     (case mq_try_dequeue_bulk Lm (os_main s) max_queue_bulk_size of
        (main, messages) \<Rightarrow>
          (if messages \<noteq> [] then
             (case import_outputs Lo conv envs messages (os_outputs s) of
                None \<Rightarrow> None
              | Some (Inl e) \<Rightarrow> Some (Inl e)
              | Some (Inr outs) \<Rightarrow> Some (Inr \<lparr>os_main = main, os_outputs = outs\<rparr>))
           else Some (Inr (s\<lparr>os_main := main\<rparr>))))"

subsection \<open>Every output gets every message\<close>

text \<open>What one output has done with a bulk.\<close>

definition imported_to :: "('o, string) cq_lib \<Rightarrow> (output_type \<Rightarrow> 'm \<Rightarrow> string outcome) \<Rightarrow> 'm list
    \<Rightarrow> 'o output_state \<Rightarrow> 'o output_state \<Rightarrow> bool" where
  "imported_to L conv messages out out' \<longleftrightarrow>
     out_name out' = out_name out \<and> out_type out' = out_type out
     \<and> (\<exists>t p lost. mq_held L (out_queue out') + mset t + mset lost
          = mq_held L (out_queue out) + mset p + mset (List.map_filter (exported (conv (out_type out))) messages)
        \<and> (lost = [] \<or> lost = List.map_filter (exported (conv (out_type out))) messages))"

lemma imported_toI:
  assumes "cq_ok L" "output_importMessages L conv env messages out = Some (Inr (out', ok))"
  shows "imported_to L conv messages out out'"
proof -
  from assms(2) obtain rs where rs: "export_bulk (conv (out_type out)) messages = Inr rs"
    by (cases "export_bulk (conv (out_type out)) messages") (auto simp: output_importMessages_def)
  with export_bulk_Inr have f: "List.map_filter (exported (conv (out_type out))) messages = rs" by metis
  show ?thesis
  proof (cases "rs = []")
    case True
    with assms(2) rs f show ?thesis
      by (auto simp: output_importMessages_def imported_to_def intro!: exI [of _ "[]"])
  next
    case False
    with assms(2) rs obtain q t p where q: "mq_enqueue_bulk L env (out_queue out) rs = Some (q, ok, t, p)"
        "out' = out\<lparr>out_queue := q\<rparr>"
      by (auto simp: output_importMessages_def split: option.splits)
    have "mq_held L q + mset t + mset (if ok then [] else rs) = mq_held L (out_queue out) + mset p + mset rs"
      using mq.push_law [OF assms(1) q(1)] by (cases ok) (simp_all add: ac_simps)
    moreover have "(if ok then [] else rs) = [] \<or> (if ok then [] else rs) = rs" by simp
    ultimately have "\<exists>t p lost. mq_held L q + mset t + mset lost = mq_held L (out_queue out) + mset p + mset rs
        \<and> (lost = [] \<or> lost = rs)" by blast
    with q(2) show ?thesis by (simp add: imported_to_def f)
  qed
qed

lemma import_outputs_all:
  "cq_ok L \<Longrightarrow> import_outputs L conv envs messages outs = Some (Inr outs') \<Longrightarrow>
   list_all2 (imported_to L conv messages) outs outs'"
  by (induction outs arbitrary: envs outs')
     (auto split: option.splits sum.splits dest!: imported_toI)

text \<open>
  A turn of the output server takes a bulk of messages off the main queue and hands every one of
  them to every output: the queue of each output gains exactly the records of the messages its own
  conversion accepts, or, when its queue refuses them, none.
\<close>

theorem output_fan_out:
  assumes "cq_ok Lm" "cq_ok Lo" "output_server_turn Lm Lo conv envs s = Some (Inr s')"
  shows "\<exists>messages. length messages \<le> max_queue_bulk_size
    \<and> mq_held Lm (os_main s) = mq_held Lm (os_main s') + mset messages
    \<and> list_all2 (imported_to Lo conv messages) (os_outputs s) (os_outputs s')"
proof -
  obtain main messages where d: "mq_try_dequeue_bulk Lm (os_main s) max_queue_bulk_size = (main, messages)"
    by fastforce
  have none: "list_all2 (imported_to Lo conv []) outs outs" for outs
    by (rule list_all2_refl) (auto simp: imported_to_def List.map_filter_simps intro!: exI [of _ "[]"])
  from assms(3) d have "os_main s' = main \<and> list_all2 (imported_to Lo conv messages) (os_outputs s) (os_outputs s')"
    using import_outputs_all [OF assms(2)] none
    by (auto simp: output_server_turn_def split: if_splits option.splits sum.splits)
  with mq.pull_law [OF assms(1) d] mq.pull_bound [OF assms(1) d] show ?thesis by blast
qed

lemma output_fan_out_witness:
  "output_server_turn (list_cq :: (nat list, nat) cq_lib) list_cq (\<lambda>type m. if type = OUT_LOG \<and> m = 2 then Inl IqException else Inr (to_string m))
      (\<lambda>_. []) \<lparr>os_main = MessageQueue ''main'' 5 OV_DROP [1, 2],
        os_outputs = [\<lparr>out_name = ''a'', out_type = OUT_LOG, out_queue = MessageQueue ''a'' 5 OV_DROP [], out_send_counter = 0\<rparr>]\<rparr>
    = Some (Inr \<lparr>os_main = MessageQueue ''main'' 5 OV_DROP [],
        os_outputs = [\<lparr>out_name = ''a'', out_type = OUT_LOG, out_queue = MessageQueue ''a'' 5 OV_DROP [to_string 1], out_send_counter = 0\<rparr>]\<rparr>)
    \<and> (\<exists>messages. length messages \<le> max_queue_bulk_size \<and> {#1, 2::nat#} = {#} + mset messages)"
proof -
  let ?s = "\<lparr>os_main = MessageQueue ''main'' 5 OV_DROP [1, 2 :: nat],
    os_outputs = [\<lparr>out_name = ''a'', out_type = OUT_LOG, out_queue = MessageQueue ''a'' 5 OV_DROP [], out_send_counter = 0\<rparr>]\<rparr>"
  let ?s' = "\<lparr>os_main = MessageQueue ''main'' 5 OV_DROP [],
    os_outputs = [\<lparr>out_name = ''a'', out_type = OUT_LOG, out_queue = MessageQueue ''a'' 5 OV_DROP [to_string 1], out_send_counter = 0\<rparr>]\<rparr>"
  let ?conv = "\<lambda>type m. if type = OUT_LOG \<and> m = 2 then Inl IqException else Inr (to_string m)"
  have t: "output_server_turn (list_cq :: (nat list, nat) cq_lib) list_cq ?conv (\<lambda>_. []) ?s = Some (Inr ?s')"
    by (simp add: output_server_turn_def mq_try_dequeue_bulk_def MessageQueue_def max_queue_bulk_size_def
        output_importMessages_def mq_enqueue_bulk_def)
  from output_fan_out [OF list_cq_ok list_cq_ok t] t show ?thesis
    by (auto simp: mq_held_def MessageQueue_def)
qed

subsection \<open>Lines of a tailed file\<close>

lemma oe_setField_string:
  "oe_setField X ''short_message'' (FString s) g = Inr (g\<lparr>gf_short_message := s\<rparr>)"
  "oe_setField X ''host'' (FString s) g = Inr (g\<lparr>gf_host := s\<rparr>)"
  by (simp_all add: oe_setField_def setField_def assign_with_def arg_string_def)

lemma oe_setField_file:
  "oe_setField X ''file'' (FString s) g = Inr (g\<lparr>gf_additionalFields := emplace ''_file'' (VStr s) (gf_additionalFields g)\<rparr>)"
  by (simp add: oe_setField_def setField_def arg_variant_def field_name_def)

lemma gelf_from_tail_text:
  assumes "json_lib_ok (oe_json X)" "jl_parse (oe_json X) (tm_data m) = Inl e"
  shows "gelf_from_tail X m = Inr (gelf_dump (oe_json X) ((oe_gelf X)\<lparr>gf_short_message := tm_data m,
    gf_additionalFields := [(''_file'', VStr (ts_filename (tm_source m)))]\<rparr>))"
proof -
  have "e = NlohmannParseError" using assms by (auto simp: json_lib_ok_def)
  with assms(2) show ?thesis
    by (simp add: gelf_from_tail_def tail_try_def Let_def oe_setField_string oe_setField_file emplace_def
        oe_gelf_def gelf_default_def)
qed

text \<open>
  A tailed line that is no JSON document is sent whole, as the short message, with the name of
  its file; but a line that happens to be a JSON document other than an object, such as a number, a
  quoted word or a list, is refused, and the GELF output drops it.
\<close>

theorem tail_line_to_gelf:
  assumes "json_lib_ok (oe_json X)" "\<not> gelf_magic (tm_data m)"
  shows "(\<forall>e. jl_parse (oe_json X) (tm_data m) = Inl e \<longrightarrow>
      gelf_from_tail X m = Inr (gelf_dump (oe_json X) ((oe_gelf X)\<lparr>gf_short_message := tm_data m,
        gf_additionalFields := [(''_file'', VStr (ts_filename (tm_source m)))]\<rparr>)))
    \<and> (\<forall>j. jl_parse (oe_json X) (tm_data m) = Inr j \<and> jl_rj_parse (oe_json X) (c_str (tm_data m)) = Some j
        \<and> (\<forall>fs. j \<noteq> JObj fs) \<longrightarrow>
      gelf_from_tail X m = Inl IqException \<and> exported (output_record X OUT_GELF) (MTail m) = None)"
proof (intro conjI allI impI)
  fix e
  assume p: "jl_parse (oe_json X) (tm_data m) = Inl e"
  from gelf_from_tail_text [OF assms(1) p] show "gelf_from_tail X m = Inr (gelf_dump (oe_json X)
      ((oe_gelf X)\<lparr>gf_short_message := tm_data m, gf_additionalFields := [(''_file'', VStr (ts_filename (tm_source m)))]\<rparr>))" .
next
  fix j
  assume j: "jl_parse (oe_json X) (tm_data m) = Inr j \<and> jl_rj_parse (oe_json X) (c_str (tm_data m)) = Some j
      \<and> (\<forall>fs. j \<noteq> JObj fs)"
  then have "find_field j ''data'' = None" by (cases j) (simp_all add: find_field_def)
  moreover have "\<exists>e. gelf_of_text X m = Inl e \<and> catches GelfException e \<and> \<not> catches NlohmannException e
      \<and> \<not> catches NlohmannParseError e"
    using j assms(2)
    by (cases j) (simp_all add: gelf_of_text_def GelfMessage_def decompress_def gelf_parse_def oe_json_def Let_def)
  ultimately show "gelf_from_tail X m = Inl IqException"
    using j by (auto simp: gelf_from_tail_def tail_try_def Let_def)
  then show "exported (output_record X OUT_GELF) (MTail m) = None"
    by (simp add: exported_def output_record_def)
qed

text \<open>The environment of the concrete runs: one document is known, and it is the number 42.\<close>

definition number_env :: "int output_env" where
  "number_env =
     \<lparr>oe_export = \<lparr>ee_dbl = int_dbl, ee_json = one_doc_lib ''42!'' (JInt 42), ee_gunzip = (\<lambda>_. None),
        ee_inflate = (\<lambda>_. None), ee_now = 1600000000\<rparr>,
      oe_assign = \<lparr>ja_string = (\<lambda>_. Inr None), ja_double = (\<lambda>_. Inr None), ja_uchar = (\<lambda>_. Inr None)\<rparr>,
      oe_hostname = ''host'', oe_stream_dbl = (\<lambda>d. to_string (nat d))\<rparr>"

lemma tail_line_to_gelf_witness:
  "gelf_from_tail number_env (TailMessage ''t'' ''hello'' (TailSource ''/f'' None))
     = Inr (gelf_dump (oe_json number_env) ((oe_gelf number_env)\<lparr>gf_short_message := ''hello'',
         gf_additionalFields := [(''_file'', VStr ''/f'')]\<rparr>))
   \<and> gelf_from_tail number_env (TailMessage ''t'' ''42!'' (TailSource ''/f'' None)) = Inl IqException"
proof -
  have L: "oe_json number_env = one_doc_lib ''42!'' (JInt 42)" by (simp add: oe_json_def number_env_def)
  let ?L = "one_doc_lib ''42!'' (JInt 42) :: int json_lib"
  have m: "\<not> gelf_magic ''hello''" "\<not> gelf_magic ''42!''" by (simp_all add: gelf_magic_def)
  have p: "jl_parse ?L ''hello'' = Inl NlohmannParseError" "jl_parse ?L ''42!'' = Inr (JInt 42)"
      "jl_rj_parse ?L (c_str ''42!'') = Some (JInt 42)"
    by (simp_all add: one_doc_lib_def c_str_def)
  have d: "tm_data (TailMessage ''t'' s (TailSource ''/f'' None)) = s"
      "ts_filename (tm_source (TailMessage ''t'' s (TailSource ''/f'' None))) = ''/f''" for s
    by (simp_all add: TailMessage_def TailSource_def)
  from tail_line_to_gelf [of number_env "TailMessage ''t'' ''hello'' (TailSource ''/f'' None)"]
    tail_line_to_gelf [of number_env "TailMessage ''t'' ''42!'' (TailSource ''/f'' None)"]
  show ?thesis unfolding L d by (simp only: one_doc_lib_ok m p simp_thms sum.inject) auto
qed

end
