(* ===== verification/IQ_Output_Send.thy ===== *)
theory IQ_Output_Send
  imports IQ_Output IQ_Task "HOL-Library.Sublist"
begin

text \<open>
  The threads of the outputs: the GELF output, which sends its records over TCP and sends a buffer
  again on a new connection after an error (src/outputs/gelf/tcp/GelfOutput.cpp), and the log output
  (src/outputs/log/LogOutput.cpp), with the choice of the output by type (src/outputs/gelf/Output.cpp,
  src/outputs/log/Output.cpp, src/outputs/OutputInterface.h). The network is the outcome of each
  connection attempt and of each write; what a peer has received is kept per connection. A stop of
  the input-output service in the middle of a write is not modelled.
\<close>

subsection \<open>Constructors\<close>

record gelf_output =
  go_upstreams :: "string list"
  go_port :: "16 word option"

text \<open>\<open>go_port\<close> is \<open>None\<close> when the member is left uninitialised.\<close>

definition GelfOutput :: "'d json_lib \<Rightarrow> 'd destination_config \<Rightarrow> gelf_output outcome" where
  "GelfOutput L c =
     and_then
       (case getParam (get_strings L) (dc_params c) ''hosts'' of
          Some hosts \<Rightarrow> if hosts \<noteq> [] then Inr hosts else Inl ConfigException
        | None \<Rightarrow> Inl ConfigException)
       (\<lambda>m_upstreams. Inr \<lparr>go_upstreams = m_upstreams,
          go_port = (case getParam (jl_get_ushort L) (dc_params c) ''port'' of
                       Some port \<Rightarrow> if port \<noteq> 0 then Some port else None
                     | None \<Rightarrow> None)\<rparr>)"

definition gelf_upstreams :: "gelf_output \<Rightarrow> nat \<Rightarrow> string list" where
  "gelf_upstreams o' m_thread_num = map (\<lambda>i. go_upstreams o' ! (i mod length (go_upstreams o'))) [0..<m_thread_num]"

definition instantiate_gelf_output :: "'d json_lib \<Rightarrow> 'd destination_config \<Rightarrow> gelf_output outcome" where
  "instantiate_gelf_output L c =
     (if getParam protocol_from_json (dc_params c) ''protocol'' = Some PR_TCP then GelfOutput L c
      else Inl IqException)"

datatype any_output = AnyGelf gelf_output | AnyLog

definition instantiate_output :: "output_type list \<Rightarrow> 'd json_lib \<Rightarrow> 'd destination_config \<Rightarrow> any_output outcome" where
  "instantiate_output types L c =
     (if dc_type c \<in> set types then
        (case dc_type c of
           OUT_GELF \<Rightarrow> and_then (instantiate_gelf_output L c) (\<lambda>g. Inr (AnyGelf g))
         | OUT_LOG \<Rightarrow> Inr AnyLog
         | OUT_UNDEFINED \<Rightarrow> Inl IqException)
      else Inl IqException)"

subsection \<open>Connections and writes\<close>

text \<open>
  \<open>sd_conns\<close> is what each peer has received, the newest connection first; \<open>sd_open\<close> tells whether
  the newest attempt connected. A write that fails may have delivered a part.
\<close>

record sender =
  sd_conns :: "string list"
  sd_open :: bool
  sd_error :: bool

definition new_sender :: sender where
  "new_sender = \<lparr>sd_conns = [], sd_open = False, sd_error = False\<rparr>"

definition connect :: "bool \<Rightarrow> sender \<Rightarrow> sender" where
  "connect ok s = s\<lparr>sd_conns := [] # sd_conns s, sd_open := ok, sd_error := \<not> ok\<rparr>"

fun establish :: "(bool \<times> bool) list \<Rightarrow> sender \<Rightarrow> sender option" where
  "establish [] s = None"
| "establish ((ok, running) # r) s =
     (let s1 = connect ok s in if sd_error s1 \<and> running then establish r s1 else Some s1)"

datatype write_result = Written | Broken nat

record attempt =
  at_connect :: bool
  at_write :: write_result
  at_running :: bool

definition deliver_to :: "string \<Rightarrow> string list \<Rightarrow> string list" where
  "deliver_to d conns = (case conns of [] \<Rightarrow> [] | c # cs \<Rightarrow> (c @ d) # cs)"

definition write_buffer :: "write_result \<Rightarrow> string \<Rightarrow> sender \<Rightarrow> sender" where
  "write_buffer w str s =
     (if sd_open s then
        (case w of
           Written \<Rightarrow> s\<lparr>sd_conns := deliver_to str (sd_conns s), sd_error := False\<rparr>
         | Broken n \<Rightarrow> s\<lparr>sd_conns := deliver_to (take n str) (sd_conns s), sd_error := True\<rparr>)
      else s\<lparr>sd_error := True\<rparr>)"

text \<open>
  The flush loop: reconnect after an error, write the whole buffer, until there is no error or the
  output is stopped. It has not returned (\<open>None\<close>) when the attempts end first.
\<close>

fun flush_loop :: "string \<Rightarrow> attempt list \<Rightarrow> sender \<Rightarrow> (sender \<times> attempt list) option" where
  "flush_loop str [] s = None"
| "flush_loop str (a # as) s =
     (let s1 = (if sd_error s then connect (at_connect a) s else s);
          s2 = write_buffer (at_write a) str s1
      in if sd_error s2 \<and> at_running a then flush_loop str as s2 else Some (s2, as))"

definition flush :: "string \<Rightarrow> attempt list \<Rightarrow> sender \<Rightarrow> (sender \<times> attempt list) option" where
  "flush str as s = flush_loop str as (s\<lparr>sd_error := False\<rparr>)"

subsection \<open>Sending a bulk\<close>

definition queue_bulk :: nat where "queue_bulk = 1000"
definition buff_len :: nat where "buff_len = 8 * 4096"

text \<open>The loop over a bulk, with the buffer and the length it counts, which leaves out the delimiters.\<close>

fun send_records :: "string list \<Rightarrow> string \<Rightarrow> nat \<Rightarrow> attempt list \<Rightarrow> sender \<Rightarrow> (sender \<times> attempt list) option" where
  "send_records [] buff current_buff_len as s =
     (if current_buff_len \<noteq> 0 then flush buff as s else Some (s, as))"
| "send_records (str # rs) buff current_buff_len as s =
     (let buff = buff @ str @ [CHR 0x00];
          current_buff_len = current_buff_len + length str
      in if buff_len \<le> current_buff_len then
           (case flush buff as s of
              None \<Rightarrow> None
            | Some (s', as') \<Rightarrow> send_records rs [] 0 as' s')
         else send_records rs buff current_buff_len as s)"

definition gelf_output_turn :: "('o, string) cq_lib \<Rightarrow> attempt list \<Rightarrow> 'o output_state \<times> sender \<times> 64 word
    \<Rightarrow> (('o output_state \<times> sender \<times> 64 word) \<times> attempt list) option" where
  "gelf_output_turn L as st =
     (case st of (out, s, total_send) \<Rightarrow>
        (case mq_try_dequeue_bulk L (out_queue out) queue_bulk of
           (q, bulk) \<Rightarrow>
             (if bulk \<noteq> [] then
                (case send_records bulk [] 0 as s of
                   None \<Rightarrow> None
                 | Some (s', as') \<Rightarrow>
                     Some ((out\<lparr>out_queue := q, out_send_counter := out_send_counter out + of_nat (length bulk)\<rparr>,
                            s', total_send + of_nat (length bulk)), as'))
              else Some ((out\<lparr>out_queue := q\<rparr>, s, total_send), as))))"

subsection \<open>The log output\<close>

definition log_output_turn :: "('o, string) cq_lib \<Rightarrow> 'o output_state \<times> string list \<times> 64 word
    \<Rightarrow> 'o output_state \<times> string list \<times> 64 word" where
  "log_output_turn L st =
     (case st of (out, logged, total_send) \<Rightarrow>
        (case mq_try_dequeue_bulk L (out_queue out) queue_bulk of
           (q, bulk) \<Rightarrow>
             (out\<lparr>out_queue := q, out_send_counter := out_send_counter out + of_nat (length bulk)\<rparr>,
              logged @ bulk, total_send + of_nat (length bulk))))"

text \<open>
  The two \<open>stopImpl\<close>: the GELF output stops its service and joins its threads; the log output calls
  \<open>stop\<close>, the operation that has called it, whose hook is again \<open>stopImpl\<close> (\<open>inner\<close>). The state
  is whether the threads are joined.
\<close>

definition gelf_stopImpl :: "bool impl_fun" where
  "gelf_stopImpl t = (t\<lparr>impl := True\<rparr>, None)"

definition log_stopImpl :: "bool impl_fun \<Rightarrow> bool impl_fun" where
  "log_stopImpl inner t =
     (case task_stop inner t of
        (t', None) \<Rightarrow> (t'\<lparr>impl := True\<rparr>, None)
      | (t', Some e) \<Rightarrow> (t', Some e))"

text \<open>
  The log output cannot be stopped: whatever the inner call would do, \<open>stop\<close> of a running log
  output throws, with the task already marked as stopped and its threads not joined, while the GELF
  output joins them.
\<close>

theorem log_output_stop_throws:
  assumes "m_started t" "\<not> impl t"
  shows "task_stop (log_stopImpl inner) t = (t\<lparr>m_started := False\<rparr>, Some LogicError)
    \<and> \<not> impl (fst (task_stop (log_stopImpl inner) t))
    \<and> task_stop gelf_stopImpl t = (t\<lparr>m_started := False, impl := True\<rparr>, None)"
  using assms by (simp add: task_stop_def log_stopImpl_def gelf_stopImpl_def)

lemma log_output_stop_throws_witness:
  "task_stop (log_stopImpl gelf_stopImpl) \<lparr>m_inited = True, m_started = True, impl = False\<rparr>
     = (\<lparr>m_inited = True, m_started = False, impl = False\<rparr>, Some LogicError)"
  using log_output_stop_throws [of "\<lparr>m_inited = True, m_started = True, impl = False\<rparr>" gelf_stopImpl] by simp

subsection \<open>What the peers receive\<close>

definition framed :: "string list \<Rightarrow> string" where
  "framed rs = concat (map (\<lambda>r. r @ [CHR 0x00]) rs)"

lemma framed_simps [simp]: "framed [] = []" "framed (r # rs) = r @ CHR 0x00 # framed rs"
    "framed (rs @ qs) = framed rs @ framed qs"
  by (simp_all add: framed_def)

lemma split_nul_Nil [simp]: "split_nul [] = ([], [])"
  by (simp add: split_nul_free nul_free_def)

lemma split_nul_framed: "list_all nul_free rs \<Longrightarrow> split_nul (framed rs) = ([], rs)"
  by (induction rs) (auto simp: split_nul_frame)

lemma split_nul_take:
  "list_all nul_free rs \<Longrightarrow> \<exists>r gs. split_nul (take n (framed rs)) = (r, gs) \<and> prefix gs rs"
proof (induction rs arbitrary: n)
  case (Cons q rs)
  show ?case
  proof (cases "n \<le> length q")
    case True
    moreover have "nul_free (take n q)" using Cons.prems by (auto simp: nul_free_def dest: in_set_takeD)
    ultimately show ?thesis by (simp add: split_nul_free)
  next
    case False
    then obtain m where m: "n = length q + Suc m" by (metis add_Suc_right less_iff_Suc_add not_le)
    obtain r gs where "split_nul (take m (framed rs)) = (r, gs)" "prefix gs rs"
      using Cons.IH [of m] Cons.prems by auto
    with m Cons.prems show ?thesis by (auto simp: split_nul_frame)
  qed
qed simp

definition received :: "sender \<Rightarrow> string list" where
  "received s = concat (map (\<lambda>c. snd (split_nul c)) (rev (sd_conns s)))"

definition clean :: "sender \<Rightarrow> bool" where
  "clean s \<longleftrightarrow> (case sd_conns s of [] \<Rightarrow> \<not> sd_open s | c # _ \<Rightarrow> fst (split_nul c) = [])"

lemma received_sel [simp]:
  "received (s\<lparr>sd_error := b\<rparr>) = received s" "clean (s\<lparr>sd_error := b\<rparr>) = clean s"
  by (simp_all add: received_def clean_def split: list.splits)

lemma connect_clean: "clean (connect ok s)" "received (connect ok s) = received s" "sd_open (connect ok s) = ok"
  by (simp_all add: connect_def clean_def received_def)

lemma split_nul_after:
  assumes "fst (split_nul c) = []"
  shows "split_nul (c @ d) = (case split_nul d of (r, fs) \<Rightarrow> (r, snd (split_nul c) @ fs))"
  using assms split_nul_append [of c d] by (cases "split_nul c") simp

lemma write_buffer_received:
  assumes "list_all nul_free rs" "clean s"
  shows "\<exists>gs. received (write_buffer w (framed rs) s) = received s @ gs \<and> prefix gs rs
    \<and> (\<not> sd_error (write_buffer w (framed rs) s) \<longrightarrow>
        gs = rs \<and> clean (write_buffer w (framed rs) s) \<and> sd_open s \<and> w = Written)"
proof (cases "sd_open s")
  case False
  then show ?thesis by (simp add: write_buffer_def)
next
  case True
  then obtain c cs where c: "sd_conns s = c # cs" "fst (split_nul c) = []"
    using assms(2) by (auto simp: clean_def split: list.splits)
  show ?thesis
  proof (cases w)
    case Written
    with True c assms(1) show ?thesis
      by (simp add: write_buffer_def deliver_to_def received_def clean_def split_nul_after split_nul_framed)
  next
    case (Broken n)
    obtain r gs where "split_nul (take n (framed rs)) = (r, gs)" "prefix gs rs"
      using split_nul_take [OF assms(1)] by blast
    with Broken True c show ?thesis
      by (simp add: write_buffer_def deliver_to_def received_def split_nul_after)
  qed
qed

lemma write_buffer_open [simp]: "sd_open (write_buffer w str s) = sd_open s"
  by (simp add: write_buffer_def split: write_result.splits)

lemma flush_loop_received:
  assumes "list_all nul_free rs"
  shows "flush_loop (framed rs) as s = Some (s', as') \<Longrightarrow> list_all at_running as \<Longrightarrow> sd_error s \<or> clean s \<Longrightarrow>
    \<exists>ext. received s' = received s @ ext \<and> subseq rs ext \<and> set ext \<subseteq> set rs
      \<and> clean s' \<and> sd_open s' \<and> list_all at_running as'
      \<and> (\<not> sd_error s \<and> sd_open s \<and> list_all (\<lambda>a. at_write a = Written) as \<longrightarrow>
           ext = rs \<and> list_all (\<lambda>a. at_write a = Written) as')"
proof (induction as arbitrary: s)
  case (Cons a as)
  let ?s1 = "if sd_error s then connect (at_connect a) s else s"
  let ?s2 = "write_buffer (at_write a) (framed rs) ?s1"
  have s1: "clean ?s1" "received ?s1 = received s" using Cons.prems(3) connect_clean by auto
  obtain gs where gs: "received ?s2 = received s @ gs" "prefix gs rs"
    and ok: "\<not> sd_error ?s2 \<longrightarrow> gs = rs \<and> clean ?s2 \<and> sd_open ?s1 \<and> at_write a = Written"
    using write_buffer_received [OF assms s1(1), of "at_write a"] s1(2) by auto
  show ?case
  proof (cases "sd_error ?s2")
    case True
    with Cons.prems have f: "flush_loop (framed rs) as ?s2 = Some (s', as')" "list_all at_running as"
      by (auto simp: Let_def)
    from Cons.IH [OF f] True obtain ext where ext: "received s' = received ?s2 @ ext" "subseq rs ext"
        "set ext \<subseteq> set rs" "clean s'" "sd_open s'" "list_all at_running as'" by auto
    have "\<not> (\<not> sd_error s \<and> sd_open s \<and> at_write a = Written)"
      using True by (auto simp: write_buffer_def)
    moreover have "subseq rs (gs @ ext)" using ext(2) by (simp add: list_emb_append2)
    moreover have "set (gs @ ext) \<subseteq> set rs" using ext(3) gs(2) set_mono_prefix by auto
    ultimately show ?thesis using ext gs(1) by (intro exI [of _ "gs @ ext"]) auto
  next
    case False
    with Cons.prems have "s' = ?s2" "as' = as" by (auto simp: Let_def)
    with ok gs(1) False Cons.prems(2) show ?thesis by (intro exI [of _ rs]) auto
  qed
qed simp

lemma flush_received:
  assumes "list_all nul_free rs" "flush (framed rs) as s = Some (s', as')" "list_all at_running as" "clean s"
  shows "\<exists>ext. received s' = received s @ ext \<and> subseq rs ext \<and> set ext \<subseteq> set rs
      \<and> clean s' \<and> sd_open s' \<and> list_all at_running as'
      \<and> (sd_open s \<and> list_all (\<lambda>a. at_write a = Written) as \<longrightarrow>
           ext = rs \<and> list_all (\<lambda>a. at_write a = Written) as')"
  using flush_loop_received [OF assms(1) assms(2) [unfolded flush_def] assms(3)] assms(4) by simp

definition text_length :: "string list \<Rightarrow> nat" where
  "text_length rs = sum_list (map length rs)"

lemma text_length_0: "text_length rs = 0 \<Longrightarrow> r \<in> set rs \<Longrightarrow> r = []"
  by (auto simp: text_length_def)

definition all_written :: "attempt list \<Rightarrow> bool" where
  "all_written as = list_all (\<lambda>a. at_write a = Written) as"

definition sent :: "string list \<Rightarrow> string list \<Rightarrow> bool" where
  "sent rs ext \<longleftrightarrow> subseq (filter (\<lambda>r. r \<noteq> []) rs) ext \<and> set ext \<subseteq> set rs"

lemma sent_subseq: "subseq rs ext \<Longrightarrow> set ext \<subseteq> set rs \<Longrightarrow> sent rs ext"
  unfolding sent_def using subseq_filter_left subseq_order.order_trans by blast

lemma sent_append: "sent as xs \<Longrightarrow> sent bs ys \<Longrightarrow> sent (as @ bs) (xs @ ys)"
  by (auto simp: sent_def intro: list_emb_append_mono)

lemma sent_empty: "\<forall>r \<in> set rs. r = [] \<Longrightarrow> sent rs []"
  by (auto simp: sent_def filter_empty_conv)

lemma send_records_received:
  "send_records rs (framed ds) (text_length ds) as s = Some (s', as') \<Longrightarrow>
   list_all nul_free (ds @ rs) \<Longrightarrow> list_all at_running as \<Longrightarrow> clean s \<Longrightarrow>
   \<exists>ext. received s' = received s @ ext \<and> sent (ds @ rs) ext \<and> clean s'
     \<and> (sd_open s \<and> all_written as \<and> (ds @ rs \<noteq> [] \<longrightarrow> last (ds @ rs) \<noteq> []) \<longrightarrow> ext = ds @ rs)"
proof (induction rs arbitrary: ds as s)
  case Nil
  show ?case
  proof (cases "text_length ds = 0")
    case True
    then have e: "\<forall>r \<in> set ds. r = []" using text_length_0 by blast
    then have "ds \<noteq> [] \<Longrightarrow> last ds = []" by simp
    with True Nil.prems sent_empty [OF e] show ?thesis by (intro exI [of _ "[]"]) auto
  next
    case False
    with Nil.prems have f: "flush (framed ds) as s = Some (s', as')" by simp
    have n: "list_all nul_free ds" using Nil.prems(2) by simp
    from flush_received [OF n f Nil.prems(3,4)] show ?thesis
      unfolding append_Nil2 all_written_def using sent_subseq by blast
  qed
next
  case (Cons r rs)
  let ?ds = "ds @ [r]"
  have b: "framed ds @ r @ [CHR 0x00] = framed ?ds" "text_length ds + length r = text_length ?ds"
    by (simp_all add: text_length_def)
  have n: "list_all nul_free ?ds" "list_all nul_free ([] @ rs)" "list_all nul_free (?ds @ rs)"
    using Cons.prems(2) by simp_all
  show ?case
  proof (cases "buff_len \<le> text_length ?ds")
    case True
    with Cons.prems(1) obtain s1 as1 where f: "flush (framed ?ds) as s = Some (s1, as1)"
        "send_records rs (framed []) (text_length []) as1 s1 = Some (s', as')"
      unfolding send_records.simps Let_def b by (auto simp: text_length_def simp del: framed_simps(3) split: option.splits)
    from flush_received [OF n(1) f(1) Cons.prems(3,4)] obtain ext where ext:
        "received s1 = received s @ ext" "sent ?ds ext" "clean s1" "sd_open s1" "list_all at_running as1"
        "sd_open s \<and> all_written as \<longrightarrow> ext = ?ds \<and> all_written as1"
      unfolding all_written_def using sent_subseq by blast
    from Cons.IH [OF f(2) n(2) ext(5,3)] obtain ext2 where ext2:
        "received s' = received s1 @ ext2" "sent rs ext2" "clean s'"
        "all_written as1 \<and> (rs \<noteq> [] \<longrightarrow> last rs \<noteq> []) \<longrightarrow> ext2 = rs"
      using ext(4) by auto
    have "sent (ds @ r # rs) (ext @ ext2)" using sent_append [OF ext(2) ext2(2)] by simp
    with ext ext2 show ?thesis by (intro exI [of _ "ext @ ext2"]) auto
  next
    case False
    then have "send_records rs (framed ?ds) (text_length ?ds) as s = Some (s', as')"
      using Cons.prems(1) unfolding send_records.simps Let_def b by simp
    from Cons.IH [OF this n(3) Cons.prems(3,4)] show ?thesis by simp
  qed
qed
lemma establish_clean:
  "establish cs s = Some s' \<Longrightarrow> clean s' \<and> received s' = received s \<and> (list_all snd cs \<longrightarrow> sd_open s')"
proof (induction cs arbitrary: s)
  case (Cons c cs)
  obtain ok running where c: "c = (ok, running)" by fastforce
  show ?case
  proof (cases "sd_error (connect ok s) \<and> running")
    case True
    with Cons.prems c have "establish cs (connect ok s) = Some s'" by simp
    from Cons.IH [OF this] connect_clean(2) show ?thesis by simp
  next
    case False
    with Cons.prems c have "s' = connect ok s" by (auto simp: Let_def)
    with False c connect_clean show ?thesis by (auto simp: connect_def)
  qed
qed simp

lemma gelf_output_turn_received:
  assumes "cq_ok L" "gelf_output_turn L as (out, s, total_send) = Some ((out', s', total_send'), as')"
    and "list_all at_running as" "clean s" "\<forall>r \<in># mq_held L (out_queue out). nul_free r"
  shows "\<exists>bulk ext. mq_held L (out_queue out) = mq_held L (out_queue out') + mset bulk
    \<and> received s' = received s @ ext \<and> sent bulk ext \<and> clean s'
    \<and> out_send_counter out' = out_send_counter out + of_nat (length bulk)
    \<and> (sd_open s \<and> all_written as \<and> (bulk \<noteq> [] \<longrightarrow> last bulk \<noteq> []) \<longrightarrow> ext = bulk)"
proof -
  obtain q bulk where d: "mq_try_dequeue_bulk L (out_queue out) queue_bulk = (q, bulk)" by fastforce
  have h: "mq_held L (out_queue out) = mq_held L q + mset bulk" by (rule mq.pull_law [OF assms(1) d])
  show ?thesis
  proof (cases "bulk = []")
    case True
    with assms(2) d have "out' = out\<lparr>out_queue := q\<rparr>" "s' = s" by (auto simp: gelf_output_turn_def)
    with True assms(4) h show ?thesis
      by (intro exI [of _ "[]"]) (simp add: sent_def)
  next
    case False
    with assms(2) d have r: "send_records bulk (framed []) (text_length []) as s = Some (s', as')"
        "out' = out\<lparr>out_queue := q, out_send_counter := out_send_counter out + of_nat (length bulk)\<rparr>"
      by (auto simp: gelf_output_turn_def text_length_def split: option.splits)
    have "list_all nul_free ([] @ bulk)" using assms(5) h by (simp add: list_all_iff)
    from send_records_received [OF r(1) this assms(3,4)] obtain ext where
        "received s' = received s @ ext" "sent bulk ext" "clean s'"
        "sd_open s \<and> all_written as \<and> (bulk \<noteq> [] \<longrightarrow> last bulk \<noteq> []) \<longrightarrow> ext = bulk"
      by (metis append_Nil)
    with h r(2) show ?thesis by (intro exI [of _ bulk] exI [of _ ext]) simp
  qed
qed

text \<open>
  C7: as long as the output is not stopped, a turn of a sending thread delivers its records at least
  once: the frames its peers have received, over all connections in their order, grow by a sequence
  that contains every record of the bulk that is not empty, in order, and nothing but records of the
  bulk; without a failed write it is the bulk itself. A frame cut off by a broken connection is not
  received as a frame.
\<close>

theorem gelf_output_at_least_once:
  assumes "cq_ok L" "gelf_output_turn L as (out, s, total_send) = Some ((out', s', total_send'), as')"
    and "list_all at_running as" "clean s" "\<forall>r \<in># mq_held L (out_queue out). nul_free r"
  shows "\<exists>bulk ext. mq_held L (out_queue out) = mq_held L (out_queue out') + mset bulk
    \<and> received s' = received s @ ext
    \<and> subseq (filter (\<lambda>r. r \<noteq> []) bulk) ext \<and> set ext \<subseteq> set bulk
    \<and> clean s' \<and> out_send_counter out' = out_send_counter out + of_nat (length bulk)
    \<and> (sd_open s \<and> all_written as \<and> (bulk \<noteq> [] \<longrightarrow> last bulk \<noteq> []) \<longrightarrow> ext = bulk)"
  using gelf_output_turn_received [OF assms] unfolding sent_def by blast

definition demo_output :: "string list \<Rightarrow> string list output_state" where
  "demo_output rs = \<lparr>out_name = ''g'', out_type = OUT_GELF, out_queue = MessageQueue ''g'' 5 OV_DROP rs, out_send_counter = 0\<rparr>"

definition demo_attempts :: "attempt list" where
  "demo_attempts = [\<lparr>at_connect = True, at_write = Broken 3, at_running = True\<rparr>,
     \<lparr>at_connect = False, at_write = Written, at_running = True\<rparr>,
     \<lparr>at_connect = True, at_write = Written, at_running = True\<rparr>]"

lemma demo_turn:
  "gelf_output_turn list_cq demo_attempts (demo_output [''a'', ''bc''], connect True new_sender, 0)
    = Some (((demo_output [])\<lparr>out_send_counter := 2\<rparr>,
        \<lparr>sd_conns = [''a'' @ [CHR 0x00] @ ''bc'' @ [CHR 0x00], [], ''a'' @ [CHR 0x00] @ ''b''], sd_open = True, sd_error = False\<rparr>, 2), [])"
  by (simp add: gelf_output_turn_def demo_output_def demo_attempts_def mq_try_dequeue_bulk_def MessageQueue_def
      queue_bulk_def buff_len_def flush_def connect_def new_sender_def write_buffer_def deliver_to_def Let_def)

lemma gelf_output_at_least_once_witness:
  "\<exists>bulk ext. {#''a'', ''bc''#} = mset bulk \<and>
     received \<lparr>sd_conns = [''a'' @ [CHR 0x00] @ ''bc'' @ [CHR 0x00], [], ''a'' @ [CHR 0x00] @ ''b''], sd_open = True, sd_error = False\<rparr> = ext \<and>
     subseq (filter (\<lambda>r. r \<noteq> []) bulk) ext \<and> set ext \<subseteq> set bulk"
proof -
  have c: "clean (connect True new_sender)" "received (connect True new_sender) = []"
    by (simp_all add: connect_clean) (simp add: received_def new_sender_def)
  have "\<forall>r \<in># mq_held list_cq (out_queue (demo_output [''a'', ''bc''])). nul_free r"
    by (simp add: demo_output_def mq_held_def MessageQueue_def nul_free_def)
  from gelf_output_at_least_once [OF list_cq_ok demo_turn _ c(1) this] c(2) show ?thesis
    by (auto simp: demo_attempts_def demo_output_def mq_held_def MessageQueue_def)
qed

subsection \<open>From an output to an input\<close>

text \<open>A GELF input over TCP that serves the connections of one output, one after the other.\<close>

fun serve_connections :: "('q, (string, 'ep) in_record) cq_lib \<Rightarrow> (nat \<Rightarrow> (string, 'ep) in_record other_act list list)
    \<Rightarrow> string \<Rightarrow> 'ep \<Rightarrow> nat \<Rightarrow> string list list \<Rightarrow> 'q message_queue \<Rightarrow> (nat \<times> 'q message_queue) outcome option" where
  "serve_connections L envs m_name e k [] mq = Some (Inr (k, mq))"
| "serve_connections L envs m_name e k (ds # dss) mq =
     (case tcp_connection L envs m_name (Some e) k [] mq (map Arrived ds) of
        None \<Rightarrow> None
      | Some (Inl x) \<Rightarrow> Some (Inl x)
      | Some (Inr (k', b, mq')) \<Rightarrow> serve_connections L envs m_name e k' dss mq')"

lemma serve_connections_frames:
  "serve_connections L envs nm e k dss mq =
     map_option Inr (enqueue_frames L envs nm e k (concat (map (\<lambda>ds. snd (split_nul (concat ds))) dss)) mq)"
proof (induction dss arbitrary: k mq)
  case (Cons ds dss)
  have n: "nul_free []" by (simp add: nul_free_def)
  have "feed_all nul_feed [] ds = split_nul (concat ds)"
    using nul.feed_pieces [OF n, of ds] by (simp add: nul_feed_def)
  with Cons show ?case
    by (simp add: tcp_connection_frames [OF n] with_rest_def enqueue_frames_append split: prod.splits option.splits)
qed simp

text \<open>
  Two loggers in a chain: when a sending thread of a GELF output has connected and then sends a
  bulk without being stopped, the GELF input at the other end, however its reads cut the streams,
  makes one record of every frame it got, at least once of every record sent that is not empty and
  of nothing else, and exactly the records sent when no write failed.
\<close>

theorem gelf_output_to_input:
  assumes "cq_ok Lo" "establish cs new_sender = Some s" "list_all snd cs"
    and "gelf_output_turn Lo as (out, s, total_send) = Some ((out', s', total_send'), as')"
    and "list_all at_running as" "\<forall>r \<in># mq_held Lo (out_queue out). nul_free r"
    and "map concat dss = rev (sd_conns s')"
  shows "\<exists>bulk ext. mq_held Lo (out_queue out) = mq_held Lo (out_queue out') + mset bulk
    \<and> serve_connections L envs nm e 0 dss mq = map_option Inr (enqueue_frames L envs nm e 0 ext mq)
    \<and> subseq (filter (\<lambda>r. r \<noteq> []) bulk) ext \<and> set ext \<subseteq> set bulk
    \<and> (all_written as \<and> (bulk \<noteq> [] \<longrightarrow> last bulk \<noteq> []) \<longrightarrow> ext = bulk)"
proof -
  have s: "clean s" "received s = []" "sd_open s"
    using establish_clean [OF assms(2)] assms(3) by (simp_all add: received_def new_sender_def)
  have "map (\<lambda>ds. snd (split_nul (concat ds))) dss = map (\<lambda>c. snd (split_nul c)) (rev (sd_conns s'))"
    unfolding assms(7) [symmetric] by simp
  then have "serve_connections L envs nm e 0 dss mq = map_option Inr (enqueue_frames L envs nm e 0 (received s') mq)"
    by (simp add: serve_connections_frames received_def)
  with gelf_output_turn_received [OF assms(1,4,5) s(1) assms(6)] s(2,3) show ?thesis
    unfolding sent_def by auto
qed

lemma gelf_output_to_input_witness:
  "\<exists>bulk ext. {#''a'', ''bc''#} = mset bulk
    \<and> serve_connections (list_cq :: ((string, nat) in_record list, (string, nat) in_record) cq_lib) (\<lambda>_. []) ''g'' 7 0
        [[''a'', [CHR 0x00, CHR ''b'']], [], [''a'' @ [CHR 0x00] @ ''b'', ''c'' @ [CHR 0x00]]] (MessageQueue ''q'' 9 OV_DROP [])
      = map_option Inr (enqueue_frames list_cq (\<lambda>_. []) ''g'' 7 0 ext (MessageQueue ''q'' 9 OV_DROP []))
    \<and> subseq (filter (\<lambda>r. r \<noteq> []) bulk) ext \<and> set ext \<subseteq> set bulk"
proof -
  have e: "establish [(True, True)] new_sender = Some (connect True new_sender)"
    by (simp add: connect_def new_sender_def)
  have "\<forall>r \<in># mq_held list_cq (out_queue (demo_output [''a'', ''bc''])). nul_free r"
    by (simp add: demo_output_def mq_held_def MessageQueue_def nul_free_def)
  from gelf_output_to_input [OF list_cq_ok e _ demo_turn _ this,
      where L = "list_cq :: ((string, nat) in_record list, (string, nat) in_record) cq_lib" and envs = "\<lambda>_. []"
        and nm = "''g''" and e = 7 and mq = "MessageQueue ''q'' 9 OV_DROP []"
        and dss = "[[''a'', [CHR 0x00, CHR ''b'']], [], [''a'' @ [CHR 0x00] @ ''b'', ''c'' @ [CHR 0x00]]]"]
  show ?thesis by (auto simp: demo_attempts_def demo_output_def mq_held_def MessageQueue_def)
qed

end
