(* ===== verification/IQ_Http_Parser.thy ===== *)
theory IQ_Http_Parser
  imports IQ_Prelude
begin

text \<open>
  The incremental parser of HTTP requests (src/stats/http/RequestParser.cpp, RequestParser.h,
  Request.h, Header.h): the function on one character, the loop over a buffer, what the parser makes
  of a whole request, and that it does not matter how the bytes of a connection are cut into reads.
  The version numbers are C++ \<open>int\<close>s, kept here at 32 bits with wrap-around.
\<close>

subsection \<open>Requests and parser states\<close>

record http_header =
  h_name :: string
  h_value :: string

record request =
  rq_method :: string
  rq_uri :: string
  rq_major :: "32 word"
  rq_minor :: "32 word"
  rq_headers :: "http_header list"

datatype result_type = Good | Bad | Indeterminate

datatype parser_state =
    S_method_start | S_method | S_uri
  | S_http_version_h | S_http_version_t_1 | S_http_version_t_2 | S_http_version_p | S_http_version_slash
  | S_http_version_major_start | S_http_version_major | S_http_version_minor_start | S_http_version_minor
  | S_expecting_newline_1 | S_header_line_start | S_header_lws | S_header_name
  | S_space_before_header_value | S_header_value | S_expecting_newline_2 | S_expecting_newline_3

subsection \<open>Character classes\<close>

definition is_char :: "char \<Rightarrow> bool" where
  "is_char c \<longleftrightarrow> 0 \<le> schar c \<and> schar c \<le> 127"

definition is_ctl :: "char \<Rightarrow> bool" where
  "is_ctl c \<longleftrightarrow> (0 \<le> schar c \<and> schar c \<le> 31) \<or> schar c = 127"

definition is_tspecial :: "char \<Rightarrow> bool" where
  "is_tspecial c \<longleftrightarrow> c \<in> set [CHR ''('', CHR '')'', CHR ''<'', CHR ''>'', CHR ''@'', CHR '','', CHR '';'', CHR '':'',
     CHR 0x5C, CHR 0x22, CHR ''/'', CHR ''['', CHR '']'', CHR ''?'', CHR ''='', CHR ''{'', CHR ''}'', CHR '' '', CHR 0x09]"

definition is_digit :: "char \<Rightarrow> bool" where
  "is_digit c \<longleftrightarrow> 48 \<le> schar c \<and> schar c \<le> 57"

definition token_char :: "char \<Rightarrow> bool" where
  "token_char c \<longleftrightarrow> \<not> (\<not> is_char c \<or> is_ctl c \<or> is_tspecial c)"

subsection \<open>One character\<close>

text \<open>
  \<open>headers.back()\<close> of an empty vector is undefined behaviour: \<open>on_back\<close> is \<open>None\<close> there.
\<close>

definition on_back :: "(http_header \<Rightarrow> http_header) \<Rightarrow> request \<Rightarrow> request option" where
  "on_back f req =
     (if rq_headers req = [] then None
      else Some (req\<lparr>rq_headers := butlast (rq_headers req) @ [f (last (rq_headers req))]\<rparr>))"

definition next_digit :: "char \<Rightarrow> 32 word \<Rightarrow> 32 word" where
  "next_digit c n = n * 10 + word_of_int (schar c) - 48"

type_synonym consumed = "(parser_state \<times> request \<times> result_type) option"

definition refuse :: "parser_state \<Rightarrow> request \<Rightarrow> consumed" where
  "refuse st req = Some (st, req, Bad)"

definition go :: "parser_state \<Rightarrow> request \<Rightarrow> consumed" where
  "go st req = Some (st, req, Indeterminate)"

definition expect :: "char \<Rightarrow> parser_state \<Rightarrow> parser_state \<Rightarrow> request \<Rightarrow> char \<Rightarrow> consumed" where
  "expect c next st req input = (if input = c then go next req else refuse st req)"

primrec consume :: "parser_state \<Rightarrow> request \<Rightarrow> char \<Rightarrow> consumed" where
  "consume S_method_start req input =
     (if \<not> is_char input \<or> is_ctl input \<or> is_tspecial input then refuse S_method_start req
      else go S_method (req\<lparr>rq_method := rq_method req @ [input]\<rparr>))"
| "consume S_method req input =
     (if input = CHR '' '' then go S_uri req
      else if \<not> is_char input \<or> is_ctl input \<or> is_tspecial input then refuse S_method req
      else go S_method (req\<lparr>rq_method := rq_method req @ [input]\<rparr>))"
| "consume S_uri req input =
     (if input = CHR '' '' then go S_http_version_h req
      else if is_ctl input then refuse S_uri req
      else go S_uri (req\<lparr>rq_uri := rq_uri req @ [input]\<rparr>))"
| "consume S_http_version_h req input = expect (CHR ''H'') S_http_version_t_1 S_http_version_h req input"
| "consume S_http_version_t_1 req input = expect (CHR ''T'') S_http_version_t_2 S_http_version_t_1 req input"
| "consume S_http_version_t_2 req input = expect (CHR ''T'') S_http_version_p S_http_version_t_2 req input"
| "consume S_http_version_p req input = expect (CHR ''P'') S_http_version_slash S_http_version_p req input"
| "consume S_http_version_slash req input =
     (if input = CHR ''/'' then go S_http_version_major_start (req\<lparr>rq_major := 0, rq_minor := 0\<rparr>)
      else refuse S_http_version_slash req)"
| "consume S_http_version_major_start req input =
     (if is_digit input then go S_http_version_major (req\<lparr>rq_major := next_digit input (rq_major req)\<rparr>)
      else refuse S_http_version_major_start req)"
| "consume S_http_version_major req input =
     (if input = CHR ''.'' then go S_http_version_minor_start req
      else if is_digit input then go S_http_version_major (req\<lparr>rq_major := next_digit input (rq_major req)\<rparr>)
      else refuse S_http_version_major req)"
| "consume S_http_version_minor_start req input =
     (if is_digit input then go S_http_version_minor (req\<lparr>rq_minor := next_digit input (rq_minor req)\<rparr>)
      else refuse S_http_version_minor_start req)"
| "consume S_http_version_minor req input =
     (if input = CHR 0x0D then go S_expecting_newline_1 req
      else if is_digit input then go S_http_version_minor (req\<lparr>rq_minor := next_digit input (rq_minor req)\<rparr>)
      else refuse S_http_version_minor req)"
| "consume S_expecting_newline_1 req input = expect (CHR 0x0A) S_header_line_start S_expecting_newline_1 req input"
| "consume S_header_line_start req input =
     (if input = CHR 0x0D then go S_expecting_newline_3 req
      else if rq_headers req \<noteq> [] \<and> (input = CHR '' '' \<or> input = CHR 0x09) then go S_header_lws req
      else if \<not> is_char input \<or> is_ctl input \<or> is_tspecial input then refuse S_header_line_start req
      else go S_header_name (req\<lparr>rq_headers := rq_headers req @ [\<lparr>h_name = [input], h_value = []\<rparr>]\<rparr>))"
| "consume S_header_lws req input =
     (if input = CHR 0x0D then go S_expecting_newline_2 req
      else if input = CHR '' '' \<or> input = CHR 0x09 then go S_header_lws req
      else if is_ctl input then refuse S_header_lws req
      else Option.bind (on_back (\<lambda>h. h\<lparr>h_value := h_value h @ [input]\<rparr>) req) (go S_header_value))"
| "consume S_header_name req input =
     (if input = CHR '':'' then go S_space_before_header_value req
      else if \<not> is_char input \<or> is_ctl input \<or> is_tspecial input then refuse S_header_name req
      else Option.bind (on_back (\<lambda>h. h\<lparr>h_name := h_name h @ [input]\<rparr>) req) (go S_header_name))"
| "consume S_space_before_header_value req input =
     expect (CHR '' '') S_header_value S_space_before_header_value req input"
| "consume S_header_value req input =
     (if input = CHR 0x0D then go S_expecting_newline_2 req
      else if is_ctl input then refuse S_header_value req
      else Option.bind (on_back (\<lambda>h. h\<lparr>h_value := h_value h @ [input]\<rparr>) req) (go S_header_value))"
| "consume S_expecting_newline_2 req input = expect (CHR 0x0A) S_header_line_start S_expecting_newline_2 req input"
| "consume S_expecting_newline_3 req input =
     Some (S_expecting_newline_3, req, if input = CHR 0x0A then Good else Bad)"

definition RequestParser :: parser_state where
  "RequestParser = S_method_start"

definition parser_reset :: "parser_state \<Rightarrow> parser_state" where
  "parser_reset st = S_method_start"

subsection \<open>A buffer\<close>

text \<open>The loop stops after the character that decides; the rest of the buffer is the last component.\<close>

fun parse :: "parser_state \<Rightarrow> request \<Rightarrow> string \<Rightarrow> (parser_state \<times> request \<times> result_type \<times> string) option" where
  "parse st req [] = Some (st, req, Indeterminate, [])"
| "parse st req (c # cs) =
     (case consume st req c of
        None \<Rightarrow> None
      | Some (st', req', r) \<Rightarrow>
          (if r = Good \<or> r = Bad then Some (st', req', r, cs) else parse st' req' cs))"

definition new_request :: request where
  "new_request = \<lparr>rq_method = [], rq_uri = [], rq_major = 0, rq_minor = 0, rq_headers = []\<rparr>"

lemmas consume_defs = expect_def go_def refuse_def on_back_def

text \<open>A state in which a header is being read has a header.\<close>

definition parser_ok :: "parser_state \<Rightarrow> request \<Rightarrow> bool" where
  "parser_ok st req \<longleftrightarrow>
     (st \<in> {S_header_lws, S_header_name, S_space_before_header_value, S_header_value, S_expecting_newline_2}
      \<longrightarrow> rq_headers req \<noteq> [])"

lemma consume_ok:
  assumes "parser_ok st req"
  shows "\<exists>st' req' r. consume st req c = Some (st', req', r) \<and> parser_ok st' req'"
  using assms by (cases st) (auto simp: consume_defs parser_ok_def)

lemma parse_ok:
  "parser_ok st req \<Longrightarrow> \<exists>st' req' r rest. parse st req cs = Some (st', req', r, rest) \<and> parser_ok st' req'"
proof (induction cs arbitrary: st req)
  case (Cons c cs)
  obtain st' req' r where c: "consume st req c = Some (st', req', r)" "parser_ok st' req'"
    using consume_ok [OF Cons.prems] by blast
  with Cons.IH [OF c(2)] show ?case by auto
qed simp

lemma parse_append:
  "parse st req (xs @ ys) =
     (case parse st req xs of
        None \<Rightarrow> None
      | Some (st', req', r, rest) \<Rightarrow>
          (if r = Indeterminate then parse st' req' ys else Some (st', req', r, rest @ ys)))"
  by (induction xs arbitrary: st req) (auto split: option.splits prod.splits result_type.splits)

lemma parse_indeterminate_rest: "parse st req xs = Some (st', req', Indeterminate, rest) \<Longrightarrow> rest = []"
  by (induction xs arbitrary: st req) (auto split: option.splits prod.splits if_splits)

subsection \<open>The grammar\<close>

definition CRLF :: string where "CRLF = [CHR 0x0D, CHR 0x0A]"

record header_text =
  ht_name :: string
  ht_first :: string
  ht_more :: "(string \<times> string) list"

record request_text =
  xt_method :: string
  xt_uri :: string
  xt_major :: string
  xt_minor :: string
  xt_headers :: "header_text list"

definition open_header :: "header_text \<Rightarrow> string" where
  "open_header h = ht_name h @ '': '' @ ht_first h @ concat (map (\<lambda>(w, p). CRLF @ w @ p) (ht_more h))"

definition start_line :: "request_text \<Rightarrow> string" where
  "start_line x = xt_method x @ '' '' @ xt_uri x @ '' HTTP/'' @ xt_major x @ ''.'' @ xt_minor x @ CRLF"

definition head_text :: "request_text \<Rightarrow> string" where
  "head_text x = start_line x @ concat (map (\<lambda>h. open_header h @ CRLF) (xt_headers x))"

definition request_string :: "request_text \<Rightarrow> string" where
  "request_string x = head_text x @ CRLF"

definition tokens :: "string \<Rightarrow> bool" where
  "tokens s \<longleftrightarrow> s \<noteq> [] \<and> list_all token_char s"

definition digits :: "string \<Rightarrow> bool" where
  "digits s \<longleftrightarrow> s \<noteq> [] \<and> list_all is_digit s"

definition uri_text :: "string \<Rightarrow> bool" where
  "uri_text s \<longleftrightarrow> list_all (\<lambda>c. \<not> is_ctl c \<and> c \<noteq> CHR '' '') s"

definition value_text :: "string \<Rightarrow> bool" where
  "value_text s \<longleftrightarrow> list_all (\<lambda>c. \<not> is_ctl c) s"

definition fold_text :: "string \<times> string \<Rightarrow> bool" where
  "fold_text f \<longleftrightarrow> fst f \<noteq> [] \<and> list_all (\<lambda>c. c = CHR '' '' \<or> c = CHR 0x09) (fst f)
     \<and> value_text (snd f) \<and> (snd f = [] \<or> hd (snd f) \<noteq> CHR '' '')"

definition header_ok :: "header_text \<Rightarrow> bool" where
  "header_ok h \<longleftrightarrow> tokens (ht_name h) \<and> value_text (ht_first h) \<and> list_all fold_text (ht_more h)"

definition text_ok :: "request_text \<Rightarrow> bool" where
  "text_ok x \<longleftrightarrow> tokens (xt_method x) \<and> uri_text (xt_uri x) \<and> digits (xt_major x) \<and> digits (xt_minor x)
     \<and> list_all header_ok (xt_headers x)"

definition version_of :: "string \<Rightarrow> 32 word" where
  "version_of ds = foldl (\<lambda>n c. next_digit c n) 0 ds"

definition header_of :: "header_text \<Rightarrow> http_header" where
  "header_of h = \<lparr>h_name = ht_name h, h_value = ht_first h @ concat (map snd (ht_more h))\<rparr>"

definition request_of :: "request_text \<Rightarrow> request" where
  "request_of x = \<lparr>rq_method = xt_method x, rq_uri = xt_uri x, rq_major = version_of (xt_major x),
     rq_minor = version_of (xt_minor x), rq_headers = map header_of (xt_headers x)\<rparr>"

subsection \<open>What has been read\<close>

definition new_text :: request_text where
  "new_text = \<lparr>xt_method = [], xt_uri = [], xt_major = [], xt_minor = [], xt_headers = []\<rparr>"

definition add_header :: "header_text \<Rightarrow> request_text \<Rightarrow> request_text" where
  "add_header h x = x\<lparr>xt_headers := xt_headers x @ [h]\<rparr>"

text \<open>
  \<open>read_so_far st x h s\<close>: in state \<open>st\<close> the parser has consumed \<open>s\<close>; \<open>x\<close> are the finished parts, and
  \<open>h\<close> is the header being read.
\<close>

definition up_to_uri :: "request_text \<Rightarrow> string" where
  "up_to_uri x = xt_method x @ '' '' @ xt_uri x"

definition start_ok :: "request_text \<Rightarrow> bool" where
  "start_ok x \<longleftrightarrow> tokens (xt_method x) \<and> uri_text (xt_uri x) \<and> xt_headers x = []"

primrec read_so_far :: "parser_state \<Rightarrow> request_text \<Rightarrow> header_text \<Rightarrow> string \<Rightarrow> bool" where
  "read_so_far S_method_start x h s = (x = new_text \<and> s = [])"
| "read_so_far S_method x h s = (start_ok x \<and> xt_uri x = [] \<and> xt_major x = [] \<and> xt_minor x = [] \<and> s = xt_method x)"
| "read_so_far S_uri x h s = (start_ok x \<and> xt_major x = [] \<and> xt_minor x = [] \<and> s = up_to_uri x)"
| "read_so_far S_http_version_h x h s = (start_ok x \<and> xt_major x = [] \<and> xt_minor x = [] \<and> s = up_to_uri x @ '' '')"
| "read_so_far S_http_version_t_1 x h s = (start_ok x \<and> xt_major x = [] \<and> xt_minor x = [] \<and> s = up_to_uri x @ '' H'')"
| "read_so_far S_http_version_t_2 x h s = (start_ok x \<and> xt_major x = [] \<and> xt_minor x = [] \<and> s = up_to_uri x @ '' HT'')"
| "read_so_far S_http_version_p x h s = (start_ok x \<and> xt_major x = [] \<and> xt_minor x = [] \<and> s = up_to_uri x @ '' HTT'')"
| "read_so_far S_http_version_slash x h s = (start_ok x \<and> xt_major x = [] \<and> xt_minor x = [] \<and> s = up_to_uri x @ '' HTTP'')"
| "read_so_far S_http_version_major_start x h s = (start_ok x \<and> xt_major x = [] \<and> xt_minor x = [] \<and> s = up_to_uri x @ '' HTTP/'')"
| "read_so_far S_http_version_major x h s =
     (start_ok x \<and> digits (xt_major x) \<and> xt_minor x = [] \<and> s = up_to_uri x @ '' HTTP/'' @ xt_major x)"
| "read_so_far S_http_version_minor_start x h s =
     (start_ok x \<and> digits (xt_major x) \<and> xt_minor x = [] \<and> s = up_to_uri x @ '' HTTP/'' @ xt_major x @ ''.'')"
| "read_so_far S_http_version_minor x h s =
     (start_ok x \<and> digits (xt_major x) \<and> digits (xt_minor x) \<and> s = up_to_uri x @ '' HTTP/'' @ xt_major x @ ''.'' @ xt_minor x)"
| "read_so_far S_expecting_newline_1 x h s =
     (text_ok x \<and> xt_headers x = [] \<and> s @ [CHR 0x0A] = start_line x)"
| "read_so_far S_header_line_start x h s = (text_ok x \<and> s = head_text x)"
| "read_so_far S_header_name x h s =
     (\<exists>y. x = add_header h y \<and> text_ok x \<and> ht_first h = [] \<and> ht_more h = [] \<and> s = head_text y @ ht_name h)"
| "read_so_far S_space_before_header_value x h s =
     (\<exists>y. x = add_header h y \<and> text_ok x \<and> ht_first h = [] \<and> ht_more h = [] \<and> s = head_text y @ ht_name h @ '':'')"
| "read_so_far S_header_value x h s =
     (\<exists>y. x = add_header h y \<and> text_ok x \<and> s = head_text y @ open_header h \<and> (ht_more h \<noteq> [] \<longrightarrow> snd (last (ht_more h)) \<noteq> []))"
| "read_so_far S_header_lws x h s =
     (\<exists>y. x = add_header h y \<and> text_ok x \<and> s = head_text y @ open_header h \<and> ht_more h \<noteq> [] \<and> snd (last (ht_more h)) = [])"
| "read_so_far S_expecting_newline_2 x h s =
     (\<exists>y. x = add_header h y \<and> text_ok x \<and> s = head_text y @ open_header h @ [CHR 0x0D])"
| "read_so_far S_expecting_newline_3 x h s = (text_ok x \<and> s = head_text x @ [CHR 0x0D])"

lemma request_of_new: "request_of new_text = new_request"
  by (simp add: request_of_def new_text_def new_request_def version_of_def)

lemma CRLF_snoc: "s @ [CHR 0x0D, CHR 0x0A] = s @ CRLF" by (simp add: CRLF_def)

lemmas text_defs = start_ok_def tokens_def uri_text_def value_text_def digits_def token_char_def text_ok_def up_to_uri_def
  new_text_def request_of_def version_of_def

text \<open>The parts after one more character of the start line.\<close>

definition advance :: "parser_state \<Rightarrow> char \<Rightarrow> request_text \<Rightarrow> request_text" where
  "advance st c x =
     (case st of S_method_start \<Rightarrow> x\<lparr>xt_method := [c]\<rparr>
       | S_method \<Rightarrow> if c = CHR '' '' then x else x\<lparr>xt_method := xt_method x @ [c]\<rparr>
       | S_uri \<Rightarrow> if c = CHR '' '' then x else x\<lparr>xt_uri := xt_uri x @ [c]\<rparr>
       | S_http_version_major_start \<Rightarrow> x\<lparr>xt_major := [c]\<rparr>
       | S_http_version_major \<Rightarrow> if c = CHR ''.'' then x else x\<lparr>xt_major := xt_major x @ [c]\<rparr>
       | S_http_version_minor_start \<Rightarrow> x\<lparr>xt_minor := [c]\<rparr>
       | S_http_version_minor \<Rightarrow> if c = CHR 0x0D then x else x\<lparr>xt_minor := xt_minor x @ [c]\<rparr>
       | _ \<Rightarrow> x)"

definition in_start_line :: "parser_state \<Rightarrow> bool" where
  "in_start_line st \<longleftrightarrow> st \<in> {S_method_start, S_method, S_uri, S_http_version_h, S_http_version_t_1, S_http_version_t_2,
      S_http_version_p, S_http_version_slash, S_http_version_major_start, S_http_version_major,
      S_http_version_minor_start, S_http_version_minor, S_expecting_newline_1}"

lemma step_start:
  assumes "in_start_line st" "read_so_far st x h s" "consume st (request_of x) c = Some (st', req', Indeterminate)"
  shows "read_so_far st' (advance st c x) h (s @ [c]) \<and> req' = request_of (advance st c x)"
  using assms unfolding in_start_line_def
  by (elim insertE emptyE)
    (auto simp: advance_def consume_defs text_defs start_line_def head_text_def CRLF_def split: if_splits)

lemma consume_header:
  "on_back f (r\<lparr>rq_headers := hs @ [h]\<rparr>) = Some (r\<lparr>rq_headers := hs @ [f h]\<rparr>)"
  by (simp add: on_back_def)

lemma request_of_add:
  "request_of (add_header h x) = (request_of x)\<lparr>rq_headers := map header_of (xt_headers x) @ [header_of h]\<rparr>"
  by (simp add: request_of_def add_header_def)

lemma text_ok_add [simp]: "text_ok (add_header h x) \<longleftrightarrow> text_ok x \<and> header_ok h"
  by (auto simp: text_ok_def add_header_def)

lemma head_text_add: "head_text (add_header h x) = head_text x @ open_header h @ CRLF"
  by (simp add: head_text_def add_header_def start_line_def)

lemma add_header_cases:
  assumes "xt_headers x \<noteq> []"
  obtains y h where "x = add_header h y"
proof -
  have "x = add_header (last (xt_headers x)) (x\<lparr>xt_headers := butlast (xt_headers x)\<rparr>)"
    using assms by (simp add: add_header_def)
  then show ?thesis by (rule that)
qed

lemma step_line_start:
  assumes "read_so_far S_header_line_start x h s"
    and "consume S_header_line_start (request_of x) c = Some (st', req', Indeterminate)"
  shows "\<exists>x' h'. read_so_far st' x' h' (s @ [c]) \<and> req' = request_of x'"
proof (cases "c = CHR 0x0D")
  case True
  with assms show ?thesis by (auto simp: consume_defs)
next
  case r: False
  show ?thesis
  proof (cases "xt_headers x \<noteq> [] \<and> (c = CHR '' '' \<or> c = CHR 0x09)")
    case True
    then obtain y g where x: "x = add_header g y" using add_header_cases by blast
    let ?g = "g\<lparr>ht_more := ht_more g @ [([c], [])]\<rparr>"
    have "read_so_far S_header_lws (add_header ?g y) ?g (s @ [c])"
      using assms(1) True
      by (intro read_so_far.simps(18) [THEN iffD2] exI [of _ y])
        (auto simp: x head_text_add open_header_def header_ok_def fold_text_def value_text_def)
    moreover have "request_of (add_header ?g y) = request_of x"
      by (simp add: x request_of_add header_of_def)
    moreover have "st' = S_header_lws" "req' = request_of x"
      using assms(2) True r by (auto simp: consume_defs request_of_def split: if_splits)
    ultimately show ?thesis by metis
  next
    case False
    let ?g = "\<lparr>ht_name = [c], ht_first = [], ht_more = []\<rparr>"
    have t: "st' = S_header_name" "req' = request_of (add_header ?g x)" "token_char c"
      using assms(2) r False
      by (auto simp: consume_defs token_char_def request_of_def add_header_def header_of_def split: if_splits)
    then have "read_so_far S_header_name (add_header ?g x) ?g (s @ [c])"
      using assms(1) by (auto simp: header_ok_def tokens_def value_text_def)
    with t show ?thesis by metis
  qed
qed

lemma more_cases:
  assumes "ht_more h \<noteq> []"
  obtains m w p where "ht_more h = m @ [(w, p)]"
  using assms by (metis rev_exhaust surj_pair)

lemma step_lws:
  assumes "read_so_far S_header_lws x h s"
    and "consume S_header_lws (request_of x) c = Some (st', req', Indeterminate)"
  shows "\<exists>x' h'. read_so_far st' x' h' (s @ [c]) \<and> req' = request_of x'"
proof -
  from assms(1) obtain y where y: "x = add_header h y" "text_ok y" "header_ok h" "s = head_text y @ open_header h"
      "ht_more h \<noteq> []" "snd (last (ht_more h)) = []"
    by auto
  then obtain m w where m: "ht_more h = m @ [(w, [])]" by (metis more_cases last_snoc snd_conv)
  let ?with = "\<lambda>w p. h\<lparr>ht_more := m @ [(w, p)]\<rparr>"
  consider "c = CHR 0x0D" | "c = CHR '' '' \<or> c = CHR 0x09" | "c \<noteq> CHR 0x0D" "\<not> (c = CHR '' '' \<or> c = CHR 0x09)" by blast
  then show ?thesis
  proof cases
    case 1
    with assms(2) y show ?thesis by (intro exI [of _ x] exI [of _ h]) (auto simp: consume_defs)
  next
    case 2
    have "read_so_far S_header_lws (add_header (?with (w @ [c]) []) y) (?with (w @ [c]) []) (s @ [c])"
      using y m 2 by (intro read_so_far.simps(18) [THEN iffD2] exI [of _ y])
        (auto simp: open_header_def header_ok_def fold_text_def value_text_def)
    moreover have "request_of (add_header (?with (w @ [c]) []) y) = request_of x"
      using y m by (simp add: request_of_add header_of_def)
    moreover have "st' = S_header_lws" "req' = request_of x" using assms(2) 2 by (auto simp: consume_defs)
    ultimately show ?thesis by metis
  next
    case 3
    then have c: "\<not> is_ctl c" using assms(2) by (auto simp: consume_defs split: if_splits)
    have "read_so_far S_header_value (add_header (?with w [c]) y) (?with w [c]) (s @ [c])"
      using y m c 3 by (intro read_so_far.simps(17) [THEN iffD2] exI [of _ y])
        (auto simp: open_header_def header_ok_def fold_text_def value_text_def)
    moreover have "st' = S_header_value" "req' = request_of (add_header (?with w [c]) y)"
      using assms(2) 3 c y m
      by (auto simp: consume_header go_def request_of_add header_of_def)
    ultimately show ?thesis by metis
  qed
qed

lemma step_name:
  assumes "read_so_far S_header_name x h s"
    and "consume S_header_name (request_of x) c = Some (st', req', Indeterminate)"
  shows "\<exists>x' h'. read_so_far st' x' h' (s @ [c]) \<and> req' = request_of x'"
proof (cases "c = CHR '':''")
  case True
  with assms show ?thesis by (auto simp: consume_defs)
next
  case False
  from assms(1) obtain y where y: "x = add_header h y" "text_ok y" "header_ok h" "s = head_text y @ ht_name h"
      "ht_first h = []" "ht_more h = []" by auto
  let ?g = "h\<lparr>ht_name := ht_name h @ [c]\<rparr>"
  have c: "token_char c" using False assms(2) by (auto simp: refuse_def token_char_def split: if_splits)
  have "read_so_far S_header_name (add_header ?g y) ?g (s @ [c])"
    using y c by (intro read_so_far.simps(15) [THEN iffD2] exI [of _ y]) (auto simp: header_ok_def tokens_def)
  moreover have "st' = S_header_name" "req' = request_of (add_header ?g y)"
    using assms(2) False c y
    by (auto simp: consume_header go_def request_of_add header_of_def token_char_def)
  ultimately show ?thesis by metis
qed

lemma step_space:
  assumes "read_so_far S_space_before_header_value x h s"
    and "consume S_space_before_header_value (request_of x) c = Some (st', req', Indeterminate)"
  shows "\<exists>x' h'. read_so_far st' x' h' (s @ [c]) \<and> req' = request_of x'"
proof -
  have "c = CHR '' ''" "st' = S_header_value" "req' = request_of x"
    using assms(2) by (auto simp: consume_defs split: if_splits)
  moreover from this assms(1) have "read_so_far S_header_value x h (s @ [c])"
    by (auto simp: open_header_def)
  ultimately show ?thesis by metis
qed

lemma step_value:
  assumes "read_so_far S_header_value x h s"
    and "consume S_header_value (request_of x) c = Some (st', req', Indeterminate)"
  shows "\<exists>x' h'. read_so_far st' x' h' (s @ [c]) \<and> req' = request_of x'"
proof (cases "c = CHR 0x0D")
  case True
  with assms show ?thesis by (intro exI [of _ x] exI [of _ h]) (auto simp: consume_defs)
next
  case False
  from assms(1) obtain y where y: "x = add_header h y" "text_ok y" "header_ok h" "s = head_text y @ open_header h"
      "ht_more h \<noteq> [] \<longrightarrow> snd (last (ht_more h)) \<noteq> []"
    by (simp only: read_so_far.simps) (metis text_ok_add)
  have c: "\<not> is_ctl c" using False assms(2) by (auto simp: refuse_def split: if_splits)
  obtain g where g: "read_so_far S_header_value (add_header g y) g (s @ [c])"
      "header_of g = (header_of h)\<lparr>h_value := h_value (header_of h) @ [c]\<rparr>"
  proof (cases "ht_more h = []")
    case True
    let ?g = "h\<lparr>ht_first := ht_first h @ [c]\<rparr>"
    have "read_so_far S_header_value (add_header ?g y) ?g (s @ [c])"
      using y c True by (intro read_so_far.simps(17) [THEN iffD2] exI [of _ y])
        (auto simp: open_header_def header_ok_def value_text_def)
    moreover have "header_of ?g = (header_of h)\<lparr>h_value := h_value (header_of h) @ [c]\<rparr>"
      using True by (simp add: header_of_def)
    ultimately show ?thesis by (rule that)
  next
    case n: False
    then obtain m w p where m: "ht_more h = m @ [(w, p)]" by (rule more_cases)
    let ?g = "h\<lparr>ht_more := m @ [(w, p @ [c])]\<rparr>"
    have "read_so_far S_header_value (add_header ?g y) ?g (s @ [c])"
      using y c m by (intro read_so_far.simps(17) [THEN iffD2] exI [of _ y])
        (auto simp: open_header_def header_ok_def value_text_def fold_text_def)
    moreover have "header_of ?g = (header_of h)\<lparr>h_value := h_value (header_of h) @ [c]\<rparr>"
      using m by (simp add: header_of_def)
    ultimately show ?thesis by (rule that)
  qed
  have "st' = S_header_value" "req' = request_of (add_header g y)"
    using assms(2) False c y g(2) by (auto simp: consume_header go_def request_of_add)
  with g(1) show ?thesis by metis
qed

lemma step_newline_2:
  assumes "read_so_far S_expecting_newline_2 x h s"
    and "consume S_expecting_newline_2 (request_of x) c = Some (st', req', Indeterminate)"
  shows "\<exists>x' h'. read_so_far st' x' h' (s @ [c]) \<and> req' = request_of x'"
proof -
  have "c = CHR 0x0A" "st' = S_header_line_start" "req' = request_of x"
    using assms(2) by (auto simp: consume_defs split: if_splits)
  moreover from this assms(1) have "read_so_far S_header_line_start x h (s @ [c])"
    by (auto simp: head_text_add CRLF_def)
  ultimately show ?thesis by metis
qed

lemma step_read:
  assumes "read_so_far st x h s" "consume st (request_of x) c = Some (st', req', Indeterminate)"
  shows "\<exists>x' h'. read_so_far st' x' h' (s @ [c]) \<and> req' = request_of x'"
proof (cases "in_start_line st")
  case True
  from step_start [OF True assms] show ?thesis by blast
next
  case False
  have "st \<noteq> S_expecting_newline_3" using assms(2) by (auto split: if_splits)
  with False consider "st = S_header_line_start" | "st = S_header_lws" | "st = S_header_name"
    | "st = S_space_before_header_value" | "st = S_header_value" | "st = S_expecting_newline_2"
    by (cases st) (auto simp: in_start_line_def)
  then show ?thesis
    using assms step_line_start step_lws step_name step_space step_value step_newline_2 by cases metis+
qed
lemma parse_read:
  "read_so_far st x h s \<Longrightarrow> parse st (request_of x) cs = Some (st', req', Good, rest) \<Longrightarrow>
   \<exists>x'. text_ok x' \<and> s @ cs = request_string x' @ rest \<and> req' = request_of x' \<and> st' = S_expecting_newline_3"
proof (induction cs arbitrary: st x h s)
  case (Cons c cs)
  obtain st1 req1 r where c: "consume st (request_of x) c = Some (st1, req1, r)"
    using Cons.prems(2) by (auto split: option.splits)
  show ?case
  proof (cases "r = Indeterminate")
    case True
    then obtain x1 h1 where n: "read_so_far st1 x1 h1 (s @ [c])" "req1 = request_of x1"
      using step_read [OF Cons.prems(1)] c by blast
    then have "parse st1 (request_of x1) cs = Some (st', req', Good, rest)"
      using Cons.prems(2) c True by simp
    from Cons.IH [OF n(1) this] show ?thesis by simp
  next
    case False
    then have e: "r = Good" "st' = st1" "req' = req1" "rest = cs"
      using Cons.prems(2) c by (cases r; auto)+
    have st: "st = S_expecting_newline_3"
      using c e(1) by (cases st) (auto simp: consume_defs split: if_splits option.splits bind_splits)
    then have "c = CHR 0x0A" "st1 = st" "req1 = request_of x" using c e(1) by (auto split: if_splits)
    with e st Cons.prems(1) show ?thesis
      by (intro exI [of _ x]) (simp add: request_string_def CRLF_def)
  qed
qed simp

lemma parse_method:
  "list_all token_char m \<Longrightarrow> parse S_method r (m @ s) = parse S_method (r\<lparr>rq_method := rq_method r @ m\<rparr>) s"
proof (induction m arbitrary: r)
  case (Cons c m)
  have "is_tspecial (CHR '' '')" by (simp add: is_tspecial_def)
  with Cons.prems have "c \<noteq> CHR '' ''" by (auto simp: token_char_def)
  with Cons show ?case by (simp add: go_def token_char_def)
qed simp

lemma parse_uri:
  "uri_text u \<Longrightarrow> parse S_uri r (u @ s) = parse S_uri (r\<lparr>rq_uri := rq_uri r @ u\<rparr>) s"
  by (induction u arbitrary: r) (simp_all add: go_def uri_text_def)

lemma is_digit_not: "is_digit c \<Longrightarrow> c \<noteq> CHR ''.'' \<and> c \<noteq> CHR 0x0D"
  by (auto simp: is_digit_def schar_def)

lemma parse_major:
  "list_all is_digit ds \<Longrightarrow>
   parse S_http_version_major r (ds @ s) = parse S_http_version_major (r\<lparr>rq_major := foldl (\<lambda>n c. next_digit c n) (rq_major r) ds\<rparr>) s"
  by (induction ds arbitrary: r) (simp_all add: go_def is_digit_not)

lemma parse_minor:
  "list_all is_digit ds \<Longrightarrow>
   parse S_http_version_minor r (ds @ s) = parse S_http_version_minor (r\<lparr>rq_minor := foldl (\<lambda>n c. next_digit c n) (rq_minor r) ds\<rparr>) s"
  by (induction ds arbitrary: r) (simp_all add: go_def is_digit_not)

lemma token_not: "token_char c \<Longrightarrow> c \<noteq> CHR '' '' \<and> c \<noteq> CHR '':'' \<and> c \<noteq> CHR 0x0D \<and> c \<noteq> CHR 0x09"
proof -
  assume t: "token_char c"
  have "\<not> token_char (CHR '' '')" "\<not> token_char (CHR '':'')" "\<not> token_char (CHR 0x09)"
    by (simp_all add: token_char_def is_tspecial_def)
  moreover have "\<not> token_char (CHR 0x0D)" by (simp add: token_char_def is_ctl_def schar_def)
  ultimately show ?thesis using t by metis
qed

lemma parse_name:
  "list_all token_char n \<Longrightarrow> parse S_header_name (r\<lparr>rq_headers := hs @ [h]\<rparr>) (n @ s)
     = parse S_header_name (r\<lparr>rq_headers := hs @ [h\<lparr>h_name := h_name h @ n\<rparr>]\<rparr>) s"
proof (induction n arbitrary: h)
  case (Cons c n)
  then show ?case by (simp add: consume_header go_def token_not) (simp add: token_char_def)
qed simp

lemma parse_value:
  "value_text v \<Longrightarrow> parse S_header_value (r\<lparr>rq_headers := hs @ [h]\<rparr>) (v @ s)
     = parse S_header_value (r\<lparr>rq_headers := hs @ [h\<lparr>h_value := h_value h @ v\<rparr>]\<rparr>) s"
proof (induction v arbitrary: h)
  case (Cons c v)
  have "c \<noteq> CHR 0x0D" using Cons.prems by (auto simp: value_text_def is_ctl_def schar_def)
  with Cons show ?case by (simp add: consume_header go_def value_text_def)
qed simp

lemma parse_lws:
  "list_all (\<lambda>c. c = CHR '' '' \<or> c = CHR 0x09) w \<Longrightarrow> parse S_header_lws r (w @ s) = parse S_header_lws r s"
  by (induction w) (auto simp: go_def)

text \<open>The states in which a line of a header ends.\<close>

definition at_value :: "parser_state \<Rightarrow> bool" where
  "at_value st \<longleftrightarrow> st = S_header_value \<or> st = S_header_lws"

lemma parse_line_end:
  "at_value st \<Longrightarrow> parse st r (CRLF @ s) = parse S_header_line_start r s"
  by (auto simp: at_value_def CRLF_def consume_defs)

lemma parse_piece:
  assumes "value_text p" "p = [] \<or> hd p \<noteq> CHR '' ''"
  shows "\<exists>st. at_value st \<and> (\<forall>s. parse S_header_lws (r\<lparr>rq_headers := hs @ [h]\<rparr>) (p @ s)
     = parse st (r\<lparr>rq_headers := hs @ [h\<lparr>h_value := h_value h @ p\<rparr>]\<rparr>) s)"
proof (cases p)
  case Nil
  then show ?thesis by (auto simp: at_value_def)
next
  case (Cons c q)
  have c: "c \<noteq> CHR 0x0D" "c \<noteq> CHR 0x09" "\<not> is_ctl c" "c \<noteq> CHR '' ''"
    using assms Cons by (auto simp: value_text_def is_ctl_def schar_def)
  have "value_text q" using assms Cons by (simp add: value_text_def)
  with c Cons have "parse S_header_lws (r\<lparr>rq_headers := hs @ [h]\<rparr>) (p @ s)
     = parse S_header_value (r\<lparr>rq_headers := hs @ [h\<lparr>h_value := h_value h @ p\<rparr>]\<rparr>) s" for s
    by (simp add: consume_header go_def parse_value)
  then show ?thesis by (auto simp: at_value_def)
qed

lemma parse_folds:
  "list_all fold_text fs \<Longrightarrow> at_value st \<Longrightarrow>
   \<exists>st'. at_value st' \<and> (\<forall>s. parse st (r\<lparr>rq_headers := hs @ [h]\<rparr>) (concat (map (\<lambda>(w, p). CRLF @ w @ p) fs) @ s)
     = parse st' (r\<lparr>rq_headers := hs @ [h\<lparr>h_value := h_value h @ concat (map snd fs)\<rparr>]\<rparr>) s)"
proof (induction fs arbitrary: h st)
  case (Cons f fs)
  obtain w p where f: "f = (w, p)" by fastforce
  then obtain c w' where w: "w = c # w'" "c = CHR '' '' \<or> c = CHR 0x09" "list_all (\<lambda>c. c = CHR '' '' \<or> c = CHR 0x09) w'"
      "value_text p" "p = [] \<or> hd p \<noteq> CHR '' ''"
    using Cons.prems(1) by (cases w) (auto simp: fold_text_def)
  obtain st1 where st1: "at_value st1" "\<And>s. parse S_header_lws (r\<lparr>rq_headers := hs @ [h]\<rparr>) (p @ s)
     = parse st1 (r\<lparr>rq_headers := hs @ [h\<lparr>h_value := h_value h @ p\<rparr>]\<rparr>) s"
    using parse_piece [OF w(4,5), where r = r and hs = hs and h = h] by blast
  have "parse S_header_line_start (r\<lparr>rq_headers := hs @ [h]\<rparr>) (w @ s) = parse S_header_lws (r\<lparr>rq_headers := hs @ [h]\<rparr>) s" for s
    using w(2) parse_lws [OF w(3)] by (auto simp: w(1) go_def)
  then have "parse st (r\<lparr>rq_headers := hs @ [h]\<rparr>) ((CRLF @ w @ p) @ s)
     = parse st1 (r\<lparr>rq_headers := hs @ [h\<lparr>h_value := h_value h @ p\<rparr>]\<rparr>) s" for s
    using parse_line_end [OF Cons.prems(2)] st1(2) by simp
  moreover obtain st' where "at_value st'"
      "\<And>s. parse st1 (r\<lparr>rq_headers := hs @ [h\<lparr>h_value := h_value h @ p\<rparr>]\<rparr>) (concat (map (\<lambda>(w, p). CRLF @ w @ p) fs) @ s)
     = parse st' (r\<lparr>rq_headers := hs @ [h\<lparr>h_value := (h_value h @ p) @ concat (map snd fs)\<rparr>]\<rparr>) s"
    using Cons.IH [OF _ st1(1), of "h\<lparr>h_value := h_value h @ p\<rparr>"] Cons.prems(1) by auto
  ultimately show ?case using f by (intro exI [of _ st']) simp
qed auto

lemma parse_header:
  assumes "header_ok g"
  shows "parse S_header_line_start r (open_header g @ CRLF @ s)
    = parse S_header_line_start (r\<lparr>rq_headers := rq_headers r @ [header_of g]\<rparr>) s"
proof -
  obtain c n where n: "ht_name g = c # n" "token_char c" "list_all token_char n"
    using assms by (cases "ht_name g") (auto simp: header_ok_def tokens_def)
  let ?r = "\<lambda>h. r\<lparr>rq_headers := rq_headers r @ [h]\<rparr>"
  have "parse S_header_line_start r (open_header g @ CRLF @ s)
      = parse S_header_name (?r \<lparr>h_name = [c], h_value = []\<rparr>)
          (n @ '': '' @ ht_first g @ concat (map (\<lambda>(w, p). CRLF @ w @ p) (ht_more g)) @ CRLF @ s)"
    using n(1,2) token_not [OF n(2)] by (simp add: open_header_def go_def) (simp add: token_char_def)
  also have "\<dots> = parse S_header_value (?r \<lparr>h_name = c # n, h_value = []\<rparr>)
          (ht_first g @ concat (map (\<lambda>(w, p). CRLF @ w @ p) (ht_more g)) @ CRLF @ s)"
    using n(3) by (simp add: parse_name consume_defs)
  also have "\<dots> = parse S_header_value (?r \<lparr>h_name = c # n, h_value = ht_first g\<rparr>)
          (concat (map (\<lambda>(w, p). CRLF @ w @ p) (ht_more g)) @ CRLF @ s)"
    using assms by (simp add: parse_value header_ok_def)
  also have "\<dots> = parse S_header_line_start (?r (header_of g)) s"
  proof -
    have "list_all fold_text (ht_more g)" "at_value S_header_value"
      using assms by (simp_all add: header_ok_def at_value_def)
    from parse_folds [OF this, where r = r and hs = "rq_headers r" and h = "\<lparr>h_name = c # n, h_value = ht_first g\<rparr>"]
    obtain st' where "at_value st'" "\<And>s. parse S_header_value (?r \<lparr>h_name = c # n, h_value = ht_first g\<rparr>)
          (concat (map (\<lambda>(w, p). CRLF @ w @ p) (ht_more g)) @ s)
        = parse st' (?r \<lparr>h_name = c # n, h_value = ht_first g @ concat (map snd (ht_more g))\<rparr>) s" by auto
    with parse_line_end [of st'] n(1) show ?thesis by (simp add: header_of_def)
  qed
  finally show ?thesis .
qed

lemma parse_headers:
  "list_all header_ok gs \<Longrightarrow> parse S_header_line_start r (concat (map (\<lambda>h. open_header h @ CRLF) gs) @ s)
    = parse S_header_line_start (r\<lparr>rq_headers := rq_headers r @ map header_of gs\<rparr>) s"
  by (induction gs arbitrary: r) (simp_all add: parse_header)

lemma parse_request:
  assumes "text_ok x"
  shows "parse S_method_start new_request (request_string x @ rest) = Some (S_expecting_newline_3, request_of x, Good, rest)"
proof -
  obtain c m where m: "xt_method x = c # m" "token_char c" "list_all token_char m"
    using assms by (cases "xt_method x") (auto simp: text_ok_def tokens_def)
  obtain d ds where d: "xt_major x = d # ds" "is_digit d" "list_all is_digit ds"
    using assms by (cases "xt_major x") (auto simp: text_ok_def digits_def)
  obtain e es where e: "xt_minor x = e # es" "is_digit e" "list_all is_digit es"
    using assms by (cases "xt_minor x") (auto simp: text_ok_def digits_def)
  let ?hs = "concat (map (\<lambda>h. open_header h @ CRLF) (xt_headers x)) @ CRLF @ rest"
  have "parse S_method_start new_request (request_string x @ rest)
      = parse S_method (new_request\<lparr>rq_method := [c]\<rparr>)
         (m @ '' '' @ xt_uri x @ '' HTTP/'' @ d # ds @ ''.'' @ e # es @ CRLF @ ?hs)"
    using m(1,2) d(1) e(1)
    by (simp add: request_string_def head_text_def start_line_def go_def new_request_def) (simp add: token_char_def)
  also have "\<dots> = parse S_http_version_major (\<lparr>rq_method = c # m, rq_uri = xt_uri x, rq_major = next_digit d 0,
       rq_minor = 0, rq_headers = []\<rparr>) (ds @ ''.'' @ e # es @ CRLF @ ?hs)"
    using m(3) d(2) assms by (simp add: parse_method parse_uri text_ok_def consume_defs new_request_def)
  also have "\<dots> = parse S_header_line_start (\<lparr>rq_method = c # m, rq_uri = xt_uri x, rq_major = version_of (d # ds),
       rq_minor = version_of (e # es), rq_headers = []\<rparr>) ?hs"
    using d(3) e(2,3) by (simp add: parse_major parse_minor version_of_def consume_defs CRLF_def)
  also have "\<dots> = parse S_header_line_start (request_of x) (CRLF @ rest)"
    using assms m(1) d(1) e(1) by (simp add: parse_headers text_ok_def request_of_def)
  also have "\<dots> = Some (S_expecting_newline_3, request_of x, Good, rest)"
    by (simp add: CRLF_def consume_defs)
  finally show ?thesis .
qed

subsection \<open>Properties\<close>

text \<open>
  C16: the parser accepts a buffer exactly when it begins with a request of the grammar: a method of
  token characters, a target without spaces and control characters, the version, header lines with
  their continuation lines, and the empty line; the request it returns is the one the text denotes,
  with the continuation lines joined to their header, and it stops at the end of that text.
\<close>

theorem http_parse_grammar:
  "parse S_method_start new_request s = Some (st, req, Good, rest) \<longleftrightarrow>
     st = S_expecting_newline_3 \<and> (\<exists>x. text_ok x \<and> s = request_string x @ rest \<and> req = request_of x)"
proof
  assume "parse S_method_start new_request s = Some (st, req, Good, rest)"
  then have "parse S_method_start (request_of new_text) s = Some (st, req, Good, rest)"
    by (simp add: request_of_new)
  from parse_read [of S_method_start new_text _ "[]", OF _ this]
  show "st = S_expecting_newline_3 \<and> (\<exists>x. text_ok x \<and> s = request_string x @ rest \<and> req = request_of x)" by auto
next
  assume "st = S_expecting_newline_3 \<and> (\<exists>x. text_ok x \<and> s = request_string x @ rest \<and> req = request_of x)"
  then show "parse S_method_start new_request s = Some (st, req, Good, rest)" by (auto simp: parse_request)
qed

text \<open>
  C35: the parser never gets stuck: whatever the bytes, and however many, it never asks for the last
  header of an empty list, and the state it is left in has a header whenever it will ask for one.
\<close>

theorem http_parser_total:
  "\<exists>st req r rest. parse RequestParser new_request s = Some (st, req, r, rest) \<and> parser_ok st req"
  using parse_ok [of RequestParser new_request s] by (simp add: parser_ok_def RequestParser_def)

subsection \<open>Reads\<close>

text \<open>
  A connection parses what each read delivers until the parser has decided; afterwards it does not
  read any more. As a reader of a stream it does not depend on how the bytes are cut.
\<close>

definition reader_feed :: "(parser_state \<times> request) option \<Rightarrow> string
    \<Rightarrow> (parser_state \<times> request) option \<times> (result_type \<times> request) list" where
  "reader_feed p d =
     (case p of
        None \<Rightarrow> (None, [])
      | Some (st, req) \<Rightarrow>
          (case parse st req d of
             None \<Rightarrow> (None, [])
           | Some (st', req', r, rest) \<Rightarrow>
               (if r = Indeterminate then (Some (st', req'), []) else (None, [(r, req')]))))"

interpretation http: stream_reader reader_feed "\<lambda>_. True"
proof
  fix s :: "(parser_state \<times> request) option" and x y :: string
  show "reader_feed s [] = (s, [])" by (cases s) (auto simp: reader_feed_def)
  show "reader_feed s (x @ y) = (let (s1, o1) = reader_feed s x; (s2, o2) = reader_feed s1 y in (s2, o1 @ o2))"
    by (cases s) (auto simp: reader_feed_def parse_append split: option.splits prod.splits)
qed simp

lemma reader_good:
  "feed_all reader_feed (Some (RequestParser, new_request)) ds = (None, [(Good, req)]) \<longleftrightarrow>
   (\<exists>x rest. text_ok x \<and> concat ds = request_string x @ rest \<and> req = request_of x)"
proof -
  have "feed_all reader_feed (Some (RequestParser, new_request)) ds
      = reader_feed (Some (RequestParser, new_request)) (concat ds)"
    by (rule http.feed_pieces) simp
  also have "\<dots> = (None, [(Good, req)]) \<longleftrightarrow>
      (\<exists>st rest. parse S_method_start new_request (concat ds) = Some (st, req, Good, rest))"
    by (auto simp: reader_feed_def RequestParser_def split: option.splits prod.splits if_splits)
  finally show ?thesis unfolding http_parse_grammar by blast
qed

end
