(* ===== verification/IQ_Http_Handler.thy ===== *)
theory IQ_Http_Handler
  imports IQ_Http_Parser
begin

text \<open>
  What the statistics server answers: replies and their bytes (src/stats/http/Reply.cpp, Reply.h),
  the decoding of the target and the handler of a request (src/stats/http/RequestHandler.cpp), and
  the content types (src/stats/http/MimeTypes.cpp). The property tree library that writes the JSON is
  a function of the values put into the tree, and may throw.
\<close>

subsection \<open>Replies\<close>

datatype status_type =
    ST_ok | ST_created | ST_accepted | ST_no_content | ST_multiple_choices | ST_moved_permanently | ST_moved_temporarily | ST_not_modified
  | ST_bad_request | ST_unauthorized | ST_forbidden | ST_not_found | ST_internal_server_error | ST_not_implemented | ST_bad_gateway | ST_service_unavailable

text \<open>
  The \<open>default\<close> branches of the two switches, the texts of the internal server error, are not
  reached by a value of the enumeration.
\<close>

primrec status_line :: "status_type \<Rightarrow> string" where
  "status_line ST_ok = ''HTTP/1.0 200 OK'' @ CRLF"
| "status_line ST_created = ''HTTP/1.0 201 Created'' @ CRLF"
| "status_line ST_accepted = ''HTTP/1.0 202 Accepted'' @ CRLF"
| "status_line ST_no_content = ''HTTP/1.0 204 No Content'' @ CRLF"
| "status_line ST_multiple_choices = ''HTTP/1.0 300 Multiple Choices'' @ CRLF"
| "status_line ST_moved_permanently = ''HTTP/1.0 301 Moved Permanently'' @ CRLF"
| "status_line ST_moved_temporarily = ''HTTP/1.0 302 Moved Temporarily'' @ CRLF"
| "status_line ST_not_modified = ''HTTP/1.0 304 Not Modified'' @ CRLF"
| "status_line ST_bad_request = ''HTTP/1.0 400 Bad Request'' @ CRLF"
| "status_line ST_unauthorized = ''HTTP/1.0 401 Unauthorized'' @ CRLF"
| "status_line ST_forbidden = ''HTTP/1.0 403 Forbidden'' @ CRLF"
| "status_line ST_not_found = ''HTTP/1.0 404 Not Found'' @ CRLF"
| "status_line ST_internal_server_error = ''HTTP/1.0 500 Internal Server Error'' @ CRLF"
| "status_line ST_not_implemented = ''HTTP/1.0 501 Not Implemented'' @ CRLF"
| "status_line ST_bad_gateway = ''HTTP/1.0 502 Bad Gateway'' @ CRLF"
| "status_line ST_service_unavailable = ''HTTP/1.0 503 Service Unavailable'' @ CRLF"

primrec stock_content :: "status_type \<Rightarrow> string" where
  "stock_content ST_ok = []"
| "stock_content ST_created = ''<html><head><title>Created</title></head><body><h1>201 Created</h1></body></html>''"
| "stock_content ST_accepted = ''<html><head><title>Accepted</title></head><body><h1>202 Accepted</h1></body></html>''"
| "stock_content ST_no_content = ''<html><head><title>No Content</title></head><body><h1>204 Content</h1></body></html>''"
| "stock_content ST_multiple_choices = ''<html><head><title>Multiple Choices</title></head><body><h1>300 Multiple Choices</h1></body></html>''"
| "stock_content ST_moved_permanently = ''<html><head><title>Moved Permanently</title></head><body><h1>301 Moved Permanently</h1></body></html>''"
| "stock_content ST_moved_temporarily = ''<html><head><title>Moved Temporarily</title></head><body><h1>302 Moved Temporarily</h1></body></html>''"
| "stock_content ST_not_modified = ''<html><head><title>Not Modified</title></head><body><h1>304 Not Modified</h1></body></html>''"
| "stock_content ST_bad_request = ''<html><head><title>Bad Request</title></head><body><h1>400 Bad Request</h1></body></html>''"
| "stock_content ST_unauthorized = ''<html><head><title>Unauthorized</title></head><body><h1>401 Unauthorized</h1></body></html>''"
| "stock_content ST_forbidden = ''<html><head><title>Forbidden</title></head><body><h1>403 Forbidden</h1></body></html>''"
| "stock_content ST_not_found = ''<html><head><title>Not Found</title></head><body><h1>404 Not Found</h1></body></html>''"
| "stock_content ST_internal_server_error = ''<html><head><title>Internal Server Error</title></head><body><h1>500 Internal Server Error</h1></body></html>''"
| "stock_content ST_not_implemented = ''<html><head><title>Not Implemented</title></head><body><h1>501 Not Implemented</h1></body></html>''"
| "stock_content ST_bad_gateway = ''<html><head><title>Bad Gateway</title></head><body><h1>502 Bad Gateway</h1></body></html>''"
| "stock_content ST_service_unavailable = ''<html><head><title>Service Unavailable</title></head><body><h1>503 Service Unavailable</h1></body></html>''"

record reply =
  rp_status :: status_type
  rp_headers :: "http_header list"
  rp_content :: string

definition to_buffers :: "reply \<Rightarrow> string list" where
  "to_buffers r =
     status_line (rp_status r) # concat (map (\<lambda>h. [h_name h, '': '', h_value h, CRLF]) (rp_headers r))
     @ [CRLF, rp_content r]"

definition stock_reply :: "status_type \<Rightarrow> reply" where
  "stock_reply status =
     (let content = stock_content status
      in \<lparr>rp_status = status,
          rp_headers = [\<lparr>h_name = ''Content-Length'', h_value = to_string (length content)\<rparr>,
                        \<lparr>h_name = ''Content-Type'', h_value = ''text/html''\<rparr>],
          rp_content = content\<rparr>)"

subsection \<open>Content types\<close>

definition mime_mappings :: "(string \<times> string) list" where
  "mime_mappings = [(''gif'', ''image/gif''), (''htm'', ''text/html''), (''html'', ''text/html''),
     (''jpg'', ''image/jpeg''), (''png'', ''image/png''), (''json'', ''application/json'')]"

definition extension_to_type :: "string \<Rightarrow> string" where
  "extension_to_type extension =
     (case map_of mime_mappings extension of Some mime_type \<Rightarrow> mime_type | None \<Rightarrow> ''text/plain'')"

subsection \<open>The target\<close>

fun url_decode :: "string \<Rightarrow> string option" where
  "url_decode [] = Some []"
| "url_decode (c # cs) =
     (if c = CHR ''%'' then
        (case cs of
           a # b # r \<Rightarrow>
             (case istream_hex [a, b] of
                Some value \<Rightarrow> map_option ((#) (to_char value)) (url_decode r)
              | None \<Rightarrow> None)
         | _ \<Rightarrow> None)
      else if c = CHR ''+'' then map_option ((#) (CHR '' '')) (url_decode cs)
      else map_option ((#) c) (url_decode cs))"

fun has_dotdot :: "string \<Rightarrow> bool" where
  "has_dotdot (a # b # r) = (a = CHR ''.'' \<and> b = CHR ''.'' \<or> has_dotdot (b # r))"
| "has_dotdot _ = False"

subsection \<open>The handler\<close>

datatype pt_value = PInt int | PStr string

text \<open>The values put into the root of the tree, and into its one child.\<close>

record stats_tree =
  pt_root :: "(string \<times> pt_value) list"
  pt_child :: "string \<times> (string \<times> pt_value) list"

definition stats_document :: "int \<Rightarrow> string \<Rightarrow> (string \<times> 64 word) list \<Rightarrow> stats_tree" where
  "stats_document time version metrics =
     \<lparr>pt_root = [(''time'', PInt time)],
      pt_child = (''iqlogger'', (''version'', PStr version) # map (\<lambda>(name, v). (name, PInt (uint v))) metrics)\<rparr>"

definition handle_request :: "(stats_tree \<Rightarrow> string outcome) \<Rightarrow> int \<Rightarrow> string \<Rightarrow> (string \<times> 64 word) list
    \<Rightarrow> request \<Rightarrow> reply outcome" where
  "handle_request write_json time version metrics req =
     (case url_decode (rq_uri req) of
        None \<Rightarrow> Inr (stock_reply ST_bad_request)
      | Some request_path \<Rightarrow>
          (if request_path = [] \<or> hd request_path \<noteq> CHR ''/'' \<or> has_dotdot request_path
           then Inr (stock_reply ST_bad_request)
           else if request_path = ''/stats'' then
             and_then (write_json (stats_document time version metrics)) (\<lambda>content.
               Inr \<lparr>rp_status = ST_ok,
                    rp_headers = [\<lparr>h_name = ''Content-Length'', h_value = to_string (length content)\<rparr>,
                                  \<lparr>h_name = ''Content-Type'', h_value = extension_to_type ''json''\<rparr>],
                    rp_content = content\<rparr>)
           else Inr (stock_reply ST_not_found)))"

subsection \<open>Properties\<close>

text \<open>Percent encoding: a byte that is not safe is written as two hexadecimal digits.\<close>

definition hex_digit :: "nat \<Rightarrow> char" where
  "hex_digit d = (if d < 10 then char_of (48 + d) else char_of (55 + d))"

definition url_encode :: "(char \<Rightarrow> bool) \<Rightarrow> string \<Rightarrow> string" where
  "url_encode safe s = concat (map (\<lambda>c. if safe c then [c] else [CHR ''%'', hex_digit (byte c div 16), hex_digit (byte c mod 16)]) s)"

lemma hex_digit:
  assumes "d < 16"
  shows "is_xdigit (hex_digit d)" "xdigit_val (hex_digit d) = d" "\<not> is_space (hex_digit d)"
    "hex_digit d \<noteq> CHR ''-''" "hex_digit d \<noteq> CHR ''+''" "hex_digit d \<noteq> CHR ''x''" "hex_digit d \<noteq> CHR ''X''"
proof -
  have b: "byte (hex_digit d) = (if d < 10 then 48 + d else 55 + d)" using assms by (simp add: hex_digit_def)
  with assms show "is_xdigit (hex_digit d)" "xdigit_val (hex_digit d) = d" "\<not> is_space (hex_digit d)"
    by (auto simp: is_xdigit_def is_dec_def xdigit_val_def is_space_def)
  show "hex_digit d \<noteq> CHR ''-''" "hex_digit d \<noteq> CHR ''+''" "hex_digit d \<noteq> CHR ''x''" "hex_digit d \<noteq> CHR ''X''"
    using b assms by (auto split: if_splits)
qed

lemma istream_hex_byte: "istream_hex [hex_digit (byte c div 16), hex_digit (byte c mod 16)] = Some (int (byte c))"
proof -
  have d: "byte c div 16 < 16" by (rule less_mult_imp_div_less) simp
  have e: "byte c mod 16 < 16" by simp
  have "int (byte c) < 256" using byte_less [of c] by linarith
  then have "int (byte c) < 2 ^ 31" by (rule less_trans) simp
  with hex_digit [OF d] hex_digit [OF e] show ?thesis
    by (simp add: istream_hex_def split_sign_def hex_val_def Let_def fits_int32_def)
qed

lemma to_char_byte [simp]: "to_char (int (byte c)) = c"
  by (simp add: to_char_def)

text \<open>
  C33: decoding inverts percent encoding for every byte string, the bytes from 128 to 255 included,
  whichever bytes the encoder leaves as they are, as long as it escapes the percent and plus signs.
\<close>

theorem url_decode_encode:
  assumes "\<not> safe (CHR ''%'')" "\<not> safe (CHR ''+'')"
  shows "url_decode (url_encode safe s) = Some s"
proof (induction s)
  case (Cons c s)
  show ?case
  proof (cases "safe c")
    case True
    with assms have "c \<noteq> CHR ''%''" "c \<noteq> CHR ''+''" by auto
    with True Cons show ?thesis by (simp add: url_encode_def)
  next
    case False
    with Cons show ?thesis by (simp add: url_encode_def istream_hex_byte)
  qed
qed (simp add: url_encode_def)

lemma url_decode_encode_witness:
  "url_decode (url_encode (\<lambda>c. c = CHR ''a'') [CHR ''a'', CHR 0xE9, CHR ''+'']) = Some [CHR ''a'', CHR 0xE9, CHR ''+'']"
  by (rule url_decode_encode) simp_all

text \<open>What is no two-digit number is taken too: a sign, a space, or a digit followed by anything.\<close>

lemma url_decode_lenient:
  "url_decode ''%-1'' = Some [CHR 0xFF]" "url_decode ''%4z'' = Some [CHR 0x04]" "url_decode ''% 5'' = Some [CHR 0x05]"
  by code_simp+

lemma stock_reply_sel [simp]:
  "rp_status (stock_reply st) = st" "rp_content (stock_reply st) = stock_content st"
  "rp_headers (stock_reply st) = [\<lparr>h_name = ''Content-Length'', h_value = to_string (length (stock_content st))\<rparr>,
      \<lparr>h_name = ''Content-Type'', h_value = ''text/html''\<rparr>]"
  by (simp_all add: stock_reply_def Let_def)

definition reply_framed :: "reply \<Rightarrow> bool" where
  "reply_framed rep \<longleftrightarrow> (\<exists>type. concat (to_buffers rep) =
     status_line (rp_status rep) @ ''Content-Length: '' @ to_string (length (rp_content rep)) @ CRLF
     @ ''Content-Type: '' @ type @ CRLF @ CRLF @ rp_content rep)"

lemma stock_reply_framed: "reply_framed (stock_reply st)"
  unfolding reply_framed_def to_buffers_def by (rule exI [of _ "''text/html''"]) simp

text \<open>
  C32: what a request is answered: the status depends on the decoded target alone, which is refused
  when it cannot be decoded, is not absolute or contains two dots in a row; the statistics are
  answered for one path only, with the document the library writes, whose exceptions escape; every
  reply states the length of its content and has its headers framed.
\<close>

theorem http_replies:
  "case handle_request write_json time version metrics req of
     Inl e \<Rightarrow> write_json (stats_document time version metrics) = Inl e \<and> url_decode (rq_uri req) = Some ''/stats''
   | Inr rep \<Rightarrow> reply_framed rep \<and> rp_status rep =
       (case url_decode (rq_uri req) of
          None \<Rightarrow> ST_bad_request
        | Some path \<Rightarrow> if path = ''/stats'' then ST_ok
            else if path = [] \<or> hd path \<noteq> CHR ''/'' \<or> has_dotdot path then ST_bad_request else ST_not_found)
     \<and> (if rp_status rep = ST_ok then write_json (stats_document time version metrics) = Inr (rp_content rep)
        else rep = stock_reply (rp_status rep))"
proof -
  have "reply_framed \<lparr>rp_status = st, rp_headers = [\<lparr>h_name = ''Content-Length'', h_value = to_string (length content)\<rparr>,
      \<lparr>h_name = ''Content-Type'', h_value = type\<rparr>], rp_content = content\<rparr>" for st content type
    unfolding reply_framed_def to_buffers_def by (rule exI [of _ type]) simp
  with stock_reply_framed show ?thesis
    by (auto simp: handle_request_def and_then_def split: option.splits sum.splits)
qed

lemma http_replies_witness:
  "\<exists>rep. handle_request (\<lambda>_. Inr ''{}'') 0 ''1.0'' [] (new_request\<lparr>rq_uri := ''/stats''\<rparr>) = Inr rep
    \<and> reply_framed rep \<and> rp_status rep = ST_ok"
proof -
  let ?r = "handle_request (\<lambda>_. Inr ''{}'') 0 ''1.0'' [] (new_request\<lparr>rq_uri := ''/stats''\<rparr>)"
  have "url_decode ''/stats'' = Some ''/stats''" by code_simp
  then show ?thesis
    using http_replies [of "\<lambda>_. Inr ''{}''" 0 "''1.0''" "[]" "new_request\<lparr>rq_uri := ''/stats''\<rparr>"]
    by (cases ?r) auto
qed

end
