(* ===== verification/IQ_Http_Server.thy ===== *)
theory IQ_Http_Server
  imports IQ_Http_Handler
begin

text \<open>
  The statistics server over HTTP: a connection (src/stats/http/Connection.cpp), the manager of the
  open connections (src/stats/http/ConnectionManager.cpp) and the acceptor with the stop of the
  server (src/stats/http/Server.cpp). A connection has one socket and at most one pending operation;
  the network decides how the operation completes. The steps of the server are its handlers, one at
  a time, and the stop, which another thread may do between two of them.
\<close>

subsection \<open>A connection\<close>

datatype conn_op = NoOp | Reading | Writing

datatype conn_ec = CE_ok | CE_aborted | CE_other

record http_conn =
  hc_parser :: parser_state
  hc_request :: request
  hc_reply :: "reply option"
  hc_pending :: conn_op
  hc_open :: bool

definition Connection :: http_conn where
  "Connection = \<lparr>hc_parser = RequestParser, hc_request = new_request, hc_reply = None,
     hc_pending = NoOp, hc_open = True\<rparr>"

definition do_read :: "http_conn \<Rightarrow> http_conn" where
  "do_read k = k\<lparr>hc_pending := Reading\<rparr>"

definition do_write :: "http_conn \<Rightarrow> http_conn" where
  "do_write k = k\<lparr>hc_pending := Writing\<rparr>"

definition conn_start :: "http_conn \<Rightarrow> http_conn" where
  "conn_start k = do_read k"

definition conn_stop :: "http_conn \<Rightarrow> http_conn" where
  "conn_stop k = k\<lparr>hc_open := False\<rparr>"

text \<open>
  The handler of a read: the connection it leaves and whether it asks the manager to stop it. It is
  undefined (\<open>None\<close>) where the parser is.
\<close>

definition on_read :: "(request \<Rightarrow> reply outcome) \<Rightarrow> conn_ec \<Rightarrow> string \<Rightarrow> http_conn
    \<Rightarrow> (http_conn \<times> bool) outcome option" where
  "on_read handler ec data k =
     (let k = k\<lparr>hc_pending := NoOp\<rparr>
      in case ec of
           CE_ok \<Rightarrow>
             (case parse (hc_parser k) (hc_request k) data of
                None \<Rightarrow> None
              | Some (st, req, result, rest) \<Rightarrow>
                  (let k = k\<lparr>hc_parser := st, hc_request := req\<rparr>
                   in case result of
                        Good \<Rightarrow> Some (and_then (handler req) (\<lambda>rep. Inr (do_write (k\<lparr>hc_reply := Some rep\<rparr>), False)))
                      | Bad \<Rightarrow> Some (Inr (do_write (k\<lparr>hc_reply := Some (stock_reply ST_bad_request)\<rparr>), False))
                      | Indeterminate \<Rightarrow> Some (Inr (do_read k, False))))
         | CE_aborted \<Rightarrow> Some (Inr (k, False))
         | CE_other \<Rightarrow> Some (Inr (k, True)))"

definition on_write :: "conn_ec \<Rightarrow> http_conn \<Rightarrow> http_conn \<times> bool" where
  "on_write ec k = (k\<lparr>hc_pending := NoOp\<rparr>, ec \<noteq> CE_aborted)"

subsection \<open>The manager and the server\<close>

text \<open>
  The connections by number; \<open>sv_connections\<close> is the manager's set. \<open>sv_running\<close> is whether the
  service runs handlers, \<open>sv_accepting\<close> whether the acceptor is open, \<open>sv_armed\<close> whether an accept
  is pending.
\<close>

record http_server =
  sv_conns :: "nat \<Rightarrow> http_conn option"
  sv_connections :: "nat set"
  sv_running :: bool
  sv_accepting :: bool
  sv_armed :: bool

definition manager_start :: "nat \<Rightarrow> http_conn \<Rightarrow> http_server \<Rightarrow> http_server" where
  "manager_start c k s =
     s\<lparr>sv_connections := insert c (sv_connections s), sv_conns := (sv_conns s)(c \<mapsto> conn_start k)\<rparr>"

definition manager_stop :: "nat \<Rightarrow> http_server \<Rightarrow> http_server" where
  "manager_stop c s =
     s\<lparr>sv_connections := sv_connections s - {c},
       sv_conns := (sv_conns s)(c := map_option conn_stop (sv_conns s c))\<rparr>"

definition stop_all :: "http_server \<Rightarrow> http_server" where
  "stop_all s =
     s\<lparr>sv_conns := (\<lambda>c. if c \<in> sv_connections s then map_option conn_stop (sv_conns s c) else sv_conns s c),
       sv_connections := {}\<rparr>"

definition Server :: http_server where
  "Server = \<lparr>sv_conns = (\<lambda>_. None), sv_connections = {}, sv_running = True, sv_accepting = True, sv_armed = True\<rparr>"

definition on_accept :: "conn_ec \<Rightarrow> nat \<Rightarrow> http_server \<Rightarrow> http_server" where
  "on_accept ec c s =
     (if \<not> sv_accepting s then s\<lparr>sv_armed := False\<rparr>
      else (if ec = CE_ok then manager_start c Connection s else s)\<lparr>sv_armed := True\<rparr>)"

definition http_stopImpl :: "http_server \<Rightarrow> http_server" where
  "http_stopImpl s = stop_all (s\<lparr>sv_running := False, sv_accepting := False\<rparr>)"

text \<open>What a handler leaves: the connection, stopped by the manager if it asked for that.\<close>

definition handled :: "nat \<Rightarrow> http_conn \<times> bool \<Rightarrow> http_server \<Rightarrow> http_server" where
  "handled c r s =
     (let s = s\<lparr>sv_conns := (sv_conns s)(c \<mapsto> fst r)\<rparr>
      in if snd r then manager_stop c s else s)"

text \<open>An operation on a closed socket is aborted, one on an open socket is not.\<close>

definition ec_possible :: "http_conn \<Rightarrow> conn_ec \<Rightarrow> bool" where
  "ec_possible k ec \<longleftrightarrow> (hc_open k \<longleftrightarrow> ec \<noteq> CE_aborted)"

inductive http_step :: "(request \<Rightarrow> reply outcome) \<Rightarrow> http_server \<Rightarrow> http_server \<Rightarrow> bool" for h where
  accepted: "sv_running s \<Longrightarrow> sv_armed s \<Longrightarrow> sv_conns s c = None \<Longrightarrow> http_step h s (on_accept ec c s)"
| read: "sv_running s \<Longrightarrow> sv_conns s c = Some k \<Longrightarrow> hc_pending k = Reading \<Longrightarrow> ec_possible k ec \<Longrightarrow>
    on_read h ec data k = Some (Inr r) \<Longrightarrow> http_step h s (handled c r s)"
| read_throws: "sv_running s \<Longrightarrow> sv_conns s c = Some k \<Longrightarrow> hc_pending k = Reading \<Longrightarrow> ec_possible k ec \<Longrightarrow>
    on_read h ec data k = Some (Inl e) \<Longrightarrow> http_step h s (s\<lparr>sv_running := False\<rparr>)"
| written: "sv_running s \<Longrightarrow> sv_conns s c = Some k \<Longrightarrow> hc_pending k = Writing \<Longrightarrow> ec_possible k ec \<Longrightarrow>
    http_step h s (handled c (on_write ec k) s)"
| stopped: "http_step h s (http_stopImpl s)"

inductive http_reachable :: "(request \<Rightarrow> reply outcome) \<Rightarrow> http_server \<Rightarrow> bool" for h where
  start: "http_reachable h Server"
| step: "http_reachable h s \<Longrightarrow> http_step h s s' \<Longrightarrow> http_reachable h s'"

inductive_cases http_stepE: "http_step h s s'"

subsection \<open>The invariant\<close>

definition conn_ok :: "http_conn \<Rightarrow> bool" where
  "conn_ok k \<longleftrightarrow> parser_ok (hc_parser k) (hc_request k)
     \<and> (hc_open k \<longrightarrow> hc_pending k \<noteq> NoOp)
     \<and> (hc_pending k = Writing \<longrightarrow> hc_reply k \<noteq> None)"

definition server_ok :: "http_server \<Rightarrow> bool" where
  "server_ok s \<longleftrightarrow>
     (\<forall>c k. sv_conns s c = Some k \<longrightarrow> conn_ok k)
     \<and> (\<forall>c. c \<in> sv_connections s \<longleftrightarrow> (\<exists>k. sv_conns s c = Some k \<and> hc_open k))"

lemma on_read_ok:
  assumes "conn_ok k" "hc_pending k = Reading" "ec_possible k ec" "on_read h ec data k = Some (Inr (k', stop))"
  shows "hc_open k' = hc_open k" "(if stop then conn_ok (conn_stop k') \<and> hc_open k else conn_ok k')"
proof -
  obtain st req r rest where p: "parse (hc_parser k) (hc_request k) data = Some (st, req, r, rest)" "parser_ok st req"
    using parse_ok assms(1) unfolding conn_ok_def by blast
  show "hc_open k' = hc_open k"
    using assms(4) p by (auto simp: on_read_def do_read_def do_write_def Let_def and_then_Inr_iff
        split: conn_ec.splits result_type.splits)
  show "if stop then conn_ok (conn_stop k') \<and> hc_open k else conn_ok k'"
    using assms p by (auto simp: on_read_def do_read_def do_write_def Let_def and_then_Inr_iff conn_ok_def
        ec_possible_def conn_stop_def split: conn_ec.splits result_type.splits)
qed

lemma on_read_defined: "conn_ok k \<Longrightarrow> on_read h ec data k \<noteq> None"
  using parse_ok [of "hc_parser k" "hc_request k" data]
  by (auto simp: on_read_def conn_ok_def Let_def split: conn_ec.splits result_type.splits)

lemma handled_ok:
  assumes "server_ok s" "sv_conns s c = Some k" "hc_open (fst r) = hc_open k"
    and "if snd r then conn_ok (conn_stop (fst r)) \<and> hc_open k else conn_ok (fst r)"
  shows "server_ok (handled c r s)"
  using assms by (auto simp: server_ok_def handled_def manager_stop_def conn_stop_def Let_def)

lemma server_ok_step:
  assumes "http_step h s s'" "server_ok s"
  shows "server_ok s'"
  using assms(1)
proof cases
  case (accepted c ec)
  with assms(2) show ?thesis
    by (auto simp: on_accept_def manager_start_def conn_start_def do_read_def Connection_def server_ok_def conn_ok_def
        parser_ok_def RequestParser_def)
next
  case (read c k ec data r)
  have k: "conn_ok k" using assms(2) read by (auto simp: server_ok_def)
  have "on_read h ec data k = Some (Inr (fst r, snd r))" using read by simp
  from on_read_ok [OF k _ _ this] read handled_ok [OF assms(2)] show ?thesis by simp
next
  case (read_throws c k ec data e)
  with assms(2) show ?thesis by (simp add: server_ok_def)
next
  case (written c k ec)
  then have "conn_ok k" using assms(2) by (auto simp: server_ok_def)
  with written have "hc_open (fst (on_write ec k)) = hc_open k"
    "if snd (on_write ec k) then conn_ok (conn_stop (fst (on_write ec k))) \<and> hc_open k else conn_ok (fst (on_write ec k))"
    by (auto simp: on_write_def conn_ok_def conn_stop_def ec_possible_def)
  with handled_ok [OF assms(2)] written show ?thesis by simp
next
  case stopped
  with assms(2) show ?thesis
    by (auto simp: http_stopImpl_def stop_all_def server_ok_def conn_ok_def conn_stop_def)
qed

lemma server_ok_reachable: "http_reachable h s \<Longrightarrow> server_ok s"
  by (induction rule: http_reachable.induct) (auto simp: server_ok_step, simp add: server_ok_def Server_def)

subsection \<open>Properties\<close>



text \<open>The reads of one connection, as long as it reads.\<close>

fun conn_reads :: "(request \<Rightarrow> reply outcome) \<Rightarrow> string list \<Rightarrow> http_conn \<Rightarrow> http_conn outcome option" where
  "conn_reads h [] k = Some (Inr k)"
| "conn_reads h (d # ds) k =
     (if hc_pending k = Reading then
        (case on_read h CE_ok d k of
           None \<Rightarrow> None
         | Some (Inl e) \<Rightarrow> Some (Inl e)
         | Some (Inr (k', stop)) \<Rightarrow> conn_reads h ds k')
      else Some (Inr k))"

lemma reader_decided: "feed_all reader_feed None ds = (None, [])"
  by (induction ds) (simp_all add: reader_feed_def)

lemma conn_reads_good:
  "hc_pending k = Reading \<Longrightarrow>
   feed_all reader_feed (Some (hc_parser k, hc_request k)) ds = (None, [(Good, req)]) \<Longrightarrow> h req = Inr rep \<Longrightarrow>
   \<exists>k'. conn_reads h ds k = Some (Inr k') \<and> hc_pending k' = Writing \<and> hc_reply k' = Some rep"
proof (induction ds arbitrary: k)
  case (Cons d ds)
  obtain p o1 where f: "reader_feed (Some (hc_parser k, hc_request k)) d = (p, o1)" by fastforce
  obtain q o2 where g: "feed_all reader_feed p ds = (q, o2)" by fastforce
  from Cons.prems(2) f g have e: "q = None" "o1 @ o2 = [(Good, req)]" by simp_all
  show ?case
  proof (cases p)
    case None
    then have "o1 = [(Good, req)]" using g e(2) reader_decided [of ds] by simp
    then obtain st rest where "parse (hc_parser k) (hc_request k) d = Some (st, req, Good, rest)"
      using f None by (auto simp: reader_feed_def split: option.splits if_splits)
    then have "on_read h CE_ok d k = Some (Inr (do_write (k\<lparr>hc_pending := NoOp, hc_parser := st, hc_request := req,
        hc_reply := Some rep\<rparr>), False))"
      using Cons.prems(3) by (simp add: on_read_def Let_def)
    then show ?thesis using Cons.prems(1) by (cases ds) (simp_all add: do_write_def)
  next
    case (Some sr)
    then obtain st req' rest where p: "parse (hc_parser k) (hc_request k) d = Some (st, req', Indeterminate, rest)"
        "sr = (st, req')" "o1 = []"
      using f by (auto simp: reader_feed_def split: option.splits if_splits)
    let ?k = "do_read (k\<lparr>hc_pending := NoOp, hc_parser := st, hc_request := req'\<rparr>)"
    have r: "on_read h CE_ok d k = Some (Inr (?k, False))" using p by (simp add: on_read_def Let_def)
    have "feed_all reader_feed (Some (hc_parser ?k, hc_request ?k)) ds = (None, [(Good, req)])"
      using g e p Some by (simp add: do_read_def)
    from Cons.IH [OF _ this Cons.prems(3)] r Cons.prems(1) show ?thesis by (simp add: do_read_def)
  qed
qed simp

text \<open>
  C23: a connection that is sent a request of the grammar, cut into reads in any way and followed by
  anything, is answered with exactly the reply of the handler to that request.
\<close>

theorem http_connection_answers:
  assumes "text_ok x" "concat ds = request_string x @ rest"
    and "handle_request write_json time version metrics (request_of x) = Inr rep"
  shows "\<exists>k. conn_reads (handle_request write_json time version metrics) ds (conn_start Connection) = Some (Inr k)
    \<and> hc_pending k = Writing \<and> hc_reply k = Some rep"
proof -
  have "feed_all reader_feed (Some (RequestParser, new_request)) ds = (None, [(Good, request_of x)])"
    using assms(1,2) reader_good by blast
  with conn_reads_good [of "conn_start Connection" ds "request_of x" "handle_request write_json time version metrics" rep]
    assms(3) show ?thesis
    by (simp add: conn_start_def do_read_def Connection_def)
qed

definition demo_text :: request_text where
  "demo_text = \<lparr>xt_method = ''G'', xt_uri = ''/x'', xt_major = ''1'', xt_minor = ''1'',
     xt_headers = [\<lparr>ht_name = ''h'', ht_first = ''v'', ht_more = [('' '', ''w'')]\<rparr>]\<rparr>"

lemma http_connection_answers_witness:
  "\<exists>k. conn_reads (handle_request (\<lambda>_. Inl RuntimeError) 0 ''1'' []) [''G'', drop 1 (request_string demo_text)] (conn_start Connection)
      = Some (Inr k) \<and> hc_pending k = Writing \<and> hc_reply k = Some (stock_reply ST_not_found)"
proof (rule http_connection_answers [where x = demo_text and rest = "[]"])
  show "text_ok demo_text"
    by (simp add: demo_text_def text_ok_def tokens_def token_char_def is_char_def is_ctl_def is_tspecial_def schar_def
        uri_text_def digits_def is_digit_def header_ok_def value_text_def fold_text_def)
  show "concat [''G'', drop 1 (request_string demo_text)] = request_string demo_text @ []"
    by (simp add: demo_text_def request_string_def head_text_def start_line_def)
  show "handle_request (\<lambda>_. Inl RuntimeError) 0 ''1'' [] (request_of demo_text) = Inr (stock_reply ST_not_found)"
    by (simp add: handle_request_def request_of_def demo_text_def)
qed

text \<open>
  An exception that leaves the handler, as the library may throw for metrics whose names clash, ends
  the service: no handler runs any more.
\<close>

lemma http_handler_throws:
  assumes "sv_running s" "sv_conns s c = Some k" "hc_pending k = Reading" "hc_open k"
    and "parse (hc_parser k) (hc_request k) data = Some (st, req, Good, rest)" "h req = Inl e"
  shows "http_step h s (s\<lparr>sv_running := False\<rparr>)"
  using assms by (intro http_step.read_throws [where ec = CE_ok and data = data]) (auto simp: ec_possible_def on_read_def)

end
