(* ===== verification/IQ_Telegraf.thy ===== *)
theory IQ_Telegraf
  imports IQ_Metrics IQ_Config
begin

text \<open>
  The export of the metrics in the line protocol (src/stats/telegraf/Exporter.cpp, Exporter.h), the
  loop that sends it (src/stats/telegraf/Server.cpp), and the construction of the export servers
  (src/stats/telegraf/StatsExportServer.cpp, src/stats/http/StatsExportServer.cpp,
  src/stats/StatsExportServer.h). A property tree is a text with named children in order; how the
  library puts a value at a dotted path and finds a child are functions.
\<close>

subsection \<open>The tree of the metrics\<close>

datatype ptree = PTree string "(string \<times> ptree) list"

primrec pt_data :: "ptree \<Rightarrow> string" where "pt_data (PTree d cs) = d"
primrec pt_children :: "ptree \<Rightarrow> (string \<times> ptree) list" where "pt_children (PTree d cs) = cs"

record pt_lib =
  pl_put :: "string \<Rightarrow> string \<Rightarrow> ptree \<Rightarrow> ptree"
  pl_get_child :: "string \<Rightarrow> ptree \<Rightarrow> ptree outcome"

definition show_metric :: "64 word \<Rightarrow> string" where
  "show_metric v = to_string (unat v)"

definition getMetricsPtree :: "pt_lib \<Rightarrow> (string \<times> 64 word) list \<Rightarrow> ptree" where
  "getMetricsPtree T metrics = fold (\<lambda>(name, v). pl_put T name (show_metric v)) metrics (PTree [] [])"

fun visit_if :: "(ptree \<Rightarrow> bool) \<Rightarrow> string \<Rightarrow> ptree \<Rightarrow> (string \<times> ptree) list"
  and visit_children :: "(ptree \<Rightarrow> bool) \<Rightarrow> string \<Rightarrow> (string \<times> ptree) list \<Rightarrow> (string \<times> ptree) list" where
  "visit_if p path (PTree d cs) = (if p (PTree d cs) then [(path, PTree d cs)] else []) @ visit_children p path cs"
| "visit_children p path [] = []"
| "visit_children p path ((key, child) # cs) =
     visit_if p (if path = [] then key else path @ ''.'' @ key) child @ visit_children p path cs"

definition is_leaf :: "ptree \<Rightarrow> bool" where
  "is_leaf t = (pt_children t = [])"

text \<open>The fields of an input or output, with the counter of the commas, a \<open>short\<close>.\<close>

fun leaf_fields :: "16 word \<Rightarrow> (string \<times> ptree) list \<Rightarrow> string" where
  "leaf_fields i [] = []"
| "leaf_fields i ((path, node) # r) =
     (if i \<noteq> 0 then '','' else []) @ map (\<lambda>c. if c = CHR ''.'' then CHR ''_'' else c) path
     @ ''='' @ pt_data node @ ''i'' @ leaf_fields (i + 1) r"

subsection \<open>The sections\<close>

definition metrics_at :: "(string \<times> 64 word) list \<Rightarrow> string \<Rightarrow> string outcome" where
  "metrics_at metrics name = (case map_of metrics name of None \<Rightarrow> Inl OutOfRange | Some v \<Rightarrow> Inr (show_metric v))"

definition time_text :: "int \<Rightarrow> string" where
  "time_text time = (if time < 0 then CHR ''-'' # to_string (nat (- time)) else to_string (nat time))"

definition endl :: string where "endl = [CHR 0x0A]"

definition process_section :: "string \<Rightarrow> int \<Rightarrow> (string \<times> 64 word) list \<Rightarrow> string outcome" where
  "process_section m time metrics =
     and_then (metrics_at metrics ''process.cpu_user_seconds_total'') (\<lambda>user.
     and_then (metrics_at metrics ''process.open_fds'') (\<lambda>fds.
     and_then (metrics_at metrics ''process.cpu_system_seconds_total'') (\<lambda>sys.
     and_then (metrics_at metrics ''process.resident_memory_bytes'') (\<lambda>rss.
     and_then (metrics_at metrics ''process.max_fds'') (\<lambda>maxfds.
     and_then (metrics_at metrics ''process.threads'') (\<lambda>threads.
     Inr (m @ ''_process '' @ ''cpu_user_seconds_total='' @ user @ ''i,open_fds='' @ fds
          @ ''i,cpu_system_seconds_total='' @ sys @ ''i,resident_memory_bytes='' @ rss
          @ ''i,max_fds='' @ maxfds @ ''i,threads='' @ threads @ ''i '' @ time_text time @ endl)))))))"

definition queue_section :: "string \<Rightarrow> string \<Rightarrow> string \<Rightarrow> int \<Rightarrow> (string \<times> 64 word) list \<Rightarrow> string outcome" where
  "queue_section suffix name m time metrics =
     and_then (metrics_at metrics name) (\<lambda>n.
       Inr (m @ suffix @ '' '' @ ''queue_length='' @ n @ ''i '' @ time_text time @ endl))"

fun processor_lines :: "string \<Rightarrow> int \<Rightarrow> (string \<times> 64 word) list \<Rightarrow> (string \<times> ptree) list \<Rightarrow> string outcome" where
  "processor_lines m time metrics [] = Inr []"
| "processor_lines m time metrics ((name, t) # r) =
     (if name \<noteq> ''queue'' then
        and_then (metrics_at metrics (''processor.'' @ name @ ''.heap_size'')) (\<lambda>n.
        and_then (processor_lines m time metrics r) (\<lambda>s.
          Inr (m @ ''_processor,processor='' @ name @ '' heap_size='' @ n @ ''i '' @ time_text time @ endl @ s)))
      else processor_lines m time metrics r)"

definition processor_section :: "pt_lib \<Rightarrow> string \<Rightarrow> int \<Rightarrow> (string \<times> 64 word) list \<Rightarrow> ptree \<Rightarrow> string outcome" where
  "processor_section T m time metrics tree =
     and_then (pl_get_child T ''processor'' tree) (\<lambda>t. processor_lines m time metrics (pt_children t))"

text \<open>The inputs and the outputs; one child is the counter of all of them.\<close>

definition leaf_line :: "string \<Rightarrow> string \<Rightarrow> string \<Rightarrow> int \<Rightarrow> string \<times> ptree \<Rightarrow> string" where
  "leaf_line suffix counter m time child =
     (if fst child \<noteq> counter then
        m @ suffix @ '',name='' @ fst child @ '' '' @ leaf_fields 0 (visit_if is_leaf [] (snd child))
        @ '' '' @ time_text time @ endl
      else [])"

definition inputs_section :: "pt_lib \<Rightarrow> string \<Rightarrow> int \<Rightarrow> ptree \<Rightarrow> string outcome" where
  "inputs_section T m time tree =
     and_then (pl_get_child T ''inputs'' tree) (\<lambda>t.
       Inr (concat (map (leaf_line ''_inputs'' ''receive_total'' m time) (pt_children t))))"

definition outputs_section :: "pt_lib \<Rightarrow> string \<Rightarrow> int \<Rightarrow> ptree \<Rightarrow> string outcome" where
  "outputs_section T m time tree =
     and_then (pl_get_child T ''outputs'' tree) (\<lambda>t.
       Inr (concat (map (leaf_line ''_outputs'' ''sent_total'' m time) (pt_children t))))"

text \<open>A section that asks for a metric that is not there is left out; any other exception escapes.\<close>

definition unless_missing :: "string outcome \<Rightarrow> string outcome" where
  "unless_missing r = (case r of Inl e \<Rightarrow> if catches OutOfRange e then Inr [] else Inl e | Inr s \<Rightarrow> Inr s)"

fun join_sections :: "string outcome list \<Rightarrow> string outcome" where
  "join_sections [] = Inr []"
| "join_sections (r # rs) = and_then (unless_missing r) (\<lambda>s. and_then (join_sections rs) (\<lambda>t. Inr (s @ t)))"

text \<open>\<open>metrics\<close> and \<open>metrics'\<close> are the two snapshots the function takes.\<close>

definition exportTelegraf :: "bool \<Rightarrow> pt_lib \<Rightarrow> string \<Rightarrow> int \<Rightarrow> (string \<times> 64 word) list \<Rightarrow> (string \<times> 64 word) list
    \<Rightarrow> string outcome" where
  "exportTelegraf with_processor T m time metrics metrics' =
     (let tree = getMetricsPtree T metrics'
      in join_sections
        ([process_section m time metrics]
         @ (if with_processor then [queue_section ''_processor'' ''processor.queue.length'' m time metrics,
              processor_section T m time metrics tree] else [])
         @ [queue_section ''_main_queue'' ''main_queue.length'' m time metrics,
            inputs_section T m time tree, outputs_section T m time tree]))"

subsection \<open>The sending loop\<close>

text \<open>
  One round: the export and, when it is not empty, a datagram. \<open>send\<close> is what the socket does;
  its system errors are caught, other exceptions and those of the export end the thread.
\<close>

definition telegraf_turn :: "string outcome \<Rightarrow> (string \<Rightarrow> exn_class option) \<Rightarrow> string list \<Rightarrow> string list outcome" where
  "telegraf_turn export send datagrams =
     and_then export (\<lambda>metrics.
       if metrics \<noteq> [] then
         (case send metrics of
            None \<Rightarrow> Inr (datagrams @ [metrics])
          | Some e \<Rightarrow> if catches SystemError e then Inr datagrams else Inl e)
       else Inr datagrams)"

text \<open>
  The thread of the server: the host is resolved once, before anything is sent; each element of
  \<open>rounds\<close> is an export and what the socket does, for as long as the server runs.
\<close>

fun telegraf_loop :: "(string outcome \<times> (string \<Rightarrow> exn_class option)) list \<Rightarrow> string list \<Rightarrow> string list outcome" where
  "telegraf_loop [] datagrams = Inr datagrams"
| "telegraf_loop ((export, send) # rounds) datagrams =
     and_then (telegraf_turn export send datagrams) (telegraf_loop rounds)"

definition telegraf_startImpl :: "'ep list outcome \<Rightarrow> ('ep \<Rightarrow> (string outcome \<times> (string \<Rightarrow> exn_class option)) list)
    \<Rightarrow> string list run_result" where
  "telegraf_startImpl resolved rounds =
     (case resolved of
        Inl e \<Rightarrow> Threw e
      | Inr [] \<Rightarrow> Aborted
      | Inr (endpoint # _) \<Rightarrow>
          (case telegraf_loop (rounds endpoint) [] of Inl e \<Rightarrow> Threw e | Inr ds \<Rightarrow> Returned ds))"

text \<open>While exports are made and only sending fails, each export is sent once or lost for good.\<close>

lemma telegraf_loop_sends:
  assumes "\<forall>(export, send) \<in> set rounds. \<exists>m. export = Inr m \<and> (send m = None \<or> send m = Some SystemError)"
  shows "telegraf_loop rounds datagrams = Inr (datagrams
    @ concat (map (\<lambda>(export, send). case export of Inl _ \<Rightarrow> []
        | Inr m \<Rightarrow> if m \<noteq> [] \<and> send m = None then [m] else []) rounds))"
  using assms by (induction rounds arbitrary: datagrams) (auto simp: telegraf_turn_def)

subsection \<open>The export servers\<close>

datatype export_server = TelegrafServer string string "16 word" "16 word" | HttpServer string "16 word"

definition required :: "'a option \<Rightarrow> 'a outcome" where
  "required r = (case r of None \<Rightarrow> Inl IqException | Some v \<Rightarrow> Inr v)"

definition instantiate_telegraf :: "'d json_lib \<Rightarrow> 'd stats_entry_config \<Rightarrow> export_server outcome" where
  "instantiate_telegraf L c =
     and_then (required (getParam (jl_get_string L) (se_params c) ''measurement'')) (\<lambda>measurement.
     and_then (required (getParam (jl_get_string L) (se_params c) ''host'')) (\<lambda>host.
     and_then (required (getParam (jl_get_ushort L) (se_params c) ''port'')) (\<lambda>port.
     and_then (required (getParam (jl_get_ushort L) (se_params c) ''interval'')) (\<lambda>interval.
     Inr (TelegrafServer measurement host port interval)))))"

definition instantiate_http :: "'d json_lib \<Rightarrow> 'd stats_entry_config \<Rightarrow> export_server outcome" where
  "instantiate_http L c =
     and_then (required (getParam (jl_get_string L) (se_params c) ''listen_host'')) (\<lambda>listen_host.
     and_then (required (getParam (jl_get_ushort L) (se_params c) ''listen_port'')) (\<lambda>listen_port.
     Inr (HttpServer listen_host listen_port)))"

definition instantiate_export :: "'d json_lib \<Rightarrow> 'd stats_entry_config \<Rightarrow> export_server outcome" where
  "instantiate_export L c =
     (case se_type c of
        ST_HTTP \<Rightarrow> instantiate_http L c
      | ST_TELEGRAF \<Rightarrow> instantiate_telegraf L c
      | _ \<Rightarrow> Inl IqException)"

subsection \<open>Properties\<close>

text \<open>
  What the sections ask the library for: a child is found by its key, or the search throws; putting
  a value at a dotted path adds the first key of the path to the keys of the tree.
\<close>

definition first_key :: "string \<Rightarrow> string" where
  "first_key path = takeWhile (\<lambda>c. c \<noteq> CHR ''.'') path"

definition keys :: "ptree \<Rightarrow> string set" where
  "keys t = fst ` set (pt_children t)"

definition pt_laws :: "pt_lib \<Rightarrow> bool" where
  "pt_laws T \<longleftrightarrow>
     (\<forall>k t. CHR ''.'' \<notin> set k \<longrightarrow> pl_get_child T k t =
        (case map_of (pt_children t) k of Some c \<Rightarrow> Inr c | None \<Rightarrow> Inl RuntimeError))
     \<and> (\<forall>path v t. keys (pl_put T path v t) = insert (first_key path) (keys t))"

lemma keys_getMetricsPtree:
  assumes "pt_laws T"
  shows "keys (getMetricsPtree T metrics) = first_key ` fst ` set metrics"
proof -
  have "keys (fold (\<lambda>(name, v). pl_put T name (show_metric v)) metrics t) = first_key ` fst ` set metrics \<union> keys t" for t
    using assms by (induction metrics arbitrary: t) (auto simp: pt_laws_def)
  then show ?thesis by (simp add: getMetricsPtree_def keys_def)
qed

lemma get_child_cases:
  assumes "pt_laws T" "CHR ''.'' \<notin> set k"
  shows "(\<exists>c. pl_get_child T k t = Inr c) \<and> k \<in> keys t \<or> pl_get_child T k t = Inl RuntimeError \<and> k \<notin> keys t"
proof (cases "map_of (pt_children t) k")
  case None
  then have "k \<notin> keys t" by (simp add: keys_def map_of_eq_None_iff)
  with None assms show ?thesis by (simp add: pt_laws_def)
next
  case (Some c)
  then have "k \<in> keys t" by (auto simp: keys_def dest: map_of_SomeD intro: rev_image_eqI)
  with Some assms show ?thesis by (simp add: pt_laws_def)
qed

text \<open>What a section can come to: some text, nothing, or the exception of a missing child.\<close>

definition harmless :: "string outcome \<Rightarrow> bool" where
  "harmless r \<longleftrightarrow> (\<forall>e. r = Inl e \<longrightarrow> e = OutOfRange)"

lemma unless_missing_harmless: "harmless r \<Longrightarrow> \<exists>s. unless_missing r = Inr s"
  by (cases r) (auto simp: harmless_def unless_missing_def)

lemma harmless_and_then: "harmless r \<Longrightarrow> (\<And>a. r = Inr a \<Longrightarrow> harmless (f a)) \<Longrightarrow> harmless (and_then r f)"
  by (cases r) (auto simp: harmless_def)

lemma harmless_at [simp]: "harmless (metrics_at metrics name)"
  by (auto simp: harmless_def metrics_at_def split: option.splits)

lemma harmless_Inr [simp]: "harmless (Inr s)"
  by (simp add: harmless_def)

lemma harmless_sections [simp]:
  "harmless (process_section m time metrics)" "harmless (queue_section suffix name m time metrics)"
  "harmless (processor_lines m time metrics cs)"
  unfolding process_section_def queue_section_def
    by (intro harmless_and_then harmless_at harmless_Inr)+
      (induction cs, auto intro!: harmless_and_then)

text \<open>A section over a subtree fails just when there is no such subtree.\<close>

definition needs :: "ptree \<Rightarrow> string \<Rightarrow> string outcome \<Rightarrow> bool" where
  "needs t k r \<longleftrightarrow> (if k \<in> keys t then harmless r else r = Inl RuntimeError)"

lemma needs_or: "needs t k r \<Longrightarrow> harmless r \<or> r = Inl RuntimeError"
  by (auto simp: needs_def split: if_splits)

lemma needs_missing: "needs t k r \<Longrightarrow> k \<notin> keys t \<Longrightarrow> r = Inl RuntimeError"
  by (simp add: needs_def)

lemma needs_sections:
  assumes "pt_laws T"
  shows "needs t ''processor'' (processor_section T m time metrics t)"
    "needs t ''inputs'' (inputs_section T m time t)" "needs t ''outputs'' (outputs_section T m time t)"
  using get_child_cases [OF assms, of "''processor''" t] get_child_cases [OF assms, of "''inputs''" t]
    get_child_cases [OF assms, of "''outputs''" t]
  by (auto simp: needs_def processor_section_def inputs_section_def outputs_section_def)

lemma join_harmless: "list_all harmless rs \<Longrightarrow> \<exists>s. join_sections rs = Inr s"
proof (induction rs)
  case (Cons r rs)
  then obtain t where "join_sections rs = Inr t" by auto
  with Cons.prems unless_missing_harmless [of r] show ?case by auto
qed simp

lemma join_missing:
  assumes "\<forall>r\<in>set rs. harmless r \<or> r = Inl RuntimeError" "Inl RuntimeError \<in> set rs"
  shows "join_sections rs = Inl RuntimeError"
  using assms
proof (induction rs)
  case (Cons r rs)
  show ?case
  proof (cases "r = Inl RuntimeError")
    case True
    then show ?thesis by (simp add: unless_missing_def)
  next
    case False
    with Cons.prems have "harmless r" "Inl RuntimeError \<in> set rs" "\<forall>r\<in>set rs. harmless r \<or> r = Inl RuntimeError" by auto
    with Cons.IH unless_missing_harmless [of r] show ?thesis by auto
  qed
qed simp

definition needed :: "bool \<Rightarrow> string set" where
  "needed with_processor = (if with_processor then {''processor''} else {}) \<union> {''inputs'', ''outputs''}"

text \<open>
  C34: the export succeeds exactly when the table has a metric of the inputs, one of the outputs and,
  in a build with the processor, one of the processor, as it has once these parts have been started; a
  single missing metric only leaves its line out. Otherwise it throws an exception that neither it
  nor the sending thread catches, and nothing is sent.
\<close>

theorem telegraf_export_needs_tables:
  assumes "pt_laws T"
  shows "if needed wp \<subseteq> first_key ` fst ` set metrics'
    then \<exists>s. exportTelegraf wp T m time metrics metrics' = Inr s
    else telegraf_turn (exportTelegraf wp T m time metrics metrics') send sent = Inl RuntimeError"
proof -
  let ?t = "getMetricsPtree T metrics'"
  note k = keys_getMetricsPtree [OF assms, of metrics'] and n = needs_sections(1) [OF assms, of ?t m time metrics]
    needs_sections(2,3) [OF assms, of ?t m time]
  show ?thesis
  proof (cases "needed wp \<subseteq> first_key ` fst ` set metrics'")
    case True
    with n have "harmless (inputs_section T m time ?t)" "harmless (outputs_section T m time ?t)"
      "wp \<Longrightarrow> harmless (processor_section T m time metrics ?t)"
      unfolding needs_def k needed_def by auto
    then have "\<exists>s. exportTelegraf wp T m time metrics metrics' = Inr s"
      unfolding exportTelegraf_def Let_def by (intro join_harmless) simp
    with True show ?thesis by simp
  next
    case False
    have "exportTelegraf wp T m time metrics metrics' = Inl RuntimeError"
      unfolding exportTelegraf_def Let_def
      using n [THEN needs_or] n [THEN needs_missing] False [folded k]
      by (intro join_missing) (auto simp: needed_def split: if_splits)
    with False show ?thesis by (simp add: telegraf_turn_def)
  qed
qed

text \<open>A property tree that splits the path at its dots.\<close>

fun at_key :: "(ptree \<Rightarrow> ptree) \<Rightarrow> string \<Rightarrow> (string \<times> ptree) list \<Rightarrow> (string \<times> ptree) list" where
  "at_key f k [] = [(k, f (PTree [] []))]"
| "at_key f k ((k', t) # cs) = (if k = k' then (k', f t) # cs else (k', t) # at_key f k cs)"

fun dotted :: "string \<Rightarrow> string list" where
  "dotted [] = [[]]"
| "dotted (c # cs) = (if c = CHR ''.'' then [] # dotted cs else (c # hd (dotted cs)) # tl (dotted cs))"

primrec put_keys :: "string list \<Rightarrow> string \<Rightarrow> ptree \<Rightarrow> ptree" where
  "put_keys [] v t = PTree v (pt_children t)"
| "put_keys (k # ks) v t = PTree (pt_data t) (at_key (put_keys ks v) k (pt_children t))"

definition demo_trees :: pt_lib where
  "demo_trees = \<lparr>pl_put = \<lambda>path. put_keys (dotted path),
     pl_get_child = \<lambda>k t. (case map_of (pt_children t) k of Some c \<Rightarrow> Inr c | None \<Rightarrow> Inl RuntimeError)\<rparr>"

lemma dotted_first: "dotted path = first_key path # tl (dotted path)"
proof (induction path)
  case (Cons c path)
  then have "hd (dotted path) = first_key path" by (metis list.sel(1))
  then show ?case by (simp add: first_key_def)
qed (simp add: first_key_def)

lemma fst_at_key: "fst ` set (at_key f k cs) = insert k (fst ` set cs)"
  by (induction f k cs rule: at_key.induct) (simp_all add: insert_commute)

lemma pt_laws_demo: "pt_laws demo_trees"
  unfolding pt_laws_def demo_trees_def keys_def
  by (subst (2) dotted_first) (simp add: fst_at_key)

lemma telegraf_export_needs_tables_witness:
  "telegraf_turn (exportTelegraf False demo_trees ''iq'' 5 [] []) (\<lambda>_. None) [] = Inl RuntimeError
   \<and> (\<exists>s. exportTelegraf False demo_trees ''iq'' 5 [] [(''inputs.a.received'', 3), (''outputs.b.sent'', 4)] = Inr s)"
  using telegraf_export_needs_tables [OF pt_laws_demo, of False "[]" "''iq''" 5 "[]" "\<lambda>_. None" "[]"]
    telegraf_export_needs_tables [OF pt_laws_demo, of False "[(''inputs.a.received'', 3), (''outputs.b.sent'', 4)]" "''iq''" 5 "[]"]
  by (simp add: needed_def first_key_def)

text \<open>The leaves of a tree, each with the keys on its path.\<close>

fun leaves :: "ptree \<Rightarrow> (string list \<times> string) list"
  and leaves_below :: "(string \<times> ptree) list \<Rightarrow> (string list \<times> string) list" where
  "leaves (PTree d cs) = (if cs = [] then [([], d)] else leaves_below cs)"
| "leaves_below [] = []"
| "leaves_below ((k, t) # cs) = map (\<lambda>(ks, d). (k # ks, d)) (leaves t) @ leaves_below cs"

fun named :: "ptree \<Rightarrow> bool" and named_below :: "(string \<times> ptree) list \<Rightarrow> bool" where
  "named (PTree d cs) = named_below cs"
| "named_below [] = True"
| "named_below ((k, t) # cs) = (k \<noteq> [] \<and> CHR ''.'' \<notin> set k \<and> named t \<and> named_below cs)"

fun join_with :: "string \<Rightarrow> string list \<Rightarrow> string" where
  "join_with sep [] = []"
| "join_with sep [x] = x"
| "join_with sep (x # y # r) = x @ sep @ join_with sep (y # r)"

definition below :: "string \<Rightarrow> string list \<Rightarrow> string" where
  "below path ks = (if path = [] then join_with ''.'' ks else join_with ''.'' (path # ks))"

definition leaf_of :: "string \<Rightarrow> string list \<times> string \<Rightarrow> string \<times> ptree" where
  "leaf_of path l = (below path (fst l), PTree (snd l) [])"

lemma below_Cons: "k \<noteq> [] \<Longrightarrow> below path (k # ks) = below (if path = [] then k else path @ ''.'' @ k) ks"
  by (cases ks) (simp_all add: below_def)

lemma visit_leaves:
  "named t \<Longrightarrow> visit_if is_leaf path t = map (leaf_of path) (leaves t)"
  "named_below cs \<Longrightarrow> visit_children is_leaf path cs = map (leaf_of path) (leaves_below cs)"
proof (induction t and cs arbitrary: path and path rule: leaves_leaves_below.induct)
  case (1 d cs)
  then show ?case by (cases cs) (auto simp: is_leaf_def leaf_of_def below_def)
next
  case (3 k t cs)
  then show ?case by (auto simp: leaf_of_def below_Cons)
qed simp

definition leaf_field :: "string list \<times> string \<Rightarrow> string" where
  "leaf_field l = join_with ''_'' (fst l) @ ''='' @ snd l @ ''i''"

lemma undotted: "CHR ''.'' \<notin> set k \<Longrightarrow> map (\<lambda>c. if c = CHR ''.'' then CHR ''_'' else c) k = k"
  by (rule map_idI) auto

lemma underscores:
  "list_all (\<lambda>k. CHR ''.'' \<notin> set k) ks \<Longrightarrow>
   map (\<lambda>c. if c = CHR ''.'' then CHR ''_'' else c) (join_with ''.'' ks) = join_with ''_'' ks"
proof (induction ks rule: induct_list012)
  case (3 x y zs)
  then show ?case by (simp add: undotted)
qed (simp_all add: undotted)

lemma leaves_dotless:
  "named t \<Longrightarrow> l \<in> set (leaves t) \<Longrightarrow> list_all (\<lambda>k. CHR ''.'' \<notin> set k) (fst l)"
  "named_below cs \<Longrightarrow> l \<in> set (leaves_below cs) \<Longrightarrow> list_all (\<lambda>k. CHR ''.'' \<notin> set k) (fst l)"
  by (induction t and cs arbitrary: l and l rule: leaves_leaves_below.induct) (auto split: if_splits)

text \<open>The counter of the commas is a \<open>short\<close>: it is zero again after 65,536 fields.\<close>

lemma leaf_fields_from:
  "\<forall>l\<in>set ls. list_all (\<lambda>k. CHR ''.'' \<notin> set k) (fst l) \<Longrightarrow> unat i + length ls \<le> 65536 \<Longrightarrow>
   leaf_fields i (map (leaf_of []) ls) =
     (if i \<noteq> 0 \<and> ls \<noteq> [] then '','' else []) @ join_with '','' (map leaf_field ls)"
proof (induction ls arbitrary: i)
  case (Cons l ls)
  show ?case
  proof (cases ls)
    case Nil
    with Cons.prems(1) show ?thesis by (simp add: leaf_of_def below_def underscores leaf_field_def)
  next
    case (Cons l' ls')
    have u: "unat (i + 1) = Suc (unat i)"
      using Cons.prems(2) Cons by (simp add: unat_word_ariths)
    then have n: "i + 1 \<noteq> 0" by (metis nat.distinct(1) unat_0)
    from u Cons.prems(2) have "unat (i + 1) + length ls \<le> 65536" by simp
    from Cons.IH [OF _ this] Cons.prems(1) n Cons show ?thesis
      by (simp add: leaf_of_def below_def underscores leaf_field_def)
  qed
qed simp


text \<open>
  The line of an input (and likewise of an output) has its name as tag and, separated by commas,
  one field for each leaf of its subtree, in order: the keys on the path to the leaf joined by
  underscores, and its value marked as an integer; up to 65,536 fields no comma is missing.
\<close>

theorem telegraf_leaf_line:
  assumes "named t" "length (leaves t) \<le> 65536" "name \<noteq> counter"
  shows "leaf_line suffix counter m time (name, t) =
     m @ suffix @ '',name='' @ name @ '' '' @ join_with '','' (map leaf_field (leaves t)) @ '' '' @ time_text time @ endl"
  using leaf_fields_from [of "leaves t" 0] leaves_dotless(1) [OF assms(1)] visit_leaves(1) [OF assms(1)] assms(2,3)
  by (simp add: leaf_line_def)

lemma telegraf_leaf_line_witness:
  "leaf_line ''_inputs'' ''receive_total'' ''iq'' 5
     (''a'', PTree [] [(''q'', PTree [] [(''length'', PTree ''3'' [])]), (''received'', PTree ''7'' [])])
   = ''iq_inputs,name=a q_length=3i,received=7i 5'' @ endl"
proof -
  have d: "to_string 5 = ''5''" by code_simp
  show ?thesis by (subst telegraf_leaf_line) (simp_all add: leaf_field_def time_text_def d)
qed

end
