(* ===== verification/IQ_Server.thy ===== *)
theory IQ_Server
  imports IQ_Task IQ_Output_Send IQ_Telegraf
begin

text \<open>
  Start and stop of the program: the order in which its parts are initialised, started and stopped
  (src/IQLogger.cpp), what the input and the output server do with their members
  (src/InputServer.cpp, src/OutputServer.cpp), the metrics controller with its export servers
  (src/metrics/MetricsController.cpp), and the exit code (src/main.cpp). A part is a task
  (src/core/TaskInterface.h); its hooks may throw.
\<close>

subsection \<open>A server over its members\<close>

fun for_each :: "('a \<Rightarrow> 'a \<times> exn_class option) \<Rightarrow> 'a list \<Rightarrow> 'a list \<times> exn_class option" where
  "for_each f [] = ([], None)"
| "for_each f (x # xs) =
     (case f x of
        (x', Some e) \<Rightarrow> (x' # xs, Some e)
      | (x', None) \<Rightarrow> (case for_each f xs of (xs', e) \<Rightarrow> (x' # xs', e)))"

text \<open>
  The members, the modules of the inputs, and how many threads run. The loops over the inputs reach
  the module of an input by its index.
\<close>

record ('s, 'm) member_server =
  ms_members :: "'s task list"
  ms_modules :: "'m module_obj list"
  ms_module_of :: "nat list"
  ms_thread_num :: nat
  ms_threads :: nat

fun each_module :: "('m module_obj \<Rightarrow> 'm module_obj \<times> exn_class option) \<Rightarrow> nat list \<Rightarrow> 'm module_obj list
    \<Rightarrow> 'm module_obj list \<times> exn_class option" where
  "each_module f [] ms = (ms, None)"
| "each_module f (i # is) ms =
     (case f (ms ! i) of
        (m', Some e) \<Rightarrow> (ms[i := m'], Some e)
      | (m', None) \<Rightarrow> each_module f is (ms[i := m']))"

definition with_members :: "('s, 'm) member_server \<Rightarrow> 's task list \<times> exn_class option
    \<Rightarrow> (('s, 'm) member_server \<Rightarrow> ('s, 'm) member_server \<times> exn_class option)
    \<Rightarrow> ('s, 'm) member_server \<times> exn_class option" where
  "with_members s r continue =
     (case r of
        (ts, Some e) \<Rightarrow> (s\<lparr>ms_members := ts\<rparr>, Some e)
      | (ts, None) \<Rightarrow> continue (s\<lparr>ms_members := ts\<rparr>))"

definition with_modules :: "('s, 'm) member_server \<Rightarrow> 'm module_obj list \<times> exn_class option
    \<Rightarrow> (('s, 'm) member_server \<Rightarrow> ('s, 'm) member_server \<times> exn_class option)
    \<Rightarrow> ('s, 'm) member_server \<times> exn_class option" where
  "with_modules s r continue =
     (case r of
        (ms, Some e) \<Rightarrow> (s\<lparr>ms_modules := ms\<rparr>, Some e)
      | (ms, None) \<Rightarrow> continue (s\<lparr>ms_modules := ms\<rparr>))"

definition output_server_hook :: "(task_op \<Rightarrow> 's impl_fun) \<Rightarrow> task_op \<Rightarrow> ('s, 'm) member_server
    \<Rightarrow> ('s, 'm) member_server \<times> exn_class option" where
  "output_server_hook h op s =
     (case op of
        OpInit \<Rightarrow> with_members s (for_each (task_init (h OpInit)) (ms_members s)) (\<lambda>s. (s, None))
      | OpStart \<Rightarrow> with_members s (for_each (task_start (h OpStart)) (ms_members s))
          (\<lambda>s. (s\<lparr>ms_threads := ms_thread_num s\<rparr>, None))
      | OpStop \<Rightarrow> with_members s (for_each (task_stop (h OpStop)) (ms_members s)) (\<lambda>s. (s\<lparr>ms_threads := 0\<rparr>, None)))"

definition input_server_hook :: "(task_op \<Rightarrow> 's impl_fun) \<Rightarrow> 'm mod_hook \<Rightarrow> 'm mod_hook \<Rightarrow> task_op
    \<Rightarrow> ('s, 'm) member_server \<Rightarrow> ('s, 'm) member_server \<times> exn_class option" where
  "input_server_hook h mod_start mod_stop op s =
     (case op of
        OpInit \<Rightarrow> with_members s (for_each (task_init (h OpInit)) (ms_members s)) (\<lambda>s. (s, None))
      | OpStart \<Rightarrow>
          with_modules s (each_module (module_start mod_start) (ms_module_of s) (ms_modules s)) (\<lambda>s.
          with_members s (for_each (task_start (h OpStart)) (ms_members s)) (\<lambda>s.
            (s\<lparr>ms_threads := ms_thread_num s\<rparr>, None)))
      | OpStop \<Rightarrow>
          with_members s (for_each (task_stop (h OpStop)) (ms_members s)) (\<lambda>s.
          with_modules s (each_module (module_stop mod_stop) (ms_module_of s) (ms_modules s)) (\<lambda>s.
            (s\<lparr>ms_threads := 0\<rparr>, None))))"

subsection \<open>The metrics controller\<close>

text \<open>
  The export servers are started by threads of their own, so a stop can come before such a thread has
  run; \<open>mc_threads\<close> counts the threads that have not been joined.
\<close>

record ('s, 'e) metrics_controller =
  mc_table :: "'s metrics_table"
  mc_exports :: "'e task list"
  mc_threads :: nat

definition MetricsController :: "'d json_lib \<Rightarrow> 'd stats_entry_config list \<Rightarrow> ('s, export_server) metrics_controller outcome" where
  "MetricsController L exportConfigs =
     and_then (outcome_map (instantiate_export L) exportConfigs) (\<lambda>servers.
       Inr \<lparr>mc_table = MetricsTableInternal, mc_exports = map new_task servers, mc_threads = 0\<rparr>)"

definition controller_initImpl :: "(task_op \<Rightarrow> 'e impl_fun) \<Rightarrow> ('s, 'e) metrics_controller
    \<Rightarrow> ('s, 'e) metrics_controller \<times> exn_class option" where
  "controller_initImpl h c =
     (case for_each (task_init (h OpInit)) (mc_exports c) of (es, e) \<Rightarrow> (c\<lparr>mc_exports := es\<rparr>, e))"

definition controller_startImpl :: "('s \<Rightarrow> proc_env) \<Rightarrow> ('s, 'e) metrics_controller \<Rightarrow> ('s, 'e) metrics_controller" where
  "controller_startImpl P c =
     c\<lparr>mc_table := fst (registerInternalMetrics P (mc_table c)), mc_threads := Suc (length (mc_exports c))\<rparr>"

definition export_thread :: "(task_op \<Rightarrow> 'e impl_fun) \<Rightarrow> nat \<Rightarrow> ('s, 'e) metrics_controller
    \<Rightarrow> ('s, 'e) metrics_controller \<times> exn_class option" where
  "export_thread h i c =
     (case task_start (h OpStart) (mc_exports c ! i) of (t, e) \<Rightarrow> (c\<lparr>mc_exports := (mc_exports c)[i := t]\<rparr>, e))"

definition controller_stopImpl :: "(task_op \<Rightarrow> 'e impl_fun) \<Rightarrow> ('s, 'e) metrics_controller
    \<Rightarrow> ('s, 'e) metrics_controller \<times> exn_class option" where
  "controller_stopImpl h c =
     (case for_each (task_stop (h OpStop)) (mc_exports c) of
        (es, Some e) \<Rightarrow> (c\<lparr>mc_exports := es\<rparr>, Some e)
      | (es, None) \<Rightarrow> (c\<lparr>mc_exports := es, mc_threads := 0\<rparr>, None))"

subsection \<open>The program\<close>

datatype part = P_processor | P_inputs | P_outputs | P_metrics

type_synonym 's world = "part \<Rightarrow> 's task"
type_synonym 's part_hooks = "part \<Rightarrow> task_op \<Rightarrow> 's \<Rightarrow> 's \<times> exn_class option"

fun run_ops :: "'s part_hooks \<Rightarrow> (part \<times> task_op) list \<Rightarrow> 's world \<Rightarrow> 's world \<times> exn_class option" where
  "run_ops h [] w = (w, None)"
| "run_ops h ((p, op) # plan) w =
     (case task_step (h p) op (w p) of
        (t, Some e) \<Rightarrow> (w(p := t), Some e)
      | (t, None) \<Rightarrow> run_ops h plan (w(p := t)))"

definition start_plan :: "bool \<Rightarrow> (part \<times> task_op) list" where
  "start_plan with_processor =
     (if with_processor then [(P_processor, OpInit), (P_processor, OpStart)] else [])
     @ [(P_inputs, OpInit), (P_inputs, OpStart), (P_outputs, OpInit), (P_outputs, OpStart),
        (P_metrics, OpInit), (P_metrics, OpStart)]"

definition stop_plan :: "bool \<Rightarrow> (part \<times> task_op) list" where
  "stop_plan with_processor =
     [(P_metrics, OpStop), (P_inputs, OpStop), (P_outputs, OpStop)]
     @ (if with_processor then [(P_processor, OpStop)] else [])"

definition IQLogger_stopImpl :: "'s part_hooks \<Rightarrow> bool \<Rightarrow> 's world impl_fun" where
  "IQLogger_stopImpl h wp = plain_hook (run_ops h (stop_plan wp))"

text \<open>
  After the start the main loop waits for a signal, whose handler stops the program; without one it
  has not returned (\<open>None\<close>).
\<close>

definition IQLogger_startImpl :: "'s part_hooks \<Rightarrow> bool \<Rightarrow> bool \<Rightarrow> 's world task
    \<Rightarrow> ('s world task \<times> exn_class option) option" where
  "IQLogger_startImpl h wp signal t =
     (case run_ops h (start_plan wp) (impl t) of
        (w, Some e) \<Rightarrow> Some (t\<lparr>impl := w\<rparr>, Some e)
      | (w, None) \<Rightarrow>
          (if signal then Some (task_stop (IQLogger_stopImpl h wp) (t\<lparr>impl := w\<rparr>)) else None))"

text \<open>\<open>init\<close> and \<open>start\<close> of the program, as \<open>main\<close> calls them.\<close>

definition IQLogger_run :: "'s part_hooks \<Rightarrow> bool \<Rightarrow> bool \<Rightarrow> 's world \<Rightarrow> ('s world task \<times> exn_class option) option" where
  "IQLogger_run h wp signal w =
     (case task_init (\<lambda>t. (t, None)) (new_task w) of
        (t, Some e) \<Rightarrow> Some (t, Some e)
      | (t, None) \<Rightarrow>
          (case task_start (\<lambda>t. (t, None)) t of
             (t, Some e) \<Rightarrow> Some (t, Some e)
           | (t, None) \<Rightarrow> IQLogger_startImpl h wp signal t))"

record command_line =
  cl_error :: "exn_class option"
  cl_help :: bool
  cl_version :: bool
  cl_config :: "string option"
  cl_check :: bool

definition main_exit :: "command_line \<Rightarrow> (string \<Rightarrow> bool \<Rightarrow> bool outcome) \<Rightarrow> ('w \<times> exn_class option) option
    \<Rightarrow> nat option" where
  "main_exit cl load run =
     (if cl_error cl \<noteq> None then Some 1
      else if cl_help cl then Some 1
      else if cl_version cl then Some 0
      else
        (case cl_config cl of
           None \<Rightarrow> Some 1
         | Some file \<Rightarrow>
             (case load file (cl_check cl) of
                Inl e \<Rightarrow> Some 1
              | Inr False \<Rightarrow> Some 1
              | Inr True \<Rightarrow>
                  (if cl_check cl then Some 0
                   else (case run of
                           None \<Rightarrow> None
                         | Some (t, Some e) \<Rightarrow> Some 1
                         | Some (t, None) \<Rightarrow> Some 0)))))"

subsection \<open>Properties\<close>

definition quiet :: "'s part_hooks \<Rightarrow> bool" where
  "quiet h \<longleftrightarrow> (\<forall>p op s. snd (h p op s) = None)"

definition fresh :: "'s world \<Rightarrow> bool" where
  "fresh w \<longleftrightarrow> (\<forall>p. \<not> m_inited (w p) \<and> \<not> m_started (w p))"

text \<open>What one operation of a part does to the flags, and when it throws.\<close>

definition allowed :: "task_op \<Rightarrow> 's task \<Rightarrow> bool" where
  "allowed op t =
     (case op of OpInit \<Rightarrow> \<not> m_inited t | OpStart \<Rightarrow> \<not> m_started t \<and> m_inited t | OpStop \<Rightarrow> m_started t)"

definition after :: "task_op \<Rightarrow> bool \<times> bool \<Rightarrow> bool \<times> bool" where
  "after op fl = (fst fl \<or> op = OpInit, op = OpStart \<or> snd fl \<and> op \<noteq> OpStop)"

definition flags :: "'s task \<Rightarrow> bool \<times> bool" where
  "flags t = (m_inited t, m_started t)"

lemma task_step_allowed:
  assumes "snd (f op (impl t)) = None" "task_step f op t = (t', e)" "allowed op t"
  shows "e = None"
proof -
  obtain s where "f op (impl t) = (s, None)" using assms(1) by (metis prod.collapse)
  with assms(2,3) show ?thesis
    by (cases op) (auto simp: task_step_def task_init_def task_start_def task_stop_def plain_hook_def allowed_def Let_def)
qed

lemma task_step_flags': "task_step f op t = (t', e) \<Longrightarrow> flags t' = after op (flags t)"
  using task_step_flags [of f op t t' e] by (simp add: flags_def after_def)

text \<open>A plan over the flags alone.\<close>

fun plan_flags :: "(part \<times> task_op) list \<Rightarrow> (part \<Rightarrow> bool \<times> bool) \<Rightarrow> (part \<Rightarrow> bool \<times> bool)" where
  "plan_flags [] fl = fl"
| "plan_flags ((p, op) # plan) fl = plan_flags plan (fl(p := after op (fl p)))"

fun plan_allowed :: "(part \<times> task_op) list \<Rightarrow> (part \<Rightarrow> bool \<times> bool) \<Rightarrow> bool" where
  "plan_allowed [] fl = True"
| "plan_allowed ((p, op) # plan) fl =
     ((case op of OpInit \<Rightarrow> \<not> fst (fl p) | OpStart \<Rightarrow> \<not> snd (fl p) \<and> fst (fl p) | OpStop \<Rightarrow> snd (fl p))
      \<and> plan_allowed plan (fl(p := after op (fl p))))"

lemma run_ops_flags:
  "quiet h \<Longrightarrow> plan_allowed plan (\<lambda>p. flags (w p)) \<Longrightarrow>
   \<exists>w'. run_ops h plan w = (w', None) \<and> (\<lambda>p. flags (w' p)) = plan_flags plan (\<lambda>p. flags (w p))"
proof (induction plan arbitrary: w)
  case (Cons c plan)
  obtain p op where c: "c = (p, op)" by fastforce
  obtain t e where t: "task_step (h p) op (w p) = (t, e)" by fastforce
  have "allowed op (w p)" using Cons.prems(2) c by (cases op) (auto simp: allowed_def flags_def)
  then have e: "e = None" using task_step_allowed [OF _ t] Cons.prems(1) by (simp add: quiet_def)
  have f: "(\<lambda>q. flags ((w(p := t)) q)) = (\<lambda>q. flags (w q))(p := after op (flags (w p)))"
    using task_step_flags' [OF t] by auto
  have "plan_allowed plan (\<lambda>q. flags ((w(p := t)) q))" using Cons.prems(2) c unfolding f by simp
  from Cons.IH [OF Cons.prems(1) this] t e c show ?case unfolding f by (simp del: fun_upd_apply)
qed simp

lemma start_then_stop:
  assumes "quiet h" "fresh w"
  obtains w1 w2 where "run_ops h (start_plan wp) w = (w1, None)" "run_ops h (stop_plan wp) w1 = (w2, None)"
    "\<And>p. m_started (w1 p) = (p \<noteq> P_processor \<or> wp)" "\<And>p. \<not> m_started (w2 p)"
    "\<And>p. m_inited (w2 p) = (p \<noteq> P_processor \<or> wp)"
proof -
  have fl: "(\<lambda>p. flags (w p)) = (\<lambda>_. (False, False))" using assms(2) by (auto simp: fresh_def flags_def)
  have "plan_allowed (start_plan wp) (\<lambda>p. flags (w p))"
    unfolding fl by (simp add: start_plan_def after_def)
  from run_ops_flags [OF assms(1) this] obtain w1 where w1: "run_ops h (start_plan wp) w = (w1, None)"
      "(\<lambda>p. flags (w1 p)) = plan_flags (start_plan wp) (\<lambda>_. (False, False))" unfolding fl by blast
  then have f1: "flags (w1 p) = (p \<noteq> P_processor \<or> wp, p \<noteq> P_processor \<or> wp)" for p
    by (cases p) (auto simp: start_plan_def after_def dest!: fun_cong [of _ _ p])
  then have fl1: "(\<lambda>p. flags (w1 p)) = (\<lambda>p. (p \<noteq> P_processor \<or> wp, p \<noteq> P_processor \<or> wp))" by auto
  have "plan_allowed (stop_plan wp) (\<lambda>p. flags (w1 p))"
    unfolding fl1 by (simp add: stop_plan_def after_def)
  from run_ops_flags [OF assms(1) this] obtain w2 where w2: "run_ops h (stop_plan wp) w1 = (w2, None)"
      "(\<lambda>p. flags (w2 p)) = plan_flags (stop_plan wp) (\<lambda>p. (p \<noteq> P_processor \<or> wp, p \<noteq> P_processor \<or> wp))"
    unfolding fl1 by blast
  then have f2: "flags (w2 p) = (p \<noteq> P_processor \<or> wp, False)" for p
    by (cases p) (auto simp: stop_plan_def after_def dest!: fun_cong [of _ _ p])
  show ?thesis using that [OF w1(1) w2(1)] f1 f2 by (simp add: flags_def)
qed


lemma run_ops_append:
  "run_ops h (xs @ ys) w = (case run_ops h xs w of (w', None) \<Rightarrow> run_ops h ys w' | r \<Rightarrow> r)"
  by (induction xs arbitrary: w) (auto split: prod.splits option.splits)

lemma run_ops_started:
  "run_ops h plan w = (w', e) \<Longrightarrow> (\<forall>p. (p, OpStop) \<notin> set plan) \<Longrightarrow> e = None \<and> (q, OpStart) \<in> set plan \<or> m_started (w q) \<Longrightarrow>
   m_started (w' q)"
proof (induction plan arbitrary: w)
  case (Cons c plan)
  obtain p op where c: "c = (p, op)" by fastforce
  obtain t x where t: "task_step (h p) op (w p) = (t, x)" by fastforce
  have op: "op \<noteq> OpStop" "\<forall>p. (p, OpStop) \<notin> set plan" using Cons.prems(2) c by auto
  have st: "m_started t = (op = OpStart \<or> m_started (w p))" using task_step_flags(2) [OF t] op(1) by simp
  show ?case
  proof (cases x)
    case None
    with Cons.prems(1) c t have r: "run_ops h plan (w(p := t)) = (w', e)" by simp
    have "e = None \<and> (q, OpStart) \<in> set plan \<or> m_started ((w(p := t)) q)"
      using Cons.prems(3) c st by auto
    from Cons.IH [OF r op(2) this] show ?thesis .
  next
    case (Some y)
    with Cons.prems(1) c t have r: "w' = w(p := t)" "e = Some y" by simp_all
    with Cons.prems(3) have "m_started (w q)" by simp
    with r st show ?thesis by auto
  qed
qed simp

lemma run_ops_untouched: "run_ops h plan w = (w', e) \<Longrightarrow> q \<notin> fst ` set plan \<Longrightarrow> w' q = w q"
  by (induction plan arbitrary: w) (auto split: prod.splits option.splits)

text \<open>
  When an operation of the start throws, nothing is stopped: every part started so far goes on
  running, the parts behind it are not touched, and \<open>main\<close> returns 1.
\<close>

theorem program_failed_start:
  assumes "start_plan wp = before @ (p, op) # rest" "run_ops h before w = (w1, None)"
    and "task_step (h p) op (w1 p) = (t1, Some e)"
  shows "\<exists>t. IQLogger_run h wp signal w = Some (t, Some e)
    \<and> (\<forall>q. (q, OpStart) \<in> set before \<longrightarrow> m_started (impl t q))
    \<and> (\<forall>q. q \<notin> fst ` set (before @ [(p, op)]) \<longrightarrow> impl t q = w q)
    \<and> (\<forall>file. main_exit \<lparr>cl_error = None, cl_help = False, cl_version = False, cl_config = Some file, cl_check = False\<rparr>
          (\<lambda>_ _. Inr True) (IQLogger_run h wp signal w) = Some 1)"
proof -
  let ?w = "w1(p := t1)"
  have f: "run_ops h (start_plan wp) w = (?w, Some e)"
    unfolding assms(1) run_ops_append using assms(2,3) by simp
  have b: "run_ops h (before @ [(p, op)]) w = (?w, Some e)"
    unfolding run_ops_append using assms(2,3) by simp
  have n: "\<forall>q. (q, OpStop) \<notin> set (before @ [(p, op)])"
  proof -
    have "(q, OpStop) \<notin> set (start_plan wp)" for q by (simp add: start_plan_def)
    then show ?thesis unfolding assms(1) by auto
  qed
  have "m_started (?w q)" if "(q, OpStart) \<in> set before" for q
  proof -
    have s: "m_started (w1 q)" using run_ops_started [OF assms(2)] n that by auto
    have "op \<noteq> OpStop" using n by auto
    then have "m_started (w1 p) \<Longrightarrow> m_started t1" using task_step_flags(2) [OF assms(3)] by simp
    with s show ?thesis by auto
  qed
  moreover have "?w q = w q" if "q \<notin> fst ` set (before @ [(p, op)])" for q
    using run_ops_untouched [OF b that] .
  moreover have "IQLogger_run h wp signal w = Some (\<lparr>m_inited = True, m_started = True, impl = ?w\<rparr>, Some e)"
    using f by (simp add: IQLogger_run_def task_init_def new_task_def task_start_def IQLogger_startImpl_def)
  ultimately show ?thesis by (simp add: main_exit_def)
qed

text \<open>The hooks of a program that counts its hooks, and one whose outputs cannot be started.\<close>

definition count_hooks :: "nat part_hooks" where
  "count_hooks p op n = (Suc n, None)"

definition bad_output_hooks :: "nat part_hooks" where
  "bad_output_hooks p op n = (Suc n, if p = P_outputs \<and> op = OpStart then Some ConfigException else None)"

definition run_line :: command_line where
  "run_line = \<lparr>cl_error = None, cl_help = False, cl_version = False, cl_config = Some ''c'', cl_check = False\<rparr>"


lemma program_failed_start_witness:
  "\<exists>t. IQLogger_run bad_output_hooks False True (\<lambda>_. new_task 0) = Some (t, Some ConfigException)
    \<and> m_started (impl t P_inputs)"
proof -
  let ?t = "\<lparr>m_inited = True, m_started = True, impl = 2\<rparr> :: nat task"
  let ?o = "\<lparr>m_inited = True, m_started = False, impl = 1\<rparr> :: nat task"
  have b: "run_ops bad_output_hooks [(P_inputs, OpInit), (P_inputs, OpStart), (P_outputs, OpInit)] (\<lambda>_. new_task 0)
      = ((\<lambda>_. new_task 0)(P_inputs := ?t, P_outputs := ?o), None)"
    by (simp add: task_step_def task_init_def task_start_def plain_hook_def bad_output_hooks_def new_task_def
        numeral_2_eq_2 fun_eq_iff)
  have "task_step (bad_output_hooks P_outputs) OpStart (((\<lambda>_. new_task 0)(P_inputs := ?t, P_outputs := ?o)) P_outputs)
      = (\<lparr>m_inited = True, m_started = True, impl = 2\<rparr>, Some ConfigException)"
    by (simp add: task_step_def task_start_def plain_hook_def bad_output_hooks_def)
  from program_failed_start [OF _ b this, of False "[(P_metrics, OpInit), (P_metrics, OpStart)]" True]
  show ?thesis by (auto simp: start_plan_def)
qed

text \<open>
  When the stop of a part throws, so does the stop of the program: the parts that come later in
  the order go on running, and \<open>main\<close> returns 1.
\<close>

theorem program_failed_stop:
  assumes "run_ops h (start_plan wp) w = (w1, None)" "stop_plan wp = before @ (p, OpStop) # rest"
    and "run_ops h before w1 = (w2, None)" "task_step (h p) OpStop (w2 p) = (t2, Some e)"
  shows "\<exists>t. IQLogger_run h wp True w = Some (t, Some e)
    \<and> (\<forall>q. (q, OpStop) \<in> set rest \<longrightarrow> m_started (impl t q))
    \<and> (\<forall>file. main_exit \<lparr>cl_error = None, cl_help = False, cl_version = False, cl_config = Some file, cl_check = False\<rparr>
          (\<lambda>_ _. Inr True) (IQLogger_run h wp True w) = Some 1)"
proof -
  let ?w = "w2(p := t2)"
  have f: "run_ops h (stop_plan wp) w1 = (?w, Some e)"
    unfolding assms(2) run_ops_append using assms(3,4) by simp
  have d: "distinct (map fst (stop_plan wp))" by (simp add: stop_plan_def)
  have st: "(q, OpStart) \<in> set (start_plan wp)" if "(q, OpStop) \<in> set (stop_plan wp)" for q
    using that by (cases q) (auto simp: stop_plan_def start_plan_def split: if_splits)
  have ns: "\<forall>q. (q, OpStop) \<notin> set (start_plan wp)" by (simp add: start_plan_def)
  have "m_started (?w q)" if q: "(q, OpStop) \<in> set rest" for q
  proof -
    have "m_started (w1 q)" using run_ops_started [OF assms(1) ns] st [of q] q assms(2) by simp
    moreover have "q \<notin> fst ` set before" "q \<noteq> p" using d q unfolding assms(2) by force+
    ultimately show ?thesis using run_ops_untouched [OF assms(3)] by simp
  qed
  moreover have "IQLogger_run h wp True w = Some (\<lparr>m_inited = True, m_started = False, impl = ?w\<rparr>, Some e)"
    using f assms(1) by (simp add: IQLogger_run_def task_init_def new_task_def task_start_def IQLogger_startImpl_def
        task_stop_def IQLogger_stopImpl_def plain_hook_def)
  ultimately show ?thesis by (simp add: main_exit_def)
qed

definition bad_metrics_hooks :: "nat part_hooks" where
  "bad_metrics_hooks p op n = (Suc n, if p = P_metrics \<and> op = OpStop then Some LogicError else None)"

lemma program_failed_stop_witness:
  "\<exists>t. IQLogger_run bad_metrics_hooks False True (\<lambda>_. new_task 0) = Some (t, Some LogicError)
    \<and> m_started (impl t P_inputs) \<and> m_started (impl t P_outputs)"
proof -
  let ?t = "\<lparr>m_inited = True, m_started = True, impl = 2\<rparr> :: nat task"
  let ?w = "(\<lambda>_. new_task 0)(P_inputs := ?t, P_outputs := ?t, P_metrics := ?t)"
  have s: "run_ops bad_metrics_hooks (start_plan False) (\<lambda>_. new_task 0) = (?w, None)"
    by (simp add: start_plan_def task_step_def task_init_def task_start_def plain_hook_def bad_metrics_hooks_def
        new_task_def numeral_2_eq_2 fun_eq_iff)
  have p: "stop_plan False = [] @ (P_metrics, OpStop) # [(P_inputs, OpStop), (P_outputs, OpStop)]"
    by (simp add: stop_plan_def)
  have m: "task_step (bad_metrics_hooks P_metrics) OpStop (?w P_metrics)
      = (\<lparr>m_inited = True, m_started = False, impl = Suc 2\<rparr>, Some LogicError)"
    by (simp add: task_step_def task_stop_def plain_hook_def bad_metrics_hooks_def)
  have r: "run_ops bad_metrics_hooks [] ?w = (?w, None)" by simp
  show ?thesis using program_failed_stop [OF s p r m] by auto
qed

text \<open>The stop of the export servers, when their own hooks do not throw.\<close>

lemma for_each_stop:
  assumes "\<forall>s. snd (g s) = None"
  shows "\<exists>es'. for_each (task_stop (plain_hook g)) es = (es', if list_all m_started es then None else Some LogicError)
    \<and> map m_started es' = map (\<lambda>_. False) (takeWhile m_started es) @ map m_started (dropWhile m_started es)
    \<and> map m_inited es' = map m_inited es"
proof (induction es)
  case (Cons t es)
  obtain s where s: "g (impl t) = (s, None)" using assms by (metis prod.collapse)
  show ?case
  proof (cases "m_started t")
    case True
    with s Cons show ?thesis by (auto simp: task_stop_def plain_hook_def)
  next
    case False
    then show ?thesis by (simp add: task_stop_def)
  qed
qed simp

text \<open>
  A stop of the metrics controller succeeds only if the thread of every export server has run by
  then. Otherwise it throws, the servers behind the first that has not started are not stopped, and
  no thread is joined.
\<close>

theorem controller_stop_spec:
  assumes "\<forall>s. snd (g s) = None"
  shows "\<exists>c'. controller_stopImpl (\<lambda>_. plain_hook g) c =
       (c', if list_all m_started (mc_exports c) then None else Some LogicError)
    \<and> (if list_all m_started (mc_exports c)
       then mc_threads c' = 0 \<and> list_all (\<lambda>t. \<not> m_started t) (mc_exports c')
       else mc_threads c' = mc_threads c
         \<and> map m_started (mc_exports c') = map (\<lambda>_. False) (takeWhile m_started (mc_exports c))
             @ map m_started (dropWhile m_started (mc_exports c)))"
proof -
  obtain es' where e: "for_each (task_stop (plain_hook g)) (mc_exports c)
      = (es', if list_all m_started (mc_exports c) then None else Some LogicError)"
    "map m_started es' = map (\<lambda>_. False) (takeWhile m_started (mc_exports c)) @ map m_started (dropWhile m_started (mc_exports c))"
    using for_each_stop [OF assms] by metis
  have "list_all (\<lambda>t. \<not> m_started t) es'" if "list_all m_started (mc_exports c)"
  proof -
    have "dropWhile m_started (mc_exports c) = []" using that by (simp add: list_all_iff)
    with e(2) have "False = m_started t" if "t \<in> set es'" for t
      using that by (metis (no_types, lifting) append_Nil2 ex_map_conv in_set_conv_nth length_map list.map(1) nth_map)
    then show ?thesis by (auto simp: list_all_iff)
  qed
  with e show ?thesis by (simp add: controller_stopImpl_def)
qed

text \<open>Two export servers, the thread of one of which has run.\<close>

definition half_started :: "(unit, nat) metrics_controller" where
  "half_started = fst (export_thread (\<lambda>_. plain_hook (\<lambda>n. (Suc n, None))) 0
     \<lparr>mc_table = MetricsTableInternal, mc_exports = [\<lparr>m_inited = True, m_started = False, impl = 0\<rparr>,
        \<lparr>m_inited = True, m_started = False, impl = 0\<rparr>], mc_threads = 3\<rparr>)"

lemma controller_stop_spec_witness:
  "snd (controller_stopImpl (\<lambda>_. plain_hook (\<lambda>n. (Suc n, None))) half_started) = Some LogicError"
proof -
  have "\<not> list_all m_started (mc_exports half_started)"
    by (simp add: half_started_def export_thread_def task_start_def plain_hook_def)
  then show ?thesis using controller_stop_spec [of "\<lambda>n. (Suc n, None)" half_started] by auto
qed

end
