(* ===== verification/IQ_Services.thy ===== *)
theory IQ_Services
  imports IQ_Server IQ_Tail_Monitor
begin

text \<open>
  The threads of the services: what the start of every input, output and server spawns and what its
  stop joins (src/inputs/Input.h, src/inputs/IOInput.h and the inputs, src/outputs and
  src/processor/ProcessorMachine.cpp), and the module of the tail inputs (src/inputs/tail/Input.cpp).
  The bodies of \<open>startImpl\<close> and \<open>stopImpl\<close> are lists of actions; a service is run by the thread that
  calls \<open>start\<close> and \<open>stop\<close> and by its own threads, step by step.
\<close>

subsection \<open>The bodies of start and stop\<close>

text \<open>
  What a thread runs: a loop while the task runs, such a loop with a handler around it, the loop of the
  timer with its pause, the io service, or the loop of the processor, whose handler stops the machine.
\<close>

datatype thread_role = Loop | GuardedLoop | TimerLoop "16 word" | IoService | ScriptLoop

datatype act =
    RegisterMetric string
  | Spawn thread_role  \<comment> \<open>into \<open>m_threads\<close>\<close>
  | SpawnExtra thread_role  \<comment> \<open>the one thread with a member of its own\<close>
  | StopService
  | CallStop
  | JoinFrom nat  \<comment> \<open>\<open>m_threads\<close>, from an index on\<close>
  | JoinExtra

definition Input_startImpl :: "string \<Rightarrow> act list" where
  "Input_startImpl name = [RegisterMetric (''inputs.'' @ name @ ''.receive_total'')]"

definition Input_stopImpl :: "act list" where
  "Input_stopImpl = []"

definition IOInput_startImpl :: "string \<Rightarrow> nat \<Rightarrow> act list" where
  "IOInput_startImpl name n = Input_startImpl name @ replicate n (Spawn IoService)"

definition IOInput_stopImpl :: "act list" where
  "IOInput_stopImpl = [StopService] @ Input_stopImpl @ [JoinFrom 0]"

definition GelfInput_startImpl :: "string \<Rightarrow> nat \<Rightarrow> act list" where
  "GelfInput_startImpl name n = IOInput_startImpl name n @ [SpawnExtra Loop]"

definition GelfInput_stopImpl :: "act list" where
  "GelfInput_stopImpl = IOInput_stopImpl @ [JoinExtra]"

definition TailInput_startImpl :: "string \<Rightarrow> nat \<Rightarrow> 16 word \<Rightarrow> act list" where
  "TailInput_startImpl name n timeout =
     Input_startImpl name @ [SpawnExtra (TimerLoop timeout)] @ replicate n (Spawn GuardedLoop)"

definition TailInput_stopImpl :: "act list" where
  "TailInput_stopImpl = Input_stopImpl @ [JoinExtra, JoinFrom 0]"

definition DummyInput_startImpl :: "string \<Rightarrow> act list" where
  "DummyInput_startImpl name = Input_startImpl name @ [SpawnExtra Loop]"

definition DummyInput_stopImpl :: "act list" where
  "DummyInput_stopImpl = Input_stopImpl @ [JoinExtra]"

definition Output_startImpl :: "string \<Rightarrow> act list" where
  "Output_startImpl name = [RegisterMetric (''outputs.'' @ name @ ''.send_total'')]"

definition OutputInterface_stopImpl :: "act list" where
  "OutputInterface_stopImpl = [StopService]"

definition GelfOutput_startImpl :: "string \<Rightarrow> nat \<Rightarrow> act list" where
  "GelfOutput_startImpl name n = Output_startImpl name @ replicate n (Spawn Loop)"

definition GelfOutput_stopImpl :: "act list" where
  "GelfOutput_stopImpl = OutputInterface_stopImpl @ [JoinFrom 0]"

definition LogOutput_startImpl :: "string \<Rightarrow> nat \<Rightarrow> act list" where
  "LogOutput_startImpl name n = Output_startImpl name @ replicate n (Spawn Loop)"

definition LogOutput_stopImpl :: "act list" where
  "LogOutput_stopImpl = [CallStop, JoinFrom 0]"

definition InotifyServer_startImpl :: "act list" where
  "InotifyServer_startImpl = [Spawn IoService]"

definition InotifyServer_stopImpl :: "act list" where
  "InotifyServer_stopImpl = [StopService, JoinFrom 0]"

definition SavePositionServer_startImpl :: "act list" where
  "SavePositionServer_startImpl = []"

definition SavePositionServer_stopImpl :: "act list" where
  "SavePositionServer_stopImpl = []"

definition ProcessorMachine_startImpl :: "nat \<Rightarrow> act list" where
  "ProcessorMachine_startImpl n = replicate n (Spawn ScriptLoop)"

definition ProcessorMachine_stopImpl :: "act list" where
  "ProcessorMachine_stopImpl = [JoinFrom 0]"

datatype service_kind =
    UdpGelfService string nat
  | IoInputService string nat  \<comment> \<open>GELF over TCP, JSON, journal\<close>
  | TailService string nat "16 word"
  | DummyService string
  | GelfOutputService string nat
  | LogOutputService string nat
  | InotifyService
  | SavePositionService
  | ProcessorService nat

fun service_body :: "service_kind \<Rightarrow> task_op \<Rightarrow> act list" where
  "service_body k OpInit = []"
| "service_body k OpStart =
     (case k of
        UdpGelfService name n \<Rightarrow> GelfInput_startImpl name n
      | IoInputService name n \<Rightarrow> IOInput_startImpl name n
      | TailService name n timeout \<Rightarrow> TailInput_startImpl name n timeout
      | DummyService name \<Rightarrow> DummyInput_startImpl name
      | GelfOutputService name n \<Rightarrow> GelfOutput_startImpl name n
      | LogOutputService name n \<Rightarrow> LogOutput_startImpl name n
      | InotifyService \<Rightarrow> InotifyServer_startImpl
      | SavePositionService \<Rightarrow> SavePositionServer_startImpl
      | ProcessorService n \<Rightarrow> ProcessorMachine_startImpl n)"
| "service_body k OpStop =
     (case k of
        UdpGelfService name n \<Rightarrow> GelfInput_stopImpl
      | IoInputService name n \<Rightarrow> IOInput_stopImpl
      | TailService name n timeout \<Rightarrow> TailInput_stopImpl
      | DummyService name \<Rightarrow> DummyInput_stopImpl
      | GelfOutputService name n \<Rightarrow> GelfOutput_stopImpl
      | LogOutputService name n \<Rightarrow> LogOutput_stopImpl
      | InotifyService \<Rightarrow> InotifyServer_stopImpl
      | SavePositionService \<Rightarrow> SavePositionServer_stopImpl
      | ProcessorService n \<Rightarrow> ProcessorMachine_stopImpl)"

subsection \<open>A service and its threads\<close>

datatype thread_state = Live | Finished | Joined

text \<open>
  \<open>sv_op\<close> is the operation under way, with the actions left; \<open>sv_caller\<close> the thread of the service that
  has called it, \<open>None\<close> when it is the thread that controls the program; \<open>sv_last\<close> the last operation
  that has ended, with the exception it threw; \<open>sv_dead\<close> that the program has terminated.
\<close>

record service =
  sv_running :: bool
  sv_io_stopped :: bool
  sv_threads :: "(thread_role \<times> thread_state) list"
  sv_extra :: "(thread_role \<times> thread_state) option"
  sv_metrics :: "string list"
  sv_op :: "(task_op \<times> act list) option"
  sv_caller :: "nat option"
  sv_last :: "(task_op \<times> exn_class option) option"
  sv_dead :: bool

definition new_service :: service where
  "new_service = \<lparr>sv_running = False, sv_io_stopped = False, sv_threads = [], sv_extra = None, sv_metrics = [],
     sv_op = None, sv_caller = None, sv_last = None, sv_dead = False\<rparr>"

text \<open>When the function of a thread is bound to return, and which may return at any time.\<close>

fun must_end :: "thread_role \<Rightarrow> service \<Rightarrow> bool" where
  "must_end (TimerLoop timeout) s = (timeout = 0 \<or> \<not> sv_running s)"
| "must_end IoService s = sv_io_stopped s"
| "must_end _ s = (\<not> sv_running s)"

definition may_give_up :: "thread_role \<Rightarrow> bool" where
  "may_give_up r \<longleftrightarrow> r = IoService \<or> r = GuardedLoop"

text \<open>
  The steps. \<open>begin_start\<close> and \<open>begin_stop\<close> are the exchange of the flag in \<open>TaskInterface\<close> (the task is
  initialised). A thread can be joined when its function has returned.
\<close>

inductive service_step :: "service_kind \<Rightarrow> service \<Rightarrow> service \<Rightarrow> bool" for k where
  begin_start: "\<not> sv_dead s \<Longrightarrow> sv_op s = None \<Longrightarrow> \<not> sv_running s \<Longrightarrow>
    service_step k s (s\<lparr>sv_running := True, sv_op := Some (OpStart, service_body k OpStart), sv_caller := None\<rparr>)"
| begin_stop: "\<not> sv_dead s \<Longrightarrow> sv_op s = None \<Longrightarrow> sv_running s \<Longrightarrow>
    service_step k s (s\<lparr>sv_running := False, sv_op := Some (OpStop, service_body k OpStop), sv_caller := None\<rparr>)"
| refused_start: "\<not> sv_dead s \<Longrightarrow> sv_op s = None \<Longrightarrow> sv_running s \<Longrightarrow>
    service_step k s (s\<lparr>sv_last := Some (OpStart, Some LogicError)\<rparr>)"
| refused_stop: "\<not> sv_dead s \<Longrightarrow> sv_op s = None \<Longrightarrow> \<not> sv_running s \<Longrightarrow>
    service_step k s (s\<lparr>sv_last := Some (OpStop, Some LogicError)\<rparr>)"
| register: "\<not> sv_dead s \<Longrightarrow> sv_op s = Some (op, RegisterMetric m # acts) \<Longrightarrow>
    service_step k s (s\<lparr>sv_metrics := sv_metrics s @ [m], sv_op := Some (op, acts)\<rparr>)"
| spawn: "\<not> sv_dead s \<Longrightarrow> sv_op s = Some (op, Spawn r # acts) \<Longrightarrow>
    service_step k s (s\<lparr>sv_threads := sv_threads s @ [(r, Live)], sv_op := Some (op, acts)\<rparr>)"
| spawn_extra: "\<not> sv_dead s \<Longrightarrow> sv_op s = Some (op, SpawnExtra r # acts) \<Longrightarrow>
    (case sv_extra s of None \<Rightarrow> True | Some t \<Rightarrow> snd t = Joined) \<Longrightarrow>
    service_step k s (s\<lparr>sv_extra := Some (r, Live), sv_op := Some (op, acts)\<rparr>)"
| stop_io: "\<not> sv_dead s \<Longrightarrow> sv_op s = Some (op, StopService # acts) \<Longrightarrow>
    service_step k s (s\<lparr>sv_io_stopped := True, sv_op := Some (op, acts)\<rparr>)"
| call_stop: "\<not> sv_dead s \<Longrightarrow> sv_op s = Some (op, CallStop # acts) \<Longrightarrow> \<not> sv_running s \<Longrightarrow>
    service_step k s (s\<lparr>sv_op := None, sv_last := Some (op, Some LogicError)\<rparr>)"
| join: "\<not> sv_dead s \<Longrightarrow> sv_op s = Some (op, JoinFrom i # acts) \<Longrightarrow> i < length (sv_threads s) \<Longrightarrow>
    sv_threads s ! i = (r, st) \<Longrightarrow> st \<noteq> Live \<Longrightarrow>
    service_step k s (s\<lparr>sv_threads := (sv_threads s)[i := (r, Joined)], sv_op := Some (op, JoinFrom (Suc i) # acts)\<rparr>)"
| join_end: "\<not> sv_dead s \<Longrightarrow> sv_op s = Some (op, JoinFrom i # acts) \<Longrightarrow> length (sv_threads s) \<le> i \<Longrightarrow>
    service_step k s (s\<lparr>sv_op := Some (op, acts)\<rparr>)"
| join_extra: "\<not> sv_dead s \<Longrightarrow> sv_op s = Some (op, JoinExtra # acts) \<Longrightarrow> sv_extra s = Some (r, st) \<Longrightarrow> st \<noteq> Live \<Longrightarrow>
    service_step k s (s\<lparr>sv_extra := Some (r, Joined), sv_op := Some (op, acts)\<rparr>)"
| join_no_extra: "\<not> sv_dead s \<Longrightarrow> sv_op s = Some (op, JoinExtra # acts) \<Longrightarrow> sv_extra s = None \<Longrightarrow>
    service_step k s (s\<lparr>sv_op := Some (op, acts)\<rparr>)"
| finish: "\<not> sv_dead s \<Longrightarrow> sv_op s = Some (op, []) \<Longrightarrow>
    service_step k s (s\<lparr>sv_op := None, sv_last := Some (op, None)\<rparr>)"
| thread_ends: "\<not> sv_dead s \<Longrightarrow> i < length (sv_threads s) \<Longrightarrow> sv_threads s ! i = (r, Live) \<Longrightarrow> must_end r s \<Longrightarrow>
    sv_caller s \<noteq> Some i \<Longrightarrow> service_step k s (s\<lparr>sv_threads := (sv_threads s)[i := (r, Finished)]\<rparr>)"
| extra_ends: "\<not> sv_dead s \<Longrightarrow> sv_extra s = Some (r, Live) \<Longrightarrow> must_end r s \<Longrightarrow>
    service_step k s (s\<lparr>sv_extra := Some (r, Finished)\<rparr>)"

text \<open>
  What may happen besides: a thread cannot be created; an io service has nothing left to do, or a
  handler caught what a thread threw; a processor thread fails and calls \<open>stop\<close> itself, which throws in
  its handler when it comes to joining the thread that runs it, or at once when the machine is stopped
  already: that terminates the program. A loop without a handler that throws terminates the program,
  too, and has no step; neither has a processor thread that fails while the machine is being started.
\<close>

inductive service_mishap :: "service \<Rightarrow> service \<Rightarrow> bool" where
  spawn_fails: "\<not> sv_dead s \<Longrightarrow> sv_op s = Some (op, a # acts) \<Longrightarrow> a = Spawn r \<or> a = SpawnExtra r \<Longrightarrow>
    service_mishap s (s\<lparr>sv_op := None, sv_last := Some (op, Some SystemError)\<rparr>)"
| gives_up: "\<not> sv_dead s \<Longrightarrow> i < length (sv_threads s) \<Longrightarrow> sv_threads s ! i = (r, Live) \<Longrightarrow> may_give_up r \<Longrightarrow>
    service_mishap s (s\<lparr>sv_threads := (sv_threads s)[i := (r, Finished)]\<rparr>)"
| script_fails: "\<not> sv_dead s \<Longrightarrow> sv_op s = None \<Longrightarrow> i < length (sv_threads s) \<Longrightarrow> sv_threads s ! i = (ScriptLoop, Live) \<Longrightarrow>
    sv_running s \<Longrightarrow>
    service_mishap s (s\<lparr>sv_running := False, sv_op := Some (OpStop, ProcessorMachine_stopImpl), sv_caller := Some i\<rparr>)"
| script_fails_late: "\<not> sv_dead s \<Longrightarrow> i < length (sv_threads s) \<Longrightarrow> sv_threads s ! i = (ScriptLoop, Live) \<Longrightarrow>
    \<not> sv_running s \<Longrightarrow> sv_caller s \<noteq> Some i \<Longrightarrow> service_mishap s (s\<lparr>sv_dead := True\<rparr>)"
| join_self: "\<not> sv_dead s \<Longrightarrow> sv_op s = Some (op, JoinFrom i # acts) \<Longrightarrow> sv_caller s = Some i \<Longrightarrow>
    i < length (sv_threads s) \<Longrightarrow> service_mishap s (s\<lparr>sv_dead := True\<rparr>)"

inductive service_run :: "service_kind \<Rightarrow> service \<Rightarrow> service \<Rightarrow> bool" for k s0 where
  run_start: "service_run k s0 s0"
| run_step: "service_run k s0 s \<Longrightarrow> service_step k s s' \<or> service_mishap s s' \<Longrightarrow> service_run k s0 s'"

inductive_cases service_stepE: "service_step k s s'"
inductive_cases service_mishapE: "service_mishap s s'"

subsection \<open>A stop joins every thread\<close>

lemmas service_bodies = Input_startImpl_def Input_stopImpl_def IOInput_startImpl_def IOInput_stopImpl_def
  GelfInput_startImpl_def GelfInput_stopImpl_def TailInput_startImpl_def TailInput_stopImpl_def
  DummyInput_startImpl_def DummyInput_stopImpl_def Output_startImpl_def OutputInterface_stopImpl_def
  GelfOutput_startImpl_def GelfOutput_stopImpl_def LogOutput_startImpl_def LogOutput_stopImpl_def
  InotifyServer_startImpl_def InotifyServer_stopImpl_def SavePositionServer_startImpl_def
  SavePositionServer_stopImpl_def ProcessorMachine_startImpl_def ProcessorMachine_stopImpl_def service_body.simps

declare service_body.simps [simp del]

definition is_log :: "service_kind \<Rightarrow> bool" where
  "is_log k = (case k of LogOutputService name n \<Rightarrow> True | _ \<Rightarrow> False)"

definition all_joined :: "service \<Rightarrow> bool" where
  "all_joined s \<longleftrightarrow> list_all (\<lambda>t. snd t = Joined) (sv_threads s) \<and> (case sv_extra s of None \<Rightarrow> True | Some t \<Rightarrow> snd t = Joined)"

text \<open>The threads that are not joined are those that the actions left will join.\<close>

definition covered :: "service \<Rightarrow> act list \<Rightarrow> bool" where
  "covered s acts \<longleftrightarrow>
     (\<forall>j < length (sv_threads s). snd (sv_threads s ! j) \<noteq> Joined \<longrightarrow> (\<exists>i \<le> j. JoinFrom i \<in> set acts))
     \<and> (\<forall>t. sv_extra s = Some t \<longrightarrow> snd t \<noteq> Joined \<longrightarrow> JoinExtra \<in> set acts)"

definition stop_joins :: "service_kind \<Rightarrow> bool" where
  "stop_joins k \<longleftrightarrow> CallStop \<notin> set (service_body k OpStop)
     \<and> ((\<exists>r. Spawn r \<in> set (service_body k OpStart)) \<longrightarrow> JoinFrom 0 \<in> set (service_body k OpStop))
     \<and> ((\<exists>r. SpawnExtra r \<in> set (service_body k OpStart)) \<longrightarrow> JoinExtra \<in> set (service_body k OpStop))"

lemma stop_joins_iff: "stop_joins k = (\<not> is_log k)"
  by (cases k) (auto simp: stop_joins_def is_log_def service_bodies)


definition stop_acts :: "act list \<Rightarrow> bool" where
  "stop_acts acts \<longleftrightarrow> (\<forall>a \<in> set acts. case a of StopService \<Rightarrow> True | JoinFrom i \<Rightarrow> True | JoinExtra \<Rightarrow> True | _ \<Rightarrow> False)"

lemma stop_acts_simps [simp]:
  "stop_acts []" "stop_acts (a # acts) = ((case a of StopService \<Rightarrow> True | JoinFrom i \<Rightarrow> True | JoinExtra \<Rightarrow> True | _ \<Rightarrow> False) \<and> stop_acts acts)"
  by (simp_all add: stop_acts_def)

definition start_acts :: "act list \<Rightarrow> bool" where
  "start_acts acts \<longleftrightarrow> (\<forall>a \<in> set acts. case a of RegisterMetric m \<Rightarrow> True | Spawn r \<Rightarrow> True | SpawnExtra r \<Rightarrow> True | _ \<Rightarrow> False)"

lemma start_acts_simps [simp]:
  "start_acts []" "start_acts (a # acts) = ((case a of RegisterMetric m \<Rightarrow> True | Spawn r \<Rightarrow> True | SpawnExtra r \<Rightarrow> True | _ \<Rightarrow> False) \<and> start_acts acts)"
  by (simp_all add: start_acts_def)

definition op_inv :: "service_kind \<Rightarrow> service \<Rightarrow> bool" where
  "op_inv k s \<longleftrightarrow>
     (case sv_op s of
        None \<Rightarrow> sv_running s \<or> covered s []
      | Some (OpInit, acts) \<Rightarrow> False
      | Some (OpStart, acts) \<Rightarrow> sv_running s \<and> set acts \<subseteq> set (service_body k OpStart) \<and> start_acts acts
      | Some (OpStop, acts) \<Rightarrow> \<not> sv_running s \<and> covered s acts \<and> stop_acts acts)"

definition has_script :: "(thread_role \<times> thread_state) list \<Rightarrow> bool" where
  "has_script ts \<longleftrightarrow> ScriptLoop \<in> set (map fst ts)"

lemma has_script_simps [simp]:
  "\<not> has_script []" "has_script (ts @ [(r, st)]) = (has_script ts \<or> r = ScriptLoop)"
  by (auto simp: has_script_def)

lemma has_script_update [simp]:
  assumes "ts ! i = (r, st)" "i < length ts"
  shows "has_script (ts[i := (r, st')]) = has_script ts"
proof -
  have "(map fst ts)[i := r] = map fst ts" using assms by (simp add: list_update_same_conv)
  then show ?thesis by (simp add: has_script_def map_update del: set_map)
qed

lemma has_script_nth: "ts ! i = (ScriptLoop, st) \<Longrightarrow> i < length ts \<Longrightarrow> has_script ts"
  unfolding has_script_def by (metis fst_conv length_map nth_map nth_mem)

definition service_inv :: "service_kind \<Rightarrow> service \<Rightarrow> bool" where
  "service_inv k s \<longleftrightarrow> op_inv k s
     \<and> (sv_threads s \<noteq> [] \<longrightarrow> JoinFrom 0 \<in> set (service_body k OpStop))
     \<and> (sv_extra s \<noteq> None \<longrightarrow> JoinExtra \<in> set (service_body k OpStop))
     \<and> (has_script (sv_threads s) \<longrightarrow> service_body k OpStop = ProcessorMachine_stopImpl)"

lemma stop_body_acts: "\<not> is_log k \<Longrightarrow> stop_acts (service_body k OpStop)"
  by (cases k) (auto simp: is_log_def service_bodies)

lemma start_body_script:
  "Spawn ScriptLoop \<in> set (service_body k OpStart) \<Longrightarrow> service_body k OpStop = ProcessorMachine_stopImpl"
  by (cases k) (auto simp: service_bodies)

lemma start_body_joins:
  assumes "\<not> is_log k"
  shows "Spawn r \<in> set (service_body k OpStart) \<Longrightarrow> JoinFrom 0 \<in> set (service_body k OpStop)"
    and "SpawnExtra r \<in> set (service_body k OpStart) \<Longrightarrow> JoinExtra \<in> set (service_body k OpStop)"
  using assms stop_joins_iff [of k] by (auto simp: stop_joins_def)

lemma start_body_acts: "start_acts (service_body k OpStart)"
  by (cases k) (auto simp: service_bodies start_acts_def)

lemma covered_mono: "covered s acts \<Longrightarrow> set acts \<subseteq> set acts' \<Longrightarrow> covered s acts'"
  unfolding covered_def by (meson subsetD)

lemma covered_thread:
  "covered s acts \<Longrightarrow> sv_threads s ! i = (r, Live) \<Longrightarrow> i < length (sv_threads s) \<Longrightarrow>
   covered (s\<lparr>sv_threads := (sv_threads s)[i := (r, Finished)]\<rparr>) acts"
  by (auto simp: covered_def nth_list_update)

lemma covered_extra:
  "covered s acts \<Longrightarrow> sv_extra s = Some (r, Live) \<Longrightarrow> covered (s\<lparr>sv_extra := Some (r, Finished)\<rparr>) acts"
  by (auto simp: covered_def)

lemma covered_join:
  assumes "covered s (JoinFrom i # acts)" "i < length (sv_threads s)"
  shows "covered (s\<lparr>sv_threads := (sv_threads s)[i := (r, Joined)], sv_op := q\<rparr>) (JoinFrom (Suc i) # acts)"
proof -
  have "\<exists>i' \<le> j. JoinFrom i' \<in> set (JoinFrom (Suc i) # acts)"
    if j: "j < length (sv_threads s)" "snd ((sv_threads s)[i := (r, Joined)] ! j) \<noteq> Joined" for j
  proof -
    have ne: "j \<noteq> i" using j assms(2) by auto
    with j have "\<exists>i' \<le> j. JoinFrom i' \<in> set (JoinFrom i # acts)" using assms(1) by (simp add: covered_def)
    then obtain i' where i': "i' \<le> j" "i' = i \<or> JoinFrom i' \<in> set acts" by auto
    then show ?thesis
    proof (cases "i' = i")
      case True
      then show ?thesis using ne i'(1) by (intro exI [of _ "Suc i"]) simp
    qed (use i' in auto)
  qed
  then show ?thesis using assms(1) by (simp add: covered_def)
qed

lemma covered_join_end:
  assumes "covered s (JoinFrom i # acts)" "length (sv_threads s) \<le> i"
  shows "covered (s\<lparr>sv_op := q\<rparr>) acts"
proof -
  have "\<exists>i' \<le> j. JoinFrom i' \<in> set acts" if j: "j < length (sv_threads s)" "snd (sv_threads s ! j) \<noteq> Joined" for j
  proof -
    have "\<exists>i' \<le> j. JoinFrom i' \<in> set (JoinFrom i # acts)" using assms(1) j by (simp add: covered_def)
    then show ?thesis using assms(2) j(1) by auto
  qed
  then show ?thesis using assms(1) by (simp add: covered_def)
qed

lemma covered_skip:
  "covered s (StopService # acts) \<Longrightarrow> covered (s\<lparr>sv_io_stopped := True, sv_op := q\<rparr>) acts"
  "covered s (JoinExtra # acts) \<Longrightarrow> covered (s\<lparr>sv_extra := Some (r, Joined), sv_op := q\<rparr>) acts"
  "covered s (JoinExtra # acts) \<Longrightarrow> sv_extra s = None \<Longrightarrow> covered (s\<lparr>sv_op := q\<rparr>) acts"
  by (auto simp: covered_def)

lemma covered_stop:
  "sv_threads s = [] \<or> JoinFrom 0 \<in> set acts \<Longrightarrow> sv_extra s = None \<or> JoinExtra \<in> set acts \<Longrightarrow> covered s acts"
  by (auto simp: covered_def)

lemma op_inv_same:
  assumes "op_inv k s" "sv_op s' = sv_op s" "sv_running s' = sv_running s" "\<And>acts. covered s acts \<Longrightarrow> covered s' acts"
  shows "op_inv k s'"
  using assms by (auto simp: op_inv_def split: option.splits prod.splits task_op.splits)

lemma service_inv_same:
  assumes "service_inv k s" "sv_op s' = sv_op s" "sv_running s' = sv_running s" "\<And>acts. covered s acts \<Longrightarrow> covered s' acts"
    and "length (sv_threads s') = length (sv_threads s)" "(sv_extra s' = None) = (sv_extra s = None)"
    and "has_script (sv_threads s') = has_script (sv_threads s)"
  shows "service_inv k s'"
  using assms(1,5-7) op_inv_same [OF _ assms(2-4)] unfolding service_inv_def by (metis length_0_conv)

lemma op_inv_next:
  assumes "op_inv k s" "sv_op s = Some (op, a # acts)" "sv_op s' = Some (op, acts)" "sv_running s' = sv_running s"
    and "op = OpStop \<Longrightarrow> stop_acts (a # acts) \<Longrightarrow> covered s (a # acts) \<Longrightarrow> covered s' acts"
  shows "op_inv k s'"
  using assms by (cases op) (auto simp: op_inv_def)

lemma service_inv_next:
  assumes "service_inv k s" "sv_op s = Some (op, a # acts)" "sv_op s' = Some (op, acts)" "sv_running s' = sv_running s"
    and "op = OpStop \<Longrightarrow> stop_acts (a # acts) \<Longrightarrow> covered s (a # acts) \<Longrightarrow> covered s' acts"
    and "sv_threads s' \<noteq> [] \<longrightarrow> sv_threads s \<noteq> [] \<or> JoinFrom 0 \<in> set (service_body k OpStop)"
    and "sv_extra s' \<noteq> None \<longrightarrow> sv_extra s \<noteq> None \<or> JoinExtra \<in> set (service_body k OpStop)"
    and "has_script (sv_threads s') \<longrightarrow> has_script (sv_threads s) \<or> service_body k OpStop = ProcessorMachine_stopImpl"
  shows "service_inv k s'"
  using assms(1,6-8) op_inv_next [OF _ assms(2-5)] unfolding service_inv_def by blast

lemma service_inv_op: "service_inv k s \<Longrightarrow> op_inv k s"
  by (simp add: service_inv_def)

lemma spawn_in_start:
  assumes "service_inv k s" "sv_op s = Some (op, a # acts)" "a = Spawn r \<or> a = SpawnExtra r"
  shows "op = OpStart \<and> a \<in> set (service_body k OpStart)"
  using service_inv_op [OF assms(1)] assms(2,3) by (cases op) (auto simp: op_inv_def)

lemma service_step_inv:
  assumes "service_step k s s'" "service_inv k s" "\<not> is_log k"
  shows "service_inv k s'"
  using assms(1)
proof (cases rule: service_step.cases)
  case begin_start
  then show ?thesis using assms(2) start_body_acts by (simp add: service_inv_def op_inv_def)
next
  case begin_stop
  then show ?thesis using assms(2) stop_body_acts [OF assms(3)]
    by (cases "sv_extra s") (auto simp: service_inv_def op_inv_def intro!: covered_stop)
next
  case refused_start
  then show ?thesis by (intro service_inv_same [OF assms(2)]) (simp_all add: covered_def)
next
  case refused_stop
  then show ?thesis by (intro service_inv_same [OF assms(2)]) (simp_all add: covered_def)
next
  case (register op m acts)
  show ?thesis unfolding register(1) by (rule service_inv_next [OF assms(2) register(3)]) simp_all
next
  case (spawn op r acts)
  note sp = spawn_in_start [OF assms(2) spawn(3)]
  show ?thesis unfolding spawn(1)
    by (rule service_inv_next [OF assms(2) spawn(3)])
       (use sp start_body_joins(1) [OF assms(3)] start_body_script in auto)
next
  case (spawn_extra op r acts)
  note sp = spawn_in_start [OF assms(2) spawn_extra(3)]
  show ?thesis unfolding spawn_extra(1)
    by (rule service_inv_next [OF assms(2) spawn_extra(3)])
       (use sp start_body_joins(2) [OF assms(3)] in auto)
next
  case (stop_io op acts)
  show ?thesis unfolding stop_io(1) by (rule service_inv_next [OF assms(2) stop_io(3)]) (simp_all add: covered_skip)
next
  case (call_stop op acts)
  then show ?thesis using service_inv_op [OF assms(2)] by (cases op) (auto simp: op_inv_def)
next
  case (join op i acts r st)
  then have "op = OpStop" using service_inv_op [OF assms(2)] by (cases op) (auto simp: op_inv_def)
  with join show ?thesis using assms(2) by (auto simp: service_inv_def op_inv_def covered_join)
next
  case (join_end op i acts)
  show ?thesis unfolding join_end(1)
    by (rule service_inv_next [OF assms(2) join_end(3)]) (use join_end(4) covered_join_end in auto)
next
  case (join_extra op acts r st)
  show ?thesis unfolding join_extra(1)
    by (rule service_inv_next [OF assms(2) join_extra(3)]) (use join_extra(4) in \<open>auto simp: covered_skip\<close>)
next
  case (join_no_extra op acts)
  show ?thesis unfolding join_no_extra(1)
    by (rule service_inv_next [OF assms(2) join_no_extra(3)]) (use join_no_extra(4) in \<open>auto simp: covered_skip\<close>)
next
  case (finish op)
  then show ?thesis using assms(2) by (cases op) (auto simp: service_inv_def op_inv_def covered_def)
next
  case (thread_ends i r)
  then show ?thesis by (intro service_inv_same [OF assms(2)]) (simp_all add: covered_thread)
next
  case (extra_ends r)
  then show ?thesis by (intro service_inv_same [OF assms(2)]) (simp_all add: covered_extra)
qed

lemma service_mishap_inv:
  assumes "service_mishap s s'" "service_inv k s"
  shows "service_inv k s'"
  using assms(1)
proof (cases rule: service_mishap.cases)
  case (spawn_fails op a acts r)
  then have "op = OpStart" using spawn_in_start [OF assms(2)] by blast
  with spawn_fails show ?thesis using assms(2) by (auto simp: service_inv_def op_inv_def)
next
  case (gives_up i r)
  then show ?thesis by (intro service_inv_same [OF assms(2)]) (simp_all add: covered_thread)
next
  case (script_fails i)
  then have "service_body k OpStop = ProcessorMachine_stopImpl" using assms(2) has_script_nth by (auto simp: service_inv_def)
  then show ?thesis using script_fails(1) assms(2)
    by (cases "sv_extra s") (auto simp: service_inv_def op_inv_def ProcessorMachine_stopImpl_def intro!: covered_stop)
next
  case (script_fails_late i)
  then show ?thesis by (intro service_inv_same [OF assms(2)]) (simp_all add: covered_def)
next
  case (join_self op i acts)
  then show ?thesis by (intro service_inv_same [OF assms(2)]) (simp_all add: covered_def)
qed

lemma service_run_inv:
  assumes "service_run k new_service s" "\<not> is_log k"
  shows "service_inv k s"
  using assms(1)
proof induction
  case run_start
  then show ?case by (simp add: service_inv_def op_inv_def new_service_def covered_def)
next
  case (run_step s s')
  then show ?case using service_step_inv [OF _ _ assms(2)] service_mishap_inv by blast
qed

text \<open>
  C18: However the thread that controls the program, the threads of a service and mishaps interleave, and
  however often the service is started and stopped: a service other than the log output that is not
  running, with no operation under way, has joined each thread it ever created. In particular nothing
  of it runs after a stop, also after a start that failed half way.
\<close>

theorem stopped_service_joined:
  assumes "service_run k new_service s" "\<forall>name n. k \<noteq> LogOutputService name n" "\<not> sv_running s" "sv_op s = None"
  shows "all_joined s"
proof -
  have "\<not> is_log k" using assms(2) by (simp add: is_log_def split: service_kind.splits)
  from service_run_inv [OF assms(1) this] assms(3,4) have "covered s []" by (simp add: service_inv_def op_inv_def)
  then show ?thesis by (auto simp: covered_def all_joined_def list_all_length split: option.splits)
qed

subsection \<open>A stop returns\<close>

fun act_weight :: "nat \<Rightarrow> act \<Rightarrow> nat" where
  "act_weight n (JoinFrom i) = Suc (n - i)"
| "act_weight n _ = 1"

definition stop_left :: "service \<Rightarrow> nat" where
  "stop_left s =
     (case sv_op s of None \<Rightarrow> 0 | Some (op, acts) \<Rightarrow> Suc (sum_list (map (act_weight (length (sv_threads s))) acts)))
     + length (filter (\<lambda>t. snd t = Live) (sv_threads s))
     + (case sv_extra s of None \<Rightarrow> 0 | Some t \<Rightarrow> if snd t = Live then 1 else 0)"

lemma live_count_end:
  "i < length ts \<Longrightarrow> ts ! i = (r, Live) \<Longrightarrow>
   Suc (length (filter (\<lambda>t. snd t = Live) (ts[i := (r, Finished)]))) = length (filter (\<lambda>t. snd t = Live) ts)"
  by (induction ts arbitrary: i) (auto split: nat.splits)

lemma live_count_join:
  "i < length ts \<Longrightarrow> ts ! i = (r, st) \<Longrightarrow> st \<noteq> Live \<Longrightarrow>
   length (filter (\<lambda>t. snd t = Live) (ts[i := (r, Joined)])) = length (filter (\<lambda>t. snd t = Live) ts)"
  by (induction ts arbitrary: i) (auto split: nat.splits)

lemma act_weight_pos: "0 < act_weight n a"
  by (cases a) simp_all

text \<open>A thread that runs the io service is joined after the service was stopped.\<close>

definition has_io :: "(thread_role \<times> thread_state) list \<Rightarrow> bool" where
  "has_io ts \<longleftrightarrow> IoService \<in> set (map fst ts)"

lemma has_io_simps [simp]:
  "\<not> has_io []" "has_io (ts @ [(r, st)]) = (has_io ts \<or> r = IoService)"
  by (auto simp: has_io_def)

lemma has_io_update [simp]:
  assumes "ts ! i = (r, st)" "i < length ts"
  shows "has_io (ts[i := (r, st')]) = has_io ts"
proof -
  have "(map fst ts)[i := r] = map fst ts" using assms by (simp add: list_update_same_conv)
  then show ?thesis by (simp add: has_io_def map_update del: set_map)
qed

lemma has_io_nth: "ts ! i = (IoService, st) \<Longrightarrow> i < length ts \<Longrightarrow> has_io ts"
  unfolding has_io_def by (metis fst_conv length_map nth_map nth_mem)

definition io_first :: "act list \<Rightarrow> bool" where
  "io_first acts \<longleftrightarrow> (case acts of StopService # _ \<Rightarrow> True | _ \<Rightarrow> False)"

definition io_inv :: "service_kind \<Rightarrow> service \<Rightarrow> bool" where
  "io_inv k s \<longleftrightarrow>
     (has_io (sv_threads s) \<longrightarrow> io_first (service_body k OpStop))
     \<and> (\<forall>acts. sv_op s = Some (OpStop, acts) \<longrightarrow> has_io (sv_threads s) \<longrightarrow> sv_io_stopped s \<or> io_first acts)
     \<and> (\<forall>r st. sv_extra s = Some (r, st) \<longrightarrow> r \<noteq> IoService)"

lemma start_body_io: "Spawn IoService \<in> set (service_body k OpStart) \<Longrightarrow> io_first (service_body k OpStop)"
  by (cases k) (simp_all add: service_bodies io_first_def)

lemma start_body_extra: "SpawnExtra IoService \<notin> set (service_body k OpStart)"
  by (cases k) (simp_all add: service_bodies)

lemma io_first_simps [simp]: "io_first (StopService # acts)" "\<not> io_first []" "\<not> io_first (JoinFrom i # acts)"
  "\<not> io_first (JoinExtra # acts)" "\<not> io_first (RegisterMetric m # acts)" "\<not> io_first (Spawn r # acts)"
  "\<not> io_first (SpawnExtra r # acts)" "\<not> io_first (CallStop # acts)"
  by (simp_all add: io_first_def)

lemma io_inv_step:
  assumes "service_step k s s'" "service_inv k s" "io_inv k s"
  shows "io_inv k s'"
  using assms(1)
proof (cases rule: service_step.cases)
  case (spawn op r acts)
  note sp = spawn_in_start [OF assms(2) spawn(3)]
  show ?thesis using assms(3) sp start_body_io unfolding spawn(1) by (auto simp: io_inv_def)
next
  case (spawn_extra op r acts)
  note sp = spawn_in_start [OF assms(2) spawn_extra(3)]
  show ?thesis using assms(3) sp start_body_extra unfolding spawn_extra(1) by (auto simp: io_inv_def)
qed (use assms(3) in \<open>auto simp: io_inv_def\<close>)

lemma io_inv_mishap:
  assumes "service_mishap s s'" "service_inv k s" "io_inv k s"
  shows "io_inv k s'"
  using assms(1)
proof (cases rule: service_mishap.cases)
  case (script_fails i)
  then have "service_body k OpStop = ProcessorMachine_stopImpl" using assms(2) has_script_nth by (auto simp: service_inv_def)
  then show ?thesis using script_fails(1) assms(3) by (auto simp: io_inv_def ProcessorMachine_stopImpl_def)
qed (use assms(3) in \<open>auto simp: io_inv_def\<close>)

lemma io_run_inv:
  assumes "service_run k new_service s" "\<not> is_log k"
  shows "service_inv k s \<and> io_inv k s"
  using assms(1)
proof induction
  case run_start
  then show ?case using service_run_inv [OF service_run.run_start assms(2)] by (simp add: io_inv_def new_service_def)
next
  case (run_step s s')
  then show ?case
    using service_step_inv [OF _ _ assms(2)] service_mishap_inv io_inv_step io_inv_mishap by blast
qed

lemma stop_progress:
  assumes "service_inv k s" "io_inv k s" "sv_op s = Some (OpStop, acts)" "sv_caller s = None" "\<not> sv_dead s"
  shows "\<exists>s'. service_step k s s'"
proof -
  have o: "\<not> sv_running s" "stop_acts acts" using service_inv_op [OF assms(1)] assms(3) by (auto simp: op_inv_def)
  have live: "must_end r s" if "r = IoService \<longrightarrow> sv_io_stopped s" for r using o(1) that by (cases r) auto
  show ?thesis
  proof (cases acts)
    case Nil
    with assms(3,5) show ?thesis using service_step.finish by blast
  next
    case (Cons a acts')
    with o(2) consider "a = StopService" | i where "a = JoinFrom i" | "a = JoinExtra" by (cases a) auto
    then show ?thesis
    proof cases
      case 1
      with assms(3,5) Cons show ?thesis using service_step.stop_io by blast
    next
      case (2 i)
      show ?thesis
      proof (cases "i < length (sv_threads s)")
        case True
        obtain r st where t: "sv_threads s ! i = (r, st)" by fastforce
        show ?thesis
        proof (cases "st = Live")
          case True
          have "r = IoService \<longrightarrow> sv_io_stopped s"
            using assms(2,3) Cons 2 t \<open>i < length (sv_threads s)\<close> has_io_nth by (auto simp: io_inv_def)
          with live t True \<open>i < length (sv_threads s)\<close> assms(4,5) show ?thesis
            using service_step.thread_ends [of s i r] by auto
        qed (use service_step.join [of s OpStop i acts'] assms(3,5) Cons 2 t True in auto)
      qed (use service_step.join_end [of s OpStop i acts'] assms(3,5) Cons 2 in auto)
    next
      case 3
      show ?thesis
      proof (cases "sv_extra s")
        case None
        then show ?thesis using service_step.join_no_extra [of s OpStop acts'] assms(3,5) Cons 3 by auto
      next
        case (Some t)
        obtain r st where t: "t = (r, st)" by (cases t)
        show ?thesis
        proof (cases "st = Live")
          case True
          have "r \<noteq> IoService" using assms(2) Some t by (auto simp: io_inv_def)
          then show ?thesis using service_step.extra_ends [of s r] assms(5) Some t True live by auto
        qed (use service_step.join_extra [of s OpStop acts' r st] assms(3,5) Cons 3 Some t in auto)
      qed
    qed
  qed
qed

definition stop_shrinks :: "service \<Rightarrow> service \<Rightarrow> bool" where
  "stop_shrinks s s' \<longleftrightarrow> sv_dead s' \<or> sv_op s' = None
     \<or> (\<exists>acts. sv_op s' = Some (OpStop, acts)) \<and> sv_caller s' = sv_caller s \<and> stop_left s' < stop_left s"

lemma stop_step_shrinks:
  assumes "service_step k s s'" "sv_op s = Some (OpStop, acts)" "stop_acts acts"
  shows "stop_shrinks s s'"
  using assms(1)
proof (cases rule: service_step.cases)
  case (join op i acts r st)
  then show ?thesis using assms(2) live_count_join [of i "sv_threads s" r st]
    by (simp add: stop_shrinks_def stop_left_def)
next
  case (join_extra op acts r st)
  then show ?thesis using assms(2) by (simp add: stop_shrinks_def stop_left_def)
next
  case (thread_ends i r)
  then show ?thesis using assms(2) live_count_end [of i "sv_threads s" r] by (simp add: stop_shrinks_def stop_left_def)
qed (use assms(2,3) in \<open>auto simp: stop_shrinks_def stop_left_def\<close>)

lemma stop_mishap_shrinks:
  assumes "service_mishap s s'" "sv_op s = Some (OpStop, acts)" "stop_acts acts"
  shows "stop_shrinks s s'"
  using assms(1)
proof (cases rule: service_mishap.cases)
  case (gives_up i r)
  then show ?thesis using assms(2) live_count_end [of i "sv_threads s" r] by (simp add: stop_shrinks_def stop_left_def)
qed (use assms(2,3) in \<open>auto simp: stop_shrinks_def\<close>)


subsection \<open>The log output and the processor\<close>

definition log_acts :: "act list \<Rightarrow> bool" where
  "log_acts acts \<longleftrightarrow> (\<forall>a \<in> set acts. case a of RegisterMetric m \<Rightarrow> True | Spawn r \<Rightarrow> r = Loop | _ \<Rightarrow> False)"

lemma log_acts_simps [simp]:
  "log_acts []" "log_acts (a # acts) = ((case a of RegisterMetric m \<Rightarrow> True | Spawn r \<Rightarrow> r = Loop | _ \<Rightarrow> False) \<and> log_acts acts)"
  by (simp_all add: log_acts_def)

definition log_op :: "(task_op \<times> act list) option \<Rightarrow> bool" where
  "log_op q \<longleftrightarrow> (case q of None \<Rightarrow> True | Some (op, acts) \<Rightarrow> op = OpStart \<and> log_acts acts \<or> op = OpStop \<and> acts = [CallStop, JoinFrom 0])"

lemma log_op_simps [simp]:
  "log_op None" "log_op (Some (op, acts)) = (op = OpStart \<and> log_acts acts \<or> op = OpStop \<and> acts = [CallStop, JoinFrom 0])"
  by (simp_all add: log_op_def)

lemma log_body:
  "log_op (Some (OpStart, service_body (LogOutputService name n) OpStart))"
  "log_op (Some (OpStop, service_body (LogOutputService name n) OpStop))"
  by (auto simp: service_bodies log_acts_def)

definition log_threads :: "(thread_role \<times> thread_state) list \<Rightarrow> bool" where
  "log_threads ts \<longleftrightarrow> (\<forall>i < length ts. fst (ts ! i) = Loop \<and> snd (ts ! i) \<noteq> Joined)"

lemma log_threads_simps [simp]:
  "log_threads []" "log_threads (ts @ [(r, st)]) = (log_threads ts \<and> r = Loop \<and> st \<noteq> Joined)"
  by (auto simp: log_threads_def nth_append less_Suc_eq)

lemma log_threads_end: "log_threads ts \<Longrightarrow> i < length ts \<Longrightarrow> ts ! i = (r, Live) \<Longrightarrow> log_threads (ts[i := (r, Finished)])"
  unfolding log_threads_def by (metis fst_conv length_list_update nth_list_update snd_conv thread_state.distinct(5))

lemma log_threads_nth: "log_threads ts \<Longrightarrow> i < length ts \<Longrightarrow> ts ! i = (r, st) \<Longrightarrow> r = Loop"
  by (auto simp: log_threads_def)

definition log_inv :: "service \<Rightarrow> bool" where
  "log_inv s \<longleftrightarrow> log_threads (sv_threads s) \<and> sv_last s \<noteq> Some (OpStop, None) \<and> log_op (sv_op s)"

lemma log_inv_step:
  assumes "service_step (LogOutputService name n) s s' \<or> service_mishap s s'" "log_inv s"
  shows "log_inv s'"
proof -
  have i: "log_threads (sv_threads s)" "sv_last s \<noteq> Some (OpStop, None)" "log_op (sv_op s)"
    using assms(2) by (simp_all add: log_inv_def)
  from assms(1) show ?thesis
  proof
    assume "service_step (LogOutputService name n) s s'"
    then show ?thesis
    proof (cases rule: service_step.cases)
      case begin_start
      then show ?thesis using i log_body(1) by (simp add: log_inv_def)
    next
      case begin_stop
      then show ?thesis using i log_body(2) by (simp add: log_inv_def)
    next
      case (thread_ends j r)
      then show ?thesis using i log_threads_end by (simp add: log_inv_def)
    qed (use i in \<open>auto simp: log_inv_def\<close>)
  next
    assume "service_mishap s s'"
    then show ?thesis
    proof (cases rule: service_mishap.cases)
      case (gives_up j r)
      then show ?thesis using log_threads_nth [OF i(1)] by (auto simp: may_give_up_def)
    next
      case (script_fails j)
      then show ?thesis using log_threads_nth [OF i(1)] by auto
    qed (use i in \<open>auto simp: log_inv_def\<close>)
  qed
qed

text \<open>
  A log output never stops: however it is run, no \<open>stop\<close> of it has ever returned without an exception
  and none of its threads has ever been joined.
\<close>

theorem log_output_never_stops:
  assumes "service_run (LogOutputService name n) new_service s"
  shows "sv_last s \<noteq> Some (OpStop, None) \<and> list_all (\<lambda>t. snd t \<noteq> Joined) (sv_threads s)"
proof -
  have "log_inv s" using assms
  proof induction
    case run_start
    then show ?case by (simp add: log_inv_def new_service_def)
  next
    case (run_step s s')
    then show ?case using log_inv_step by blast
  qed
  then show ?thesis by (simp add: log_inv_def log_threads_def list_all_length)
qed

text \<open>The stop that a failing processor thread has called.\<close>

definition own_stop :: "nat \<Rightarrow> service \<Rightarrow> bool" where
  "own_stop i s \<longleftrightarrow> sv_dead s
     \<or> (sv_caller s = Some i \<and> \<not> sv_running s \<and> i < length (sv_threads s) \<and> sv_threads s ! i = (ScriptLoop, Live)
        \<and> (\<exists>j \<le> i. sv_op s = Some (OpStop, [JoinFrom j])))"

lemma alive_step:
  assumes "service_step k s s' \<or> service_mishap s s'"
  shows "\<not> sv_dead s"
  using assms
proof
  assume "service_step k s s'"
  then show ?thesis by cases
next
  assume "service_mishap s s'"
  then show ?thesis by cases
qed

lemma own_stop_step:
  assumes "service_step k s s' \<or> service_mishap s s'" "own_stop i s"
  shows "own_stop i s'"
proof -
  from alive_step [OF assms(1)] assms(2) obtain j where c: "sv_caller s = Some i" "i < length (sv_threads s)"
      "sv_threads s ! i = (ScriptLoop, Live)" "j \<le> i" "sv_op s = Some (OpStop, [JoinFrom j])" "\<not> sv_running s"
    unfolding own_stop_def by blast
  from assms(1) show ?thesis
  proof
    assume "service_step k s s'"
    then show ?thesis
    proof (cases rule: service_step.cases)
      case (join op i' acts r st)
      then have "i' = j" "j \<noteq> i" using c by auto
      then show ?thesis unfolding own_stop_def join(1) using c join(3) by (auto intro!: exI [of _ "Suc j"])
    next
      case (thread_ends i' r)
      then have "i' \<noteq> i" using c(1) by auto
      then show ?thesis unfolding own_stop_def thread_ends(1) using c by auto
    next
      case (extra_ends r)
      then show ?thesis unfolding own_stop_def extra_ends(1) using c by auto
    qed (use c in simp_all)
  next
    assume "service_mishap s s'"
    then show ?thesis
    proof (cases rule: service_mishap.cases)
      case (gives_up i' r)
      then have "i' \<noteq> i" using c(3) by (auto simp: may_give_up_def)
      then show ?thesis unfolding own_stop_def gives_up(1) using c by auto
    next
      case (spawn_fails op a acts r)
      then show ?thesis using c(5) by auto
    next
      case (script_fails i')
      then show ?thesis using c(5) by simp
    qed (simp_all add: own_stop_def)
  qed
qed

lemma own_stop_run: "service_run k s s' \<Longrightarrow> own_stop i s \<Longrightarrow> own_stop i s'"
  by (induction rule: service_run.induct) (auto intro: own_stop_step)

lemma caller_own_stop:
  assumes "service_run k new_service s" "sv_caller s = Some i"
  shows "own_stop i s"
  using assms
proof (induction arbitrary: i)
  case run_start
  then show ?case by (simp add: new_service_def)
next
  case (run_step s s')
  show ?case
  proof (cases "sv_caller s = Some i")
    case True
    then show ?thesis using run_step own_stop_step by blast
  next
    case False
    from run_step(2) have "service_mishap s s'" using False run_step(4) by (auto elim: service_step.cases)
    then show ?thesis
    proof (cases rule: service_mishap.cases)
      case (script_fails i')
      then have "i' = i" using run_step(4) by simp
      then show ?thesis using script_fails by (simp add: own_stop_def ProcessorMachine_stopImpl_def)
    qed (use False run_step(4) in auto)
  qed
qed

text \<open>The threads of a service are those its start creates.\<close>

lemma thread_roles_step:
  assumes "service_step k s s' \<or> service_mishap s s'" "service_inv k s"
    and "set (map fst (sv_threads s)) \<subseteq> {r. Spawn r \<in> set (service_body k OpStart)}"
  shows "set (map fst (sv_threads s')) \<subseteq> {r. Spawn r \<in> set (service_body k OpStart)}"
proof -
  have same: "map fst (ts[i := (r, st')]) = map fst ts" if "i < length ts" "ts ! i = (r, st)"
    for ts :: "(thread_role \<times> thread_state) list" and i r st st'
    using that by (simp add: map_update list_update_same_conv)
  from assms(1) show ?thesis
  proof
    assume "service_step k s s'"
    then show ?thesis
    proof (cases rule: service_step.cases)
      case (spawn op r acts)
      then show ?thesis using spawn_in_start [OF assms(2) spawn(3)] assms(3) by auto
    next
      case (join op i acts r st)
      then show ?thesis using assms(3) same [OF join(4,5)] by (simp del: set_map)
    next
      case (thread_ends i r)
      then show ?thesis using assms(3) same [OF thread_ends(3,4)] by (simp del: set_map)
    qed (use assms(3) in simp_all)
  next
    assume "service_mishap s s'"
    then show ?thesis
    proof (cases rule: service_mishap.cases)
      case (gives_up i r)
      then show ?thesis using assms(3) same [OF gives_up(3,4)] by (simp del: set_map)
    qed (use assms(3) in simp_all)
  qed
qed

lemma thread_roles:
  assumes "service_run k new_service s" "\<not> is_log k"
  shows "set (map fst (sv_threads s)) \<subseteq> {r. Spawn r \<in> set (service_body k OpStart)}"
  using assms(1)
proof induction
  case run_start
  then show ?case by (simp add: new_service_def)
next
  case (run_step s s')
  then show ?case using thread_roles_step service_run_inv [OF _ assms(2)] by blast
qed

lemma run_head: "service_step k s s1 \<or> service_mishap s s1 \<Longrightarrow> service_run k s1 s2 \<Longrightarrow> service_run k s s2"
proof (rotate_tac 1, induction rule: service_run.induct)
  case run_start
  then show ?case using service_run.run_step [OF service_run.run_start] by blast
next
  case (run_step s2 s3)
  then show ?case using service_run.run_step by blast
qed

lemma service_run_trans: "service_run k s1 s2 \<Longrightarrow> service_run k s s1 \<Longrightarrow> service_run k s s2"
  by (induction rule: service_run.induct) (auto intro: service_run.run_step)

lemma own_stop_dies:
  assumes "own_stop i s" "set (map fst (sv_threads s)) \<subseteq> {ScriptLoop}"
  shows "\<exists>s'. service_run k s s' \<and> sv_dead s'"
  using assms
proof (induction "case sv_op s of Some (op, [JoinFrom j]) \<Rightarrow> i - j | _ \<Rightarrow> 0" arbitrary: s rule: less_induct)
  case less
  show ?case
  proof (cases "sv_dead s")
    case True
    then show ?thesis using service_run.run_start by blast
  next
    case False
    with less.prems(1) obtain j where c: "sv_caller s = Some i" "\<not> sv_running s" "i < length (sv_threads s)"
        "sv_threads s ! i = (ScriptLoop, Live)" "j \<le> i" "sv_op s = Some (OpStop, [JoinFrom j])"
      unfolding own_stop_def by blast
    show ?thesis
    proof (cases "j = i")
      case True
      then have "service_mishap s (s\<lparr>sv_dead := True\<rparr>)" using service_mishap.join_self [of s] False c by auto
      then show ?thesis using run_head [OF _ service_run.run_start] by fastforce
    next
      case ji: False
      obtain st where t: "sv_threads s ! j = (ScriptLoop, st)" "j < length (sv_threads s)"
        using less.prems(2) c(3,5) nth_mem [of j "sv_threads s"] by (cases "sv_threads s ! j") force
      let ?s = "s\<lparr>sv_threads := (sv_threads s)[j := (ScriptLoop, Joined)], sv_op := Some (OpStop, [JoinFrom (Suc j)])\<rparr>"
      have "service_run k s ?s"
      proof (cases "st = Live")
        case True
        let ?f = "s\<lparr>sv_threads := (sv_threads s)[j := (ScriptLoop, Finished)]\<rparr>"
        have "service_step k s ?f" using service_step.thread_ends [of s j ScriptLoop k] False c t True ji by auto
        moreover have "service_step k ?f ?s"
          using service_step.join [of ?f OpStop j "[]" ScriptLoop Finished k] False c t by simp
        ultimately show ?thesis using run_head service_run.run_start by blast
      next
        case False
        have "service_step k s ?s" using service_step.join [of s OpStop j "[]" ScriptLoop st k] \<open>\<not> sv_dead s\<close> c t False by simp
        then show ?thesis using run_head service_run.run_start by blast
      qed
      moreover have "own_stop i ?s" using c ji False by (auto simp: own_stop_def intro!: exI [of _ "Suc j"])
      moreover have "map fst (sv_threads ?s) = map fst (sv_threads s)" using t by (simp add: map_update list_update_same_conv)
      then have "set (map fst (sv_threads ?s)) \<subseteq> {ScriptLoop}" using less.prems(2) by (simp only:)
      moreover have "i - Suc j < i - j" using c(5) ji by simp
      ultimately show ?thesis using less.hyps [of ?s] c(6) service_run_trans by fastforce
    qed
  qed
qed

text \<open>
  C20: A processor thread that fails while the machine runs calls \<open>stop\<close> in its handler; that call never
  returns: it is under way until the program has terminated, and from every state after the failure
  there is a run that terminates it, by the thread's attempt to join itself.
\<close>

theorem processor_failure_fatal:
  assumes "service_run (ProcessorService n) new_service s" "sv_caller s = Some i"
  shows "(sv_dead s \<or> (\<exists>j \<le> i. sv_op s = Some (OpStop, [JoinFrom j])))
    \<and> (\<exists>s'. service_run (ProcessorService n) s s' \<and> sv_dead s')"
proof
  have o: "own_stop i s" by (rule caller_own_stop [OF assms])
  then show "sv_dead s \<or> (\<exists>j \<le> i. sv_op s = Some (OpStop, [JoinFrom j]))" by (auto simp: own_stop_def)
  have "set (map fst (sv_threads s)) \<subseteq> {r. Spawn r \<in> set (service_body (ProcessorService n) OpStart)}"
    by (rule thread_roles [OF assms(1)]) (simp add: is_log_def)
  then have "set (map fst (sv_threads s)) \<subseteq> {ScriptLoop}" by (auto simp: service_bodies)
  from own_stop_dies [OF o this] show "\<exists>s'. service_run (ProcessorService n) s s' \<and> sv_dead s'" .
qed

subsection \<open>Runs\<close>

text \<open>A tail input with two monitor threads is started; one of its threads gives up; it is stopped.\<close>

abbreviation demo_tail :: service_kind where "demo_tail \<equiv> TailService ''t'' 1 10"

definition tail_started :: service where
  "tail_started = new_service\<lparr>sv_running := True, sv_metrics := [''inputs.t.receive_total''], sv_extra := Some (TimerLoop 10, Live),
     sv_threads := [(GuardedLoop, Live)], sv_last := Some (OpStart, None)\<rparr>"

definition tail_stopping :: service where
  "tail_stopping = tail_started\<lparr>sv_running := False, sv_op := Some (OpStop, [JoinExtra, JoinFrom 0]), sv_threads := [(GuardedLoop, Finished)]\<rparr>"

definition tail_stopped :: service where
  "tail_stopped = tail_started\<lparr>sv_running := False, sv_extra := Some (TimerLoop 10, Joined),
     sv_threads := [(GuardedLoop, Joined)], sv_last := Some (OpStop, None)\<rparr>"

lemma step_then:
  "service_run k s0 s \<Longrightarrow> service_step k s s1 \<Longrightarrow> s1 = s2 \<Longrightarrow> service_run k s0 s2"
  "service_run k s0 s \<Longrightarrow> service_mishap s s1 \<Longrightarrow> s1 = s2 \<Longrightarrow> service_run k s0 s2"
  by (auto intro: service_run.run_step)

lemma tail_runs:
  "service_run demo_tail new_service tail_stopping" "service_run demo_tail tail_stopping tail_stopped"
proof -
  have 1: "service_run demo_tail new_service (new_service\<lparr>sv_running := True,
      sv_op := Some (OpStart, [RegisterMetric ''inputs.t.receive_total'', SpawnExtra (TimerLoop 10), Spawn GuardedLoop])\<rparr>)"
    by (rule step_then(1) [OF service_run.run_start service_step.begin_start]) (simp_all add: new_service_def service_bodies)
  have 2: "service_run demo_tail new_service (new_service\<lparr>sv_running := True, sv_metrics := [''inputs.t.receive_total''],
      sv_op := Some (OpStart, [SpawnExtra (TimerLoop 10), Spawn GuardedLoop])\<rparr>)"
    by (rule step_then(1) [OF 1 service_step.register]) (simp_all add: new_service_def)
  have 3: "service_run demo_tail new_service (new_service\<lparr>sv_running := True, sv_metrics := [''inputs.t.receive_total''],
      sv_extra := Some (TimerLoop 10, Live), sv_op := Some (OpStart, [Spawn GuardedLoop])\<rparr>)"
    by (rule step_then(1) [OF 2 service_step.spawn_extra]) (simp_all add: new_service_def)
  have 4: "service_run demo_tail new_service (new_service\<lparr>sv_running := True, sv_metrics := [''inputs.t.receive_total''],
      sv_extra := Some (TimerLoop 10, Live), sv_threads := [(GuardedLoop, Live)], sv_op := Some (OpStart, [])\<rparr>)"
    by (rule step_then(1) [OF 3 service_step.spawn]) (simp_all add: new_service_def)
  have 5: "service_run demo_tail new_service tail_started"
    by (rule step_then(1) [OF 4 service_step.finish]) (simp_all add: new_service_def tail_started_def)
  have 6: "service_run demo_tail new_service (tail_started\<lparr>sv_threads := [(GuardedLoop, Finished)]\<rparr>)"
    by (rule step_then(2) [OF 5 service_mishap.gives_up [where i = 0]])
       (simp_all add: new_service_def tail_started_def may_give_up_def)
  show "service_run demo_tail new_service tail_stopping"
    by (rule step_then(1) [OF 6 service_step.begin_stop])
       (simp_all add: new_service_def tail_started_def tail_stopping_def service_bodies)
  let ?s = "tail_stopping\<lparr>sv_extra := Some (TimerLoop 10, Finished)\<rparr>"
  have a: "service_run demo_tail tail_stopping ?s"
    by (rule step_then(1) [OF service_run.run_start service_step.extra_ends])
       (simp_all add: new_service_def tail_started_def tail_stopping_def)
  let ?s = "tail_stopping\<lparr>sv_extra := Some (TimerLoop 10, Joined), sv_op := Some (OpStop, [JoinFrom 0])\<rparr>"
  have b: "service_run demo_tail tail_stopping ?s"
    by (rule step_then(1) [OF a service_step.join_extra [where r = "TimerLoop 10" and st = Finished]]) (simp_all add: new_service_def tail_started_def tail_stopping_def)
  have c: "service_run demo_tail tail_stopping (?s\<lparr>sv_threads := [(GuardedLoop, Joined)], sv_op := Some (OpStop, [JoinFrom 1])\<rparr>)"
    by (rule step_then(1) [OF b service_step.join [where i = 0 and r = GuardedLoop and st = Finished]]) (simp_all add: new_service_def tail_started_def tail_stopping_def)
  have d: "service_run demo_tail tail_stopping (?s\<lparr>sv_threads := [(GuardedLoop, Joined)], sv_op := Some (OpStop, [])\<rparr>)"
    by (rule step_then(1) [OF c service_step.join_end [where i = 1]]) (simp_all add: new_service_def tail_started_def tail_stopping_def)
  show "service_run demo_tail tail_stopping tail_stopped"
    by (rule step_then(1) [OF d service_step.finish])
       (simp_all add: new_service_def tail_started_def tail_stopping_def tail_stopped_def)
qed

lemma stopped_service_joined_witness: "all_joined tail_stopped"
  by (rule stopped_service_joined [OF service_run_trans [OF tail_runs(2,1)]])
     (simp_all add: tail_stopped_def tail_started_def new_service_def)


text \<open>A log output without threads, and a processor of one thread that fails.\<close>

lemma log_output_runs:
  "service_run (LogOutputService ''l'' 1) new_service (new_service\<lparr>sv_metrics := [''outputs.l.send_total''],
     sv_threads := [(Loop, Live)], sv_last := Some (OpStop, Some LogicError)\<rparr>)"
proof -
  let ?k = "LogOutputService ''l'' 1" and ?m = "[''outputs.l.send_total'']"
  have 1: "service_run ?k new_service (new_service\<lparr>sv_running := True,
      sv_op := Some (OpStart, [RegisterMetric ''outputs.l.send_total'', Spawn Loop])\<rparr>)"
    by (rule step_then(1) [OF service_run.run_start service_step.begin_start]) (simp_all add: new_service_def service_bodies)
  have 2: "service_run ?k new_service (new_service\<lparr>sv_running := True, sv_metrics := ?m, sv_op := Some (OpStart, [Spawn Loop])\<rparr>)"
    by (rule step_then(1) [OF 1 service_step.register]) (simp_all add: new_service_def)
  have 3: "service_run ?k new_service (new_service\<lparr>sv_running := True, sv_metrics := ?m, sv_threads := [(Loop, Live)],
      sv_op := Some (OpStart, [])\<rparr>)"
    by (rule step_then(1) [OF 2 service_step.spawn]) (simp_all add: new_service_def)
  have 4: "service_run ?k new_service (new_service\<lparr>sv_running := True, sv_metrics := ?m, sv_threads := [(Loop, Live)],
      sv_last := Some (OpStart, None)\<rparr>)"
    by (rule step_then(1) [OF 3 service_step.finish]) (simp_all add: new_service_def)
  have 5: "service_run ?k new_service (new_service\<lparr>sv_metrics := ?m, sv_threads := [(Loop, Live)],
      sv_last := Some (OpStart, None), sv_op := Some (OpStop, [CallStop, JoinFrom 0])\<rparr>)"
    by (rule step_then(1) [OF 4 service_step.begin_stop]) (simp_all add: new_service_def service_bodies)
  show ?thesis by (rule step_then(1) [OF 5 service_step.call_stop]) (simp_all add: new_service_def)
qed

lemma log_output_never_stops_witness:
  "Some (OpStop, Some LogicError) \<noteq> Some (OpStop, None) \<and> list_all (\<lambda>t. snd t \<noteq> Joined) [(Loop, Live)]"
  using log_output_never_stops [OF log_output_runs] by (simp add: new_service_def)

definition script_failed :: service where
  "script_failed = new_service\<lparr>sv_threads := [(ScriptLoop, Live)], sv_caller := Some 0, sv_last := Some (OpStart, None),
     sv_op := Some (OpStop, [JoinFrom 0])\<rparr>"

lemma script_failed_run: "service_run (ProcessorService 1) new_service script_failed"
proof -
  let ?k = "ProcessorService 1"
  have 1: "service_run ?k new_service (new_service\<lparr>sv_running := True, sv_op := Some (OpStart, [Spawn ScriptLoop])\<rparr>)"
    by (rule step_then(1) [OF service_run.run_start service_step.begin_start]) (simp_all add: new_service_def service_bodies)
  have 2: "service_run ?k new_service (new_service\<lparr>sv_running := True, sv_threads := [(ScriptLoop, Live)], sv_op := Some (OpStart, [])\<rparr>)"
    by (rule step_then(1) [OF 1 service_step.spawn]) (simp_all add: new_service_def)
  have 3: "service_run ?k new_service (new_service\<lparr>sv_running := True, sv_threads := [(ScriptLoop, Live)], sv_last := Some (OpStart, None)\<rparr>)"
    by (rule step_then(1) [OF 2 service_step.finish]) (simp_all add: new_service_def)
  show ?thesis
    by (rule step_then(2) [OF 3 service_mishap.script_fails [where i = 0]])
       (simp_all add: new_service_def script_failed_def ProcessorMachine_stopImpl_def)
qed

lemma processor_failure_fatal_witness:
  "\<exists>s'. service_run (ProcessorService 1) script_failed s' \<and> sv_dead s'"
  by (rule conjunct2 [OF processor_failure_fatal [OF script_failed_run]]) (simp add: script_failed_def)

subsection \<open>The module of the tail inputs\<close>

text \<open>The operations on the position server and on the inotify server, in order, up to the first that throws.\<close>

definition then_do :: "('s \<Rightarrow> 's \<times> exn_class option) \<Rightarrow> ('s \<Rightarrow> 's \<times> exn_class option) \<Rightarrow> 's \<Rightarrow> 's \<times> exn_class option" where
  "then_do f g s = (case f s of (s', Some e) \<Rightarrow> (s', Some e) | (s', None) \<Rightarrow> g s')"

definition on_first :: "'p impl_fun \<Rightarrow> 'p task \<times> 'q \<Rightarrow> ('p task \<times> 'q) \<times> exn_class option" where
  "on_first f s = (case f (fst s) of (t, e) \<Rightarrow> ((t, snd s), e))"

definition on_second :: "'q impl_fun \<Rightarrow> 'p \<times> 'q task \<Rightarrow> ('p \<times> 'q task) \<times> exn_class option" where
  "on_second f s = (case f (snd s) of (t, e) \<Rightarrow> ((fst s, t), e))"

definition tail_module_startImpl :: "(task_op \<Rightarrow> 'p impl_fun) \<Rightarrow> (task_op \<Rightarrow> 'q impl_fun) \<Rightarrow> ('p task \<times> 'q task) mod_hook" where
  "tail_module_startImpl positions inotify =
     then_do (on_first (task_init (positions OpInit)))
       (then_do (on_first (task_start (positions OpStart)))
         (then_do (on_second (task_init (inotify OpInit))) (on_second (task_start (inotify OpStart)))))"

definition tail_module_stopImpl :: "(task_op \<Rightarrow> 'p impl_fun) \<Rightarrow> (task_op \<Rightarrow> 'q impl_fun) \<Rightarrow> ('p task \<times> 'q task) mod_hook" where
  "tail_module_stopImpl positions inotify =
     then_do (on_first (task_stop (positions OpStop))) (on_second (task_stop (inotify OpStop)))"

text \<open>
  With hooks that do not throw, the first tail input that starts the module starts both servers, the
  others do nothing, and so it is with the stop.
\<close>

lemma tail_module_starts:
  assumes "positions = (\<lambda>_. plain_hook (\<lambda>x. (x, None)))" "inotify = (\<lambda>_. plain_hook (\<lambda>x. (x, None)))"
    and "m = \<lparr>inited_flag = True, started_flag = False, stopped_flag = False, mod_impl = (new_task p, new_task q)\<rparr>"
  shows "start_n (Suc n) (tail_module_startImpl positions inotify) m
    = m\<lparr>started_flag := True, mod_impl := (\<lparr>m_inited = True, m_started = True, impl = p\<rparr>, \<lparr>m_inited = True, m_started = True, impl = q\<rparr>)\<rparr>"
  by (rule module_start_once)
     (simp_all add: assms tail_module_startImpl_def then_do_def on_first_def on_second_def task_init_def task_start_def
       plain_hook_def new_task_def)

text \<open>
  When the saved positions cannot be read, the module does not count as started, but a second attempt
  cannot succeed: the position server is initialised already and refuses. Inotify is never started.
\<close>

lemma tail_module_retry_fails:
  assumes "positions OpInit ((new_task p)\<lparr>m_inited := True\<rparr>) = (t, Some e)" "m_inited t"
    and "m = \<lparr>inited_flag = True, started_flag = False, stopped_flag = False, mod_impl = (new_task p, q)\<rparr>"
    and "module_start (tail_module_startImpl positions inotify) m = (m1, r1)"
  shows "r1 \<noteq> None \<and> snd (module_start (tail_module_startImpl positions inotify) m1) = Some LogicError
    \<and> snd (mod_impl (fst (module_start (tail_module_startImpl positions inotify) m1))) = q"
  using assms by (auto simp: module_start_def tail_module_startImpl_def then_do_def on_first_def task_init_def new_task_def)

subsection \<open>A program with a log output\<close>

lemma for_each_throws:
  "for_each f pre = (pre', None) \<Longrightarrow> f x = (x', Some e) \<Longrightarrow> for_each f (pre @ x # post) = (pre' @ x' # post, Some e)"
  by (induction pre arbitrary: pre') (auto split: prod.splits option.splits)

lemma log_stop_throws: "m_started t \<Longrightarrow> task_stop (log_stopImpl inner) t = (t\<lparr>m_started := False\<rparr>, Some LogicError)"
  by (simp add: task_stop_def log_stopImpl_def)

lemma run_ops_then: "run_ops h a w = (w', None) \<Longrightarrow> run_ops h (a @ b) w = run_ops h b w'"
  by (induction a w rule: run_ops.induct) (auto split: prod.splits option.splits)

text \<open>
  C21: A program that has a log output among its outputs cannot be shut down cleanly. When the signal
  comes, the metrics and the inputs are stopped, then the outputs up to the log output; its stop throws,
  which ends the stop of the program: the outputs behind it are not stopped and their threads keep
  running, as do those of the output server and, with scripts, the processor, and \<open>main\<close> returns 1.
\<close>

theorem log_output_fails_program_stop:
  assumes "run_ops h (start_plan wp) w = (w1, None)"
    and "run_ops h [(P_metrics, OpStop), (P_inputs, OpStop)] w1 = (w2, None)"
    and "h P_outputs OpStop = output_server_hook members OpStop"
    and "m_started (w2 P_outputs)" "ms_members (impl (w2 P_outputs)) = pre @ log # post"
    and "for_each (task_stop (members OpStop)) pre = (pre', None)"
    and "m_started log" "members OpStop (log\<lparr>m_started := False\<rparr>) = log_stopImpl inner (log\<lparr>m_started := False\<rparr>)"
  shows "\<exists>t. IQLogger_run h wp True w = Some (t, Some LogicError)
    \<and> main_exit \<lparr>cl_error = None, cl_help = False, cl_version = False, cl_config = Some file, cl_check = False\<rparr>
        (\<lambda>_ _. Inr True) (IQLogger_run h wp True w) = Some 1
    \<and> ms_members (impl (impl t P_outputs)) = pre' @ log\<lparr>m_started := False\<rparr> # post
    \<and> ms_threads (impl (impl t P_outputs)) = ms_threads (impl (w2 P_outputs))
    \<and> impl t P_processor = w2 P_processor"
proof -
  let ?o = "w2 P_outputs" and ?log = "log\<lparr>m_started := False\<rparr>"
  let ?s = "(impl ?o)\<lparr>ms_members := pre' @ ?log # post\<rparr>"
  have "task_stop (members OpStop) log = (?log, Some LogicError)"
    using assms(7,8) log_stop_throws [of log inner] by (simp add: task_stop_def)
  from for_each_throws [OF assms(6) this] have "output_server_hook members OpStop (impl ?o) = (?s, Some LogicError)"
    by (simp add: output_server_hook_def with_members_def assms(5))
  then have "task_step (h P_outputs) OpStop ?o = (?o\<lparr>m_started := False, impl := ?s\<rparr>, Some LogicError)"
    using assms(3,4) by (simp add: task_step_def task_stop_def plain_hook_def)
  then have "run_ops h (stop_plan wp) w1 = (w2(P_outputs := ?o\<lparr>m_started := False, impl := ?s\<rparr>), Some LogicError)"
    using run_ops_then [OF assms(2), of "(P_outputs, OpStop) # (if wp then [(P_processor, OpStop)] else [])"]
    by (simp add: stop_plan_def)
  with assms(1) have "IQLogger_run h wp True w
      = Some (\<lparr>m_inited = True, m_started = False, impl = w2(P_outputs := ?o\<lparr>m_started := False, impl := ?s\<rparr>)\<rparr>, Some LogicError)"
    by (simp add: IQLogger_run_def task_init_def new_task_def task_start_def IQLogger_startImpl_def
        task_stop_def IQLogger_stopImpl_def plain_hook_def)
  then show ?thesis by (simp add: main_exit_def)
qed

text \<open>A GELF output and a log output; the state of an output is whether its threads are joined.\<close>

definition log_members :: "task_op \<Rightarrow> bool impl_fun" where
  "log_members op t =
     (if op = OpStop then (if impl t then gelf_stopImpl t else log_stopImpl gelf_stopImpl t) else (t, None))"

definition log_hooks :: "(bool, unit) member_server part_hooks" where
  "log_hooks p op = (if p = P_outputs then output_server_hook log_members op else (\<lambda>s. (s, None)))"

definition log_world :: "(bool, unit) member_server world" where
  "log_world _ = new_task \<lparr>ms_members = [new_task True, new_task False], ms_modules = [], ms_module_of = [],
     ms_thread_num = 2, ms_threads = 0\<rparr>"

lemma log_output_fails_program_stop_witness:
  "\<exists>t. IQLogger_run log_hooks True True log_world = Some (t, Some LogicError)
    \<and> ms_members (impl (impl t P_outputs)) = [\<lparr>m_inited = True, m_started = False, impl = True\<rparr>, \<lparr>m_inited = True, m_started = False, impl = False\<rparr>]
    \<and> ms_threads (impl (impl t P_outputs)) = 2 \<and> m_started (impl t P_processor)"
proof -
  let ?t = "\<lambda>on b. \<lparr>m_inited = True, m_started = on, impl = (b :: bool)\<rparr>"
  let ?s = "\<lambda>on n. \<lparr>ms_members = [?t on True, ?t on False], ms_modules = [], ms_module_of = [], ms_thread_num = 2, ms_threads = n\<rparr>"
  let ?i = "\<lparr>ms_members = [new_task True, new_task False], ms_modules = [], ms_module_of = [], ms_thread_num = 2, ms_threads = 0\<rparr>"
  let ?p = "\<lambda>on. \<lparr>m_inited = True, m_started = on, impl = ?i\<rparr>"
  let ?w = "\<lambda>on. log_world(P_processor := ?p True, P_inputs := ?p on, P_outputs := \<lparr>m_inited = True, m_started = True, impl = ?s True 2\<rparr>,
      P_metrics := ?p on)"
  have r: "run_ops log_hooks (start_plan True) log_world = (?w True, None)"
    by (simp add: start_plan_def task_step_def task_init_def task_start_def plain_hook_def log_hooks_def log_world_def
        output_server_hook_def with_members_def log_members_def new_task_def fun_eq_iff)
  have q: "run_ops log_hooks [(P_metrics, OpStop), (P_inputs, OpStop)] (?w True) = (?w False, None)"
    by (simp add: task_step_def task_stop_def plain_hook_def log_hooks_def fun_eq_iff)
  have h: "log_hooks P_outputs OpStop = output_server_hook log_members OpStop" by (simp add: log_hooks_def)
  have m: "for_each (task_stop (log_members OpStop)) [?t True True] = ([?t False True], None)"
    by (simp add: task_stop_def log_members_def gelf_stopImpl_def)
  have l: "log_members OpStop ((?t True False)\<lparr>m_started := False\<rparr>) = log_stopImpl gelf_stopImpl ((?t True False)\<lparr>m_started := False\<rparr>)"
    by (simp add: log_members_def)
  from log_output_fails_program_stop [OF r q h _ _ m _ l, of "[]" "''c''"] show ?thesis by auto
qed

end
