(* ===== verification/IQ_Construct.thy ===== *)
theory IQ_Construct
  imports IQ_Services IQ_Net_Inputs IQ_Journal IQ_Input
begin

text \<open>
  The construction of the inputs and outputs from the configuration: the switch over the types that
  are compiled in (src/utils/TypeTraits.h, src/inputs/InputInterface.h, src/outputs/OutputInterface.h),
  the registration of the scripts with the processor (src/inputs/InputInterface.cpp.in), the two servers
  (src/InputServer.cpp, src/OutputServer.cpp), and the service (IQ_Services) each becomes.
\<close>

subsection \<open>The switch\<close>

text \<open>The branch of the first key that is equal runs, no other; a branch is what it returns or throws.\<close>

fun make_switch :: "'r \<Rightarrow> ('k \<times> 'r) list \<Rightarrow> 'k \<Rightarrow> 'r" where
  "make_switch dflt [] x = dflt"
| "make_switch dflt ((k, r) # ps) x = (if x = k then r else make_switch dflt ps x)"

lemma make_switch_map_of: "make_switch dflt ps x = (case map_of ps x of None \<Rightarrow> dflt | Some r \<Rightarrow> r)"
  by (induction ps) auto

lemma make_switch_map: "make_switch dflt (map (\<lambda>k. (k, f k)) ks) x = (if x \<in> set ks then f x else dflt)"
  by (induction ks) auto

subsection \<open>Inputs\<close>

datatype 'j any_input = NetInput net_input | TailIn tail_input | JournalIn 'j | DummyIn dummy_input

record ('i, 'j) built_input =
  bi_input :: "'i input"
  bi_kind :: "'j any_input"
  bi_threads :: "64 word"

text \<open>
  What the constructors call: \<open>en_listen\<close> opens the socket of a network input, \<open>en_watch\<close> makes the
  monitor of a tail input with its watch; each may throw.
\<close>

record ('d, 'i, 'j) input_env =
  en_json :: "'d json_lib"
  en_regex :: "string \<Rightarrow> (string \<Rightarrow> nat list) option"
  en_journal :: "'j journal_lib"
  en_short :: "'d json \<Rightarrow> int outcome"
  en_interval :: "'d json \<Rightarrow> int outcome"
  en_listen :: "net_input \<Rightarrow> exn_class option"
  en_watch :: "tail_input \<Rightarrow> exn_class option"
  en_queue :: 'i

text \<open>The base class registers the script; what it has registered stays when the rest throws.\<close>

definition InputInterface :: "'d source_config \<Rightarrow> 'q processor_machine \<Rightarrow> 'q processor_machine \<times> 16 word option" where
  "InputInterface c pm =
     (case sc_processor c of
        None \<Rightarrow> (pm, None)
      | Some source \<Rightarrow> (case addProcessor source pm of (pm', i) \<Rightarrow> (pm', Some i)))"

definition with_base :: "('d, 'i, 'j) input_env \<Rightarrow> 'd source_config \<Rightarrow> 'j any_input run_result \<Rightarrow> 'q processor_machine
    \<Rightarrow> 'q processor_machine \<times> ('i, 'j) built_input run_result" where
  "with_base E c r pm =
     (case InputInterface c pm of
        (pm', script) \<Rightarrow>
          (pm', case r of
             Returned x \<Rightarrow> Returned \<lparr>bi_input = Input (sc_name c) c (en_queue E) script, bi_kind = x, bi_threads = sc_threads c\<rparr>
           | Threw e \<Rightarrow> Threw e
           | Aborted \<Rightarrow> Aborted))"

definition throwing :: "exn_class option \<Rightarrow> 'a \<Rightarrow> 'a run_result" where
  "throwing e x = (case e of None \<Rightarrow> Returned x | Some e \<Rightarrow> Threw e)"

definition listening :: "('d, 'i, 'j) input_env \<Rightarrow> net_input outcome \<Rightarrow> 'j any_input run_result" where
  "listening E r = (case r of Inl e \<Rightarrow> Threw e | Inr n \<Rightarrow> throwing (en_listen E n) (NetInput n))"

text \<open>The two network inputs look at the protocol before anything is constructed.\<close>

definition knows_protocol :: "'d source_config \<Rightarrow> bool" where
  "knows_protocol c =
     (case getParam protocol_from_json (sc_params c) ''protocol'' of Some p \<Rightarrow> p = PR_UDP \<or> p = PR_TCP | None \<Rightarrow> False)"

definition instantiateInput :: "('d, 'i, 'j) input_env \<Rightarrow> 'd source_config \<Rightarrow> 'q processor_machine \<Rightarrow> input_type
    \<Rightarrow> 'q processor_machine \<times> ('i, 'j) built_input run_result" where
  "instantiateInput E c pm t =
     (case t of
        IN_GELF \<Rightarrow>
          (if knows_protocol c then with_base E c (listening E (instantiate_gelf (en_json E) c)) pm else (pm, Threw IqException))
      | IN_JSON \<Rightarrow>
          (if knows_protocol c then with_base E c (listening E (instantiate_json (en_json E) c)) pm else (pm, Threw IqException))
      | IN_TAIL \<Rightarrow>
          with_base E c (case TailInput (en_json E) (en_regex E) c of
             Returned t \<Rightarrow> throwing (en_watch E t) (TailIn t) | Threw e \<Rightarrow> Threw e | Aborted \<Rightarrow> Aborted) pm
      | IN_JOURNAL \<Rightarrow>
          with_base E c (case JournalInput (en_json E) (en_journal E) c of Inl e \<Rightarrow> Threw e | Inr j \<Rightarrow> Returned (JournalIn j)) pm
      | IN_DUMMY \<Rightarrow>
          with_base E c (case DummyInput (en_json E) (en_short E) (en_interval E) c of
             Inl e \<Rightarrow> Threw e | Inr d \<Rightarrow> Returned (DummyIn d)) pm
      | IN_UNDEFINED \<Rightarrow> (pm, Threw IqException))"

text \<open>\<open>types\<close> is the list of input types that are compiled in.\<close>

definition instantiate_input :: "input_type list \<Rightarrow> ('d, 'i, 'j) input_env \<Rightarrow> 'd source_config \<Rightarrow> 'q processor_machine
    \<Rightarrow> 'q processor_machine \<times> ('i, 'j) built_input run_result" where
  "instantiate_input types E c pm =
     make_switch (pm, Threw IqException) (map (\<lambda>t. (t, instantiateInput E c pm t)) types) (sc_type c)"

fun make_inputs :: "input_type list \<Rightarrow> ('d, 'i, 'j) input_env \<Rightarrow> 'd source_config list \<Rightarrow> 'q processor_machine
    \<Rightarrow> 'q processor_machine \<times> ('i, 'j) built_input list run_result" where
  "make_inputs types E [] pm = (pm, Returned [])"
| "make_inputs types E (c # cs) pm =
     (case instantiate_input types E c pm of
        (pm1, Returned i) \<Rightarrow>
          (case make_inputs types E cs pm1 of
             (pm2, Returned is) \<Rightarrow> (pm2, Returned (i # is))
           | (pm2, r) \<Rightarrow> (pm2, r))
      | (pm1, Threw e) \<Rightarrow> (pm1, Threw e)
      | (pm1, Aborted) \<Rightarrow> (pm1, Aborted))"

record ('i, 'j) new_input_server =
  is_thread_num :: "64 word"
  is_members :: "('i, 'j) built_input list"

definition InputServer :: "input_type list \<Rightarrow> ('d, 'i, 'j) input_env \<Rightarrow> 'd input_config \<Rightarrow> 'q processor_machine
    \<Rightarrow> 'q processor_machine \<times> ('i, 'j) new_input_server run_result" where
  "InputServer types E config pm =
     (case make_inputs types E (ic_sources config) pm of
        (pm', Returned is) \<Rightarrow> (pm', Returned \<lparr>is_thread_num = ic_threads config, is_members = is\<rparr>)
      | (pm', Threw e) \<Rightarrow> (pm', Threw e)
      | (pm', Aborted) \<Rightarrow> (pm', Aborted))"

text \<open>What runs when the input is started (IQ_Services).\<close>

definition input_service :: "('i, 'j) built_input \<Rightarrow> service_kind" where
  "input_service b =
     (let name = in_name (bi_input b); n = unat (bi_threads b)
      in case bi_kind b of
           NetInput (GelfUdp ttl port) \<Rightarrow> UdpGelfService name n
         | NetInput _ \<Rightarrow> IoInputService name n
         | TailIn t \<Rightarrow> TailService name n (ti_read_timeout t)
         | JournalIn j \<Rightarrow> IoInputService name n
         | DummyIn d \<Rightarrow> DummyService name)"

subsection \<open>Outputs\<close>

record 'o built_output =
  bo_output :: "'o output_state"
  bo_kind :: any_output
  bo_threads :: "64 word"

fun make_outputs :: "output_type list \<Rightarrow> 'd json_lib \<Rightarrow> 'o \<Rightarrow> 'd destination_config list \<Rightarrow> 'o built_output list outcome" where
  "make_outputs types L q [] = Inr []"
| "make_outputs types L q (c # cs) =
     and_then (instantiate_output types L c) (\<lambda>k.
     and_then (make_outputs types L q cs) (\<lambda>os.
       Inr (\<lparr>bo_output = Output c q, bo_kind = k, bo_threads = dc_threads c\<rparr> # os)))"

record 'o new_output_server =
  os_thread_num :: "64 word"
  os_members :: "'o built_output list"

definition OutputServer :: "output_type list \<Rightarrow> 'd json_lib \<Rightarrow> 'o \<Rightarrow> 64 word \<Rightarrow> 'd destination_config list
    \<Rightarrow> 'o new_output_server outcome" where
  "OutputServer types L q threads destinations =
     and_then (make_outputs types L q destinations) (\<lambda>os. Inr \<lparr>os_thread_num = threads, os_members = os\<rparr>)"

definition output_service :: "'o built_output \<Rightarrow> service_kind" where
  "output_service b =
     (let name = out_name (bo_output b); n = unat (bo_threads b)
      in case bo_kind b of AnyGelf g \<Rightarrow> GelfOutputService name n | AnyLog \<Rightarrow> LogOutputService name n)"

subsection \<open>Every input runs its own script\<close>

text \<open>An input belongs to its configuration, and its index to its script.\<close>

definition input_for :: "string list \<Rightarrow> 'd source_config \<Rightarrow> ('i, 'j) built_input \<Rightarrow> bool" where
  "input_for scripts c b \<longleftrightarrow> in_name (bi_input b) = sc_name c \<and> bi_threads b = sc_threads c
     \<and> (case sc_processor c of
          None \<Rightarrow> in_processor (bi_input b) = None
        | Some source \<Rightarrow> (\<exists>n < length scripts. in_processor (bi_input b) = Some (of_nat n) \<and> scripts ! n = source))"

lemma input_for_more: "input_for scripts c b \<Longrightarrow> prefix scripts scripts' \<Longrightarrow> input_for scripts' c b"
  by (auto simp: input_for_def prefix_def nth_append split: option.splits intro: trans_less_add1)

lemma with_base_Returned:
  assumes "with_base E c r pm = (pm', Returned b)"
  shows "prefix (m_scriptSources pm) (m_scriptSources pm') \<and> input_for (m_scriptSources pm') c b"
proof (cases "sc_processor c")
  case None
  with assms show ?thesis by (auto simp: with_base_def InputInterface_def input_for_def Input_def split: run_result.splits)
next
  case (Some source)
  with assms show ?thesis
    by (auto simp: with_base_def InputInterface_def addProcessor_def input_for_def Input_def split: run_result.splits
        intro!: exI [of _ "length (m_scriptSources pm)"])
qed

lemma instantiate_input_Returned:
  "instantiate_input types E c pm = (pm', Returned b) \<Longrightarrow>
   prefix (m_scriptSources pm) (m_scriptSources pm') \<and> input_for (m_scriptSources pm') c b"
  unfolding instantiate_input_def make_switch_map
  by (auto simp: instantiateInput_def split: if_splits input_type.splits dest!: with_base_Returned)

lemma make_inputs_Returned:
  "make_inputs types E cs pm = (pm', Returned bs) \<Longrightarrow>
   prefix (m_scriptSources pm) (m_scriptSources pm') \<and> list_all2 (input_for (m_scriptSources pm')) cs bs"
proof (induction cs arbitrary: pm bs)
  case (Cons c cs)
  then obtain pm1 b bs1 where b: "instantiate_input types E c pm = (pm1, Returned b)"
      "make_inputs types E cs pm1 = (pm', Returned bs1)" "bs = b # bs1"
    by (auto split: prod.splits run_result.splits)
  from instantiate_input_Returned [OF b(1)] Cons.IH [OF b(2)] show ?case
    using b(3) input_for_more prefix_order.trans by auto
qed simp

text \<open>
  C22: Once the input server is constructed, its inputs are those of the configuration, in order, and the
  index of an input designates in every thread of the processor exactly the script its configuration
  names; an input without a script sends nothing to the processor.
\<close>

theorem inputs_run_their_scripts:
  assumes "InputServer types E config pm = (pm', Returned srv)" "thread_scripts (m_scriptSources pm') = Some sm"
  shows "list_all2 (\<lambda>c b. in_name (bi_input b) = sc_name c \<and>
      (case sc_processor c of
         None \<Rightarrow> in_processor (bi_input b) = None
       | Some source \<Rightarrow> \<exists>i. in_processor (bi_input b) = Some i \<and> map_of sm i = Some source))
    (ic_sources config) (is_members srv)"
proof -
  have "make_inputs types E (ic_sources config) pm = (pm', Returned (is_members srv))"
    using assms(1) by (auto simp: InputServer_def split: prod.splits run_result.splits)
  from make_inputs_Returned [OF this]
  have all: "list_all2 (input_for (m_scriptSources pm')) (ic_sources config) (is_members srv)" by simp
  have sm: "length (m_scriptSources pm') < 2 ^ 16" "sm = map (\<lambda>i. (of_nat i, m_scriptSources pm' ! i)) [0..<length (m_scriptSources pm')]"
    using assms(2) by (simp_all add: thread_scripts_def split: if_splits)
  have "map_of sm (of_nat n) = Some (m_scriptSources pm' ! n)" if "n < length (m_scriptSources pm')" for n
    unfolding sm(2) by (rule map_of_indexed) (use that sm(1) in simp_all)
  with all show ?thesis
    by (elim list_all2_mono) (auto simp: input_for_def split: option.splits)
qed

lemma input_service_joins: "input_service b \<noteq> LogOutputService name n"
  by (auto simp: input_service_def Let_def split: any_input.splits net_input.splits)

text \<open>Two generators, the second with a script; the processor has one script already.\<close>

definition dummy_source :: "string \<Rightarrow> string option \<Rightarrow> int source_config" where
  "dummy_source name script = \<lparr>sc_type = IN_DUMMY, sc_name = name, sc_threads = 1, sc_processor = script,
     sc_params = [], sc_max_queue_size = 10, sc_overflow_strategy = OV_DROP, sc_checker = IN_DUMMY\<rparr>"

definition dummy_env :: "(int, nat list, (string list \<times> 64 word) list) input_env" where
  "dummy_env = \<lparr>en_json = show_lib, en_regex = (\<lambda>_. None), en_journal = list_journal, en_short = (\<lambda>_. Inr 5),
     en_interval = (\<lambda>_. Inr 1000), en_listen = (\<lambda>_. None), en_watch = (\<lambda>_. None), en_queue = []\<rparr>"

lemma inputs_run_their_scripts_witness:
  "\<exists>pm srv i. InputServer [IN_TAIL, IN_DUMMY] dummy_env \<lparr>ic_threads = 1, ic_sources = [dummy_source ''a'' None, dummy_source ''b'' (Some ''s'')]\<rparr>
      (fst (addProcessor ''r'' (ProcessorMachine ()))) = (pm, Returned srv)
    \<and> map (\<lambda>b. in_name (bi_input b)) (is_members srv) = [''a'', ''b'']
    \<and> in_processor (bi_input (is_members srv ! 1)) = Some i
    \<and> map_of [(0, ''r''), (1, ''s'')] i = Some ''s''"
proof -
  let ?c = "\<lparr>ic_threads = 1, ic_sources = [dummy_source ''a'' None, dummy_source ''b'' (Some ''s'')]\<rparr>"
  let ?pm = "fst (addProcessor ''r'' (ProcessorMachine ()))"
  let ?pm' = "fst (addProcessor ''s'' ?pm)"
  obtain srv where s: "InputServer [IN_TAIL, IN_DUMMY] dummy_env ?c ?pm = (?pm', Returned srv)"
    by (simp add: InputServer_def instantiate_input_def instantiateInput_def with_base_def InputInterface_def dummy_source_def
        DummyInput_def getParam_def and_then_def dummy_env_def addProcessor_def ProcessorMachine_def)
  have "thread_scripts (m_scriptSources ?pm') = Some [(0, ''r''), (1, ''s'')]"
    by (simp add: thread_scripts_def addProcessor_def ProcessorMachine_def upt_rec)
  from inputs_run_their_scripts [OF s this] obtain b1 b2 where
      "is_members srv = [b1, b2]" "in_name (bi_input b1) = ''a''" "in_name (bi_input b2) = ''b''"
      "\<exists>i. in_processor (bi_input b2) = Some i \<and> map_of [(0 :: 16 word, ''r''), (1, ''s'')] i = Some ''s''"
    by (auto simp: list_all2_Cons1 dummy_source_def)
  with s show ?thesis by auto
qed

end
