(* ===== verification/IQ_Lifetime.thy ===== *)
theory IQ_Lifetime
  imports IQ_Construct IQ_Telegraf
begin

text \<open>
  The instances a program has one of (src/core/Singleton.h): which constructor asks for which other
  instance and what in it may throw, the order in which they are completed, also by several threads, and
  the order in which they are destroyed when the program ends; the start and the end of the script engine
  (src/processor/v8/Engine.cpp) and the isolates between them; the name of the host.
\<close>

subsection \<open>Instances\<close>

datatype singleton =
    ConfigManagerI | LoggerI | MetricsControllerI | MainMessageQueueI | ProcessorMachineI | EngineI | ConsoleI
  | InputServerI | OutputServerI | InotifyServerI | SavePositionServerI | ModuleI input_type | IQLoggerI

instance input_type :: finite
proof
  have "(UNIV :: input_type set) = {IN_UNDEFINED, IN_TAIL, IN_JOURNAL, IN_GELF, IN_JSON, IN_DUMMY}"
    using input_type.exhaust by auto
  then show "finite (UNIV :: input_type set)" by (metis finite.emptyI finite.insertI)
qed

instance singleton :: finite
proof
  have all: "(UNIV :: singleton set) = {ConfigManagerI, LoggerI, MetricsControllerI, MainMessageQueueI, ProcessorMachineI,
      EngineI, ConsoleI, InputServerI, OutputServerI, InotifyServerI, SavePositionServerI, IQLoggerI} \<union> range ModuleI"
    using singleton.exhaust by auto
  show "finite (UNIV :: singleton set)" unfolding all by simp
qed

text \<open>
  What a constructor does, as far as instances are concerned: it asks for one, or does something else that
  may throw or have no defined result.
\<close>

datatype ctor_act = Get singleton | Attempt "unit run_result"

text \<open>
  \<open>getInstance\<close> is a static variable of a function: it is initialised by the first call, again by the next
  one when the constructor has thrown, and a call from within its own initialisation has no defined
  result. The state is the list of the completed instances, the newest first; \<open>opened\<close> are those whose
  constructors are running.
\<close>

function getInstances :: "(singleton \<Rightarrow> ctor_act list) \<Rightarrow> singleton list \<Rightarrow> ctor_act list \<Rightarrow> singleton list
    \<Rightarrow> singleton list \<times> unit run_result" where
  "getInstances ctor opened [] st = (st, Returned ())"
| "getInstances ctor opened (Attempt r # as) st =
     (case r of Returned _ \<Rightarrow> getInstances ctor opened as st | _ \<Rightarrow> (st, r))"
| "getInstances ctor opened (Get c # as) st =
     (if c \<in> set st then getInstances ctor opened as st
      else if c \<in> set opened then (st, Aborted)
      else
        (case getInstances ctor (c # opened) (ctor c) st of
           (st1, Returned _) \<Rightarrow> getInstances ctor opened as (c # st1)
         | (st1, r) \<Rightarrow> (st1, r)))"
  by pat_completeness auto

termination
proof (relation "measures [\<lambda>(_, opened, _, _). card (- set opened), \<lambda>(_, _, as, _). length as]")
  fix c and opened :: "singleton list"
  assume "c \<notin> set opened"
  then have "- insert c (set opened) \<subset> - set opened" by auto
  then show "((ctor, c # opened, ctor c, st1), ctor, opened, Get c # as, st)
      \<in> measures [\<lambda>(_, opened, _, _). card (- set opened), \<lambda>(_, _, as, _). length as]" for ctor as st st1
    by (simp add: psubset_card_mono)
qed simp_all

text \<open>Several threads: whichever instance is completed next, its constructor has asked for the others before.\<close>

inductive completed :: "(singleton \<Rightarrow> ctor_act list) \<Rightarrow> singleton list \<Rightarrow> singleton list \<Rightarrow> bool" for ctor where
  "c \<notin> set st \<Longrightarrow> (\<forall>d. Get d \<in> set (ctor c) \<longrightarrow> d \<in> set st) \<Longrightarrow> completed ctor st (c # st)"

text \<open>
  The end of the program releases the instances in the reverse order of their completion. It has a
  defined result when each destructor finds the instances it uses alive, and when no instance alive still
  holds a pointer to the one released, which is then really destroyed.
\<close>

fun torn_down :: "(singleton \<Rightarrow> singleton list) \<Rightarrow> (singleton \<Rightarrow> singleton list) \<Rightarrow> singleton list \<Rightarrow> bool" where
  "torn_down dtor holds [] \<longleftrightarrow> True"
| "torn_down dtor holds (c # st) \<longleftrightarrow>
     set (dtor c) \<subseteq> set st \<and> list_all (\<lambda>d. c \<notin> set (holds d)) st \<and> torn_down dtor holds st"

subsection \<open>The constructors\<close>

text \<open>
  What the constructors meet outside: the inputs as in IQ_Construct, what opening the acceptor of an export
  server throws, and what the descriptor of inotify throws.
\<close>

record ('d, 'i, 'j) life_env =
  lf_inputs :: "('d, 'i, 'j) input_env"
  lf_input_types :: "input_type list"
  lf_output_types :: "output_type list"
  lf_open_export :: "export_server \<Rightarrow> exn_class option"
  lf_inotify :: "exn_class option"

definition ctor_attempt :: "'a run_result \<Rightarrow> ctor_act" where
  "ctor_attempt r = Attempt (case r of Returned _ \<Rightarrow> Returned () | Threw e \<Rightarrow> Threw e | Aborted \<Rightarrow> Aborted)"

definition run_of :: "'a outcome \<Rightarrow> 'a run_result" where
  "run_of r = (case r of Inl e \<Rightarrow> Threw e | Inr x \<Rightarrow> Returned x)"

text \<open>The metrics of a queue are registered by its constructor.\<close>

definition MessageQueue_uses :: "ctor_act list" where
  "MessageQueue_uses = [Get MetricsControllerI]"

definition export_result :: "('d, 'i, 'j) life_env \<Rightarrow> 'd stats_entry_config \<Rightarrow> unit run_result" where
  "export_result E x =
     (case instantiate_export (en_json (lf_inputs E)) x of
        Inl e \<Rightarrow> Threw e
      | Inr server \<Rightarrow> throwing (lf_open_export E server) ())"

definition MetricsController_uses :: "('d, 'i, 'j) life_env \<Rightarrow> 'd config \<Rightarrow> ctor_act list" where
  "MetricsController_uses E c =
     Get ConfigManagerI # concat (map (\<lambda>x. [Get LoggerI, Attempt (export_result E x)]) (st_exports (cf_stats c)))"

definition ProcessorMachine_uses :: "ctor_act list" where
  "ProcessorMachine_uses = Get ConfigManagerI # MessageQueue_uses @ [Get LoggerI]"

definition Input_uses :: "'d source_config \<Rightarrow> ctor_act list" where
  "Input_uses s =
     [Get LoggerI] @ (case sc_processor s of None \<Rightarrow> [] | Some _ \<Rightarrow> [Get ProcessorMachineI]) @ MessageQueue_uses"

definition TailMonitor_uses :: "('d, 'i, 'j) life_env \<Rightarrow> tail_input \<Rightarrow> ctor_act list" where
  "TailMonitor_uses E t =
     MessageQueue_uses @ [Get LoggerI, Get InotifyServerI, ctor_attempt (throwing (en_watch (lf_inputs E) t) ())]"

definition TailInput_uses :: "('d, 'i, 'j) life_env \<Rightarrow> 'd source_config \<Rightarrow> ctor_act list" where
  "TailInput_uses E s =
     (case TailInput (en_json (lf_inputs E)) (en_regex (lf_inputs E)) s of
        Returned t \<Rightarrow> TailMonitor_uses E t
      | Threw e \<Rightarrow> [Attempt (Threw e)]
      | Aborted \<Rightarrow> [Attempt Aborted])"

definition source_uses :: "('d, 'i, 'j) life_env \<Rightarrow> 'd source_config \<Rightarrow> ctor_act list" where
  "source_uses E s =
     (let I = lf_inputs E
      in Get LoggerI #
        (if sc_type s \<notin> set (lf_input_types E) then [Attempt (Threw IqException)]
         else
           (case sc_type s of
              IN_GELF \<Rightarrow>
                (if knows_protocol s then Input_uses s @ [ctor_attempt (listening I (instantiate_gelf (en_json I) s))]
                 else [Attempt (Threw IqException)])
            | IN_JSON \<Rightarrow>
                (if knows_protocol s then Input_uses s @ [ctor_attempt (listening I (instantiate_json (en_json I) s))]
                 else [Attempt (Threw IqException)])
            | IN_TAIL \<Rightarrow> Input_uses s @ TailInput_uses E s
            | IN_JOURNAL \<Rightarrow> Input_uses s @ [ctor_attempt (run_of (JournalInput (en_json I) (en_journal I) s))]
            | IN_DUMMY \<Rightarrow>
                Input_uses s @ [ctor_attempt (run_of (DummyInput (en_json I) (en_short I) (en_interval I) s))]
            | IN_UNDEFINED \<Rightarrow> [Attempt (Threw IqException)])))"

definition InputServer_uses :: "('d, 'i, 'j) life_env \<Rightarrow> 'd config \<Rightarrow> ctor_act list" where
  "InputServer_uses E c = [Get ConfigManagerI, Get LoggerI] @ concat (map (source_uses E) (ic_sources (cf_input c)))"

definition destination_uses :: "('d, 'i, 'j) life_env \<Rightarrow> 'd destination_config \<Rightarrow> ctor_act list" where
  "destination_uses E d =
     Get LoggerI #
       (if dc_type d \<notin> set (lf_output_types E) then [Attempt (Threw IqException)]
        else MessageQueue_uses
          @ [Get LoggerI, ctor_attempt (run_of (instantiate_output (lf_output_types E) (en_json (lf_inputs E)) d))])"

definition OutputServer_uses :: "('d, 'i, 'j) life_env \<Rightarrow> 'd config \<Rightarrow> ctor_act list" where
  "OutputServer_uses E c =
     [Get ConfigManagerI, Get LoggerI] @ concat (map (destination_uses E) (oc_destinations (cf_output c)))"

definition InotifyServer_uses :: "('d, 'i, 'j) life_env \<Rightarrow> ctor_act list" where
  "InotifyServer_uses E = [ctor_attempt (throwing (lf_inotify E) ()), Get LoggerI]"

definition IQLogger_uses :: "ctor_act list" where
  "IQLogger_uses = [Get MetricsControllerI, Get MainMessageQueueI, Get InputServerI, Get OutputServerI]"

definition ctor_uses :: "('d, 'i, 'j) life_env \<Rightarrow> 'd config \<Rightarrow> singleton \<Rightarrow> ctor_act list" where
  "ctor_uses E c i =
     (case i of
        ConfigManagerI \<Rightarrow> []
      | LoggerI \<Rightarrow> []
      | MetricsControllerI \<Rightarrow> MetricsController_uses E c
      | MainMessageQueueI \<Rightarrow> MessageQueue_uses
      | ProcessorMachineI \<Rightarrow> ProcessorMachine_uses
      | EngineI \<Rightarrow> [Get LoggerI]
      | ConsoleI \<Rightarrow> []
      | InputServerI \<Rightarrow> InputServer_uses E c
      | OutputServerI \<Rightarrow> OutputServer_uses E c
      | InotifyServerI \<Rightarrow> InotifyServer_uses E
      | SavePositionServerI \<Rightarrow> [Get LoggerI]
      | ModuleI _ \<Rightarrow> [Get LoggerI]
      | IQLoggerI \<Rightarrow> IQLogger_uses)"

text \<open>
  What the destructors use: most write to the log, some through the messages left in their queues or
  through their inputs; a server of the program is held by the program itself.
\<close>

definition dtor_uses :: "singleton \<Rightarrow> singleton list" where
  "dtor_uses i = (if i \<in> {ConfigManagerI, LoggerI, ConsoleI, IQLoggerI} \<union> range ModuleI then [] else [LoggerI])"

definition held_by :: "singleton \<Rightarrow> singleton list" where
  "held_by i = (if i = IQLoggerI then [MetricsControllerI, MainMessageQueueI, InputServerI, OutputServerI] else [])"

subsection \<open>The script engine\<close>

text \<open>
  The calls the program makes of the engine's library that open or close something. The number tells an
  isolate from the others that are alive.
\<close>

datatype v8_call =
    InitializeICU | InitializeStartupData | NewPlatform | InitializePlatform | InitializeV8
  | IsolateNew nat | IsolateDispose nat
  | DisposeV8 | ShutdownPlatform | DeletePlatform

text \<open>The constructor and the destructor of \<open>Engine\<close>; its member, the platform, is deleted after the body.\<close>

definition Engine_ctor :: "v8_call list" where
  "Engine_ctor = [InitializeICU, InitializeStartupData, NewPlatform, InitializePlatform, InitializeV8]"

definition Engine_dtor :: "v8_call list" where
  "Engine_dtor = [DisposeV8, ShutdownPlatform, DeletePlatform]"

text \<open>
  A \<open>Processor\<close> makes its isolate first and, destroyed or left by an exception of the scope, disposes of
  it last.
\<close>

definition Isolate_calls :: "nat \<Rightarrow> v8_call list" where
  "Isolate_calls i = [IsolateNew i, IsolateDispose i]"

text \<open>The order the documentation of the library asks for: what the next call may be.\<close>

datatype v8_state = Cold | HasPlatform bool | Live "nat list" | Disposed | ShutDown | Ended

fun v8_next :: "v8_state \<Rightarrow> v8_call \<Rightarrow> v8_state option" where
  "v8_next Cold InitializeICU = Some Cold"
| "v8_next Cold InitializeStartupData = Some Cold"
| "v8_next Cold NewPlatform = Some (HasPlatform False)"
| "v8_next (HasPlatform False) InitializePlatform = Some (HasPlatform True)"
| "v8_next (HasPlatform True) InitializeV8 = Some (Live [])"
| "v8_next (Live is) (IsolateNew i) = (if i \<in> set is then None else Some (Live (i # is)))"
| "v8_next (Live is) (IsolateDispose i) = (if i \<in> set is then Some (Live (remove1 i is)) else None)"
| "v8_next (Live []) DisposeV8 = Some Disposed"
| "v8_next Disposed ShutdownPlatform = Some ShutDown"
| "v8_next ShutDown DeletePlatform = Some Ended"
| "v8_next _ _ = None"

fun v8_run :: "v8_state \<Rightarrow> v8_call list \<Rightarrow> v8_state option" where
  "v8_run s [] = Some s"
| "v8_run s (c # cs) = (case v8_next s c of None \<Rightarrow> None | Some t \<Rightarrow> v8_run t cs)"

text \<open>The calls a thread makes for its isolate, among those of all threads.\<close>

definition calls_of :: "nat \<Rightarrow> v8_call list \<Rightarrow> v8_call list" where
  "calls_of i cs = filter (\<lambda>c. c = IsolateNew i \<or> c = IsolateDispose i) cs"

definition isolate_call :: "v8_call \<Rightarrow> bool" where
  "isolate_call c = (case c of IsolateNew _ \<Rightarrow> True | IsolateDispose _ \<Rightarrow> True | _ \<Rightarrow> False)"

subsection \<open>The start of the program\<close>

text \<open>
  Checking a script asks for the machine, then for the engine; the isolate registers its metric, and the
  scope makes the console.
\<close>

definition checkScript_uses :: "ctor_act list" where
  "checkScript_uses =
     [Get ProcessorMachineI, Get EngineI, Get LoggerI, Get MetricsControllerI, Get EngineI, Get ConsoleI]"

fun check_uses :: "'d json_lib \<Rightarrow> 'd config_env \<Rightarrow> 'd source_config list \<Rightarrow> ctor_act list" where
  "check_uses L CE [] = []"
| "check_uses L CE (s # ss) =
     (if \<not> source_type_check L (ce_regex_ok CE) s then []
      else
        (case sc_processor s of
           None \<Rightarrow> check_uses L CE ss
         | Some script \<Rightarrow>
             checkScript_uses
               @ (case ce_script_ok CE script of
                    None \<Rightarrow> [Attempt Aborted] | Some False \<Rightarrow> [] | Some True \<Rightarrow> check_uses L CE ss)))"

text \<open>
  \<open>main\<close> asks for the configuration manager, whose first message makes the logger. What is thrown while
  the configuration is checked leaves \<open>load\<close>.
\<close>

definition first_instances :: "singleton list" where
  "first_instances = [LoggerI, ConfigManagerI]"

definition read_config :: "'d json_lib \<Rightarrow> 'd config_env \<Rightarrow> string \<Rightarrow> 'd config outcome" where
  "read_config L CE filename =
     and_then (ce_read_doc CE filename) (Config L (ce_files CE) (ce_dir_of CE filename))"

definition life_load :: "('d, 'i, 'j) life_env \<Rightarrow> 'd config_env \<Rightarrow> string \<Rightarrow> bool
    \<Rightarrow> singleton list \<times> ('d config option \<times> bool) run_result" where
  "life_load E CE filename checkOnly =
     (let L = en_json (lf_inputs E)
      in case read_config L CE filename of
           Inl e \<Rightarrow> (first_instances, Returned (None, False))
         | Inr c \<Rightarrow>
             if \<not> checkOnly \<and> \<not> loadLogger CE c then (first_instances, Returned (Some c, False))
             else
               (case getInstances (ctor_uses E c) [] (check_uses L CE (ic_sources (cf_input c))) first_instances of
                  (st, Returned _) \<Rightarrow>
                    (case config_check L (ce_regex_ok CE) (ce_script_ok CE) c of
                       None \<Rightarrow> (st, Aborted) | Some ok \<Rightarrow> (st, Returned (Some c, ok)))
                | (st, Threw e) \<Rightarrow> (st, Threw e)
                | (st, Aborted) \<Rightarrow> (st, Aborted)))"

text \<open>\<open>main\<close> up to the moment the program is initialised: the program, or the exit code.\<close>

datatype main_result = Constructed | Exits nat | NoResult

definition life_main :: "('d, 'i, 'j) life_env \<Rightarrow> 'd config_env \<Rightarrow> string \<Rightarrow> bool \<Rightarrow> singleton list \<times> main_result" where
  "life_main E CE filename checkOnly =
     (case life_load E CE filename checkOnly of
        (st, Threw e) \<Rightarrow> (st, Exits 1)
      | (st, Aborted) \<Rightarrow> (st, NoResult)
      | (st, Returned (Some c, True)) \<Rightarrow>
          (if checkOnly then (st, Exits 0)
           else
             (case getInstances (ctor_uses E c) [] [Get IQLoggerI] st of
                (st1, Returned _) \<Rightarrow> (st1, Constructed)
              | (st1, Threw e) \<Rightarrow> (st1, Exits 1)
              | (st1, Aborted) \<Rightarrow> (st1, NoResult)))
      | (st, Returned _) \<Rightarrow> (st, Exits 1))"

subsection \<open>Lemmas\<close>

inductive_cases completedE [elim!]: "completed ctor st st1"

lemma completed_star_subset: "(completed ctor)\<^sup>*\<^sup>* st st1 \<Longrightarrow> set st \<subseteq> set st1"
  by (induction rule: rtranclp_induct) auto

lemma completed_star_distinct: "(completed ctor)\<^sup>*\<^sup>* st st1 \<Longrightarrow> distinct st \<Longrightarrow> distinct st1"
  by (induction rule: rtranclp_induct) auto

text \<open>A call completes instances one by one, none of those being constructed, and leaves all it asked for.\<close>

lemma getInstances_completes:
  "getInstances ctor opened as st = (st1, r) \<Longrightarrow>
   (completed ctor)\<^sup>*\<^sup>* st st1 \<and> set st1 \<inter> set opened \<subseteq> set st
   \<and> (r = Returned () \<longrightarrow> (\<forall>d. Get d \<in> set as \<longrightarrow> d \<in> set st1))"
proof (induction ctor opened as st arbitrary: st1 r rule: getInstances.induct)
  case (3 ctor opened c as st)
  consider (alive) "c \<in> set st" | (recursive) "c \<notin> set st" "c \<in> set opened"
    | (made) "c \<notin> set st" "c \<notin> set opened" by blast
  then show ?case
  proof cases
    case alive
    with 3(1) [OF alive] 3(4) completed_star_subset show ?thesis by fastforce
  next
    case recursive
    with 3(4) show ?thesis by auto
  next
    case made
    obtain st2 q where q: "getInstances ctor (c # opened) (ctor c) st = (st2, q)" by fastforce
    from 3(2) [OF made q] have b: "(completed ctor)\<^sup>*\<^sup>* st st2" "set st2 \<inter> set (c # opened) \<subseteq> set st"
      "q = Returned () \<longrightarrow> (\<forall>d. Get d \<in> set (ctor c) \<longrightarrow> d \<in> set st2)" by blast+
    show ?thesis
    proof (cases q)
      case (Returned u)
      with b(3) have "\<forall>d. Get d \<in> set (ctor c) \<longrightarrow> d \<in> set st2" by simp
      moreover have new: "c \<notin> set st2" using b(2) made by auto
      ultimately have c: "completed ctor st2 (c # st2)" by (auto intro: completed.intros)
      have run: "getInstances ctor opened as (c # st2) = (st1, r)" using 3(4) made q Returned by simp
      from 3(3) [OF made q [symmetric] Returned this] have i: "(completed ctor)\<^sup>*\<^sup>* (c # st2) st1"
        "set st1 \<inter> set opened \<subseteq> set (c # st2)" "r = Returned () \<longrightarrow> (\<forall>d. Get d \<in> set as \<longrightarrow> d \<in> set st1)" by blast+
      have "(completed ctor)\<^sup>*\<^sup>* st st1" using b(1) c i(1) by simp
      moreover have "c \<in> set st1" using completed_star_subset [OF i(1)] by auto
      moreover have "set st1 \<inter> set opened \<subseteq> set st" using i(2) b(2) made(2) by auto
      ultimately show ?thesis using i(3) by auto
    qed (use 3(4) made q b in auto)
  qed
qed (auto split: run_result.splits)

text \<open>No constructor comes back to itself, so a call fails only with what fails outside.\<close>

lemma getInstances_fails:
  assumes "\<And>c d. Get d \<in> set (ctor c) \<Longrightarrow> ctor_rank d < (ctor_rank c :: nat)"
  shows "getInstances ctor opened as st = (st1, r) \<Longrightarrow> \<forall>c \<in> set opened. \<forall>d. Get d \<in> set as \<longrightarrow> ctor_rank d < ctor_rank c \<Longrightarrow>
    r = Returned () \<or> Attempt r \<in> set as \<or> (\<exists>c. Attempt r \<in> set (ctor c))"
  using assms
proof (induction ctor opened as st arbitrary: st1 r rule: getInstances.induct)
  case (3 ctor opened c as st)
  have o: "\<forall>c' \<in> set (c # opened). \<forall>d. Get d \<in> set (ctor c) \<longrightarrow> ctor_rank d < ctor_rank c'"
    using 3(5) 3(6) by (auto intro: less_trans)
  have "c \<notin> set opened" using 3(5) by fastforce
  obtain st2 q where q: "getInstances ctor (c # opened) (ctor c) st = (st2, q)" by fastforce
  show ?case
  proof (cases "c \<in> set st")
    case True
    with 3(1) [OF True _ _ 3(6)] 3(4,5) show ?thesis by auto
  next
    case False
    note made = False \<open>c \<notin> set opened\<close>
    from 3(2) [OF made q o 3(6)] have b: "q = Returned () \<or> (\<exists>c. Attempt q \<in> set (ctor c))" by blast
    show ?thesis
    proof (cases q)
      case (Returned u)
      have "getInstances ctor opened as (c # st2) = (st1, r)" using 3(4) made q Returned by simp
      from 3(3) [OF made q [symmetric] Returned this _ 3(6)] 3(5) show ?thesis by auto
    qed (use 3(4) made q b in auto)
  qed
qed (auto split: run_result.splits)

lemma getInstances_append:
  "getInstances ctor opened (as @ bs) st =
     (case getInstances ctor opened as st of (st1, Returned _) \<Rightarrow> getInstances ctor opened bs st1 | x \<Rightarrow> x)"
  by (induction ctor opened as st rule: getInstances.induct) (auto split: run_result.splits prod.splits)

primrec ctor_rank :: "singleton \<Rightarrow> nat" where
  "ctor_rank ConfigManagerI = 0"
| "ctor_rank LoggerI = 0"
| "ctor_rank ConsoleI = 0"
| "ctor_rank MetricsControllerI = 1"
| "ctor_rank EngineI = 1"
| "ctor_rank InotifyServerI = 1"
| "ctor_rank SavePositionServerI = 1"
| "ctor_rank (ModuleI t) = 1"
| "ctor_rank MainMessageQueueI = 2"
| "ctor_rank ProcessorMachineI = 2"
| "ctor_rank InputServerI = 3"
| "ctor_rank OutputServerI = 3"
| "ctor_rank IQLoggerI = 4"

lemmas uses_defs = MessageQueue_uses_def MetricsController_uses_def ProcessorMachine_uses_def Input_uses_def
  TailMonitor_uses_def TailInput_uses_def source_uses_def InputServer_uses_def destination_uses_def
  OutputServer_uses_def InotifyServer_uses_def IQLogger_uses_def ctor_attempt_def

lemma source_uses_rank: "Get d \<in> set (source_uses E s) \<Longrightarrow> ctor_rank d < 3"
  by (cases "sc_type s") (auto simp: uses_defs Let_def split: if_splits option.splits run_result.splits)

lemma ctor_uses_rank: "Get d \<in> set (ctor_uses E c i) \<Longrightarrow> ctor_rank d < ctor_rank i"
proof (cases i)
  case InputServerI
  then show "Get d \<in> set (ctor_uses E c i) \<Longrightarrow> ?thesis"
    by (auto simp: ctor_uses_def InputServer_uses_def dest!: source_uses_rank)
qed (auto simp: ctor_uses_def uses_defs split: if_splits)

text \<open>Whatever is completed on top of the first two instances is torn down well.\<close>

lemma completed_torn_down:
  assumes "(completed (ctor_uses E c))\<^sup>*\<^sup>* first_instances st"
  shows "torn_down dtor_uses held_by st"
proof -
  have "torn_down dtor_uses held_by st \<and> LoggerI \<in> set st \<and> (\<forall>d \<in> set st. set (held_by d) \<subseteq> set st)"
    using assms
  proof (induction rule: rtranclp_induct)
    case base
    show ?case by (simp add: first_instances_def dtor_uses_def held_by_def)
  next
    case (step st st1)
    from step(2) obtain i where i: "st1 = i # st" "i \<notin> set st" "\<forall>d. Get d \<in> set (ctor_uses E c i) \<longrightarrow> d \<in> set st"
      by auto
    have "set (dtor_uses i) \<subseteq> set st" using step(3) by (simp add: dtor_uses_def)
    moreover have "list_all (\<lambda>d. i \<notin> set (held_by d)) st" using step(3) i(2) by (auto simp: list_all_iff)
    moreover have "set (held_by i) \<subseteq> set st" using i(3) by (auto simp: held_by_def ctor_uses_def IQLogger_uses_def)
    ultimately show ?case using step(3) i(1) by auto
  qed
  then show ?thesis by blast
qed

lemma life_main_completes:
  assumes "life_main E CE file chk = (st, r)" "read_config (en_json (lf_inputs E)) CE file = Inr c"
  shows "(completed (ctor_uses E c))\<^sup>*\<^sup>* first_instances st"
proof -
  obtain st0 q where q: "life_load E CE file chk = (st0, q)" by fastforce
  obtain st2 v where v: "getInstances (ctor_uses E c) []
      (check_uses (en_json (lf_inputs E)) CE (ic_sources (cf_input c))) first_instances = (st2, v)" by fastforce
  have "st0 = first_instances \<or> st0 = st2" and c: "\<And>c' b. q = Returned (Some c', b) \<Longrightarrow> c' = c"
    using q assms(2) v by (auto simp: life_load_def Let_def split: if_splits run_result.splits option.splits)
  with getInstances_completes [OF v] have 0: "(completed (ctor_uses E c))\<^sup>*\<^sup>* first_instances st0" by blast
  show ?thesis
  proof (cases "q = Returned (Some c, True) \<and> \<not> chk")
    case True
    obtain st1 u where u: "getInstances (ctor_uses E c) [] [Get IQLoggerI] st0 = (st1, u)" by fastforce
    with assms(1) q True have "st = st1" by (auto simp: life_main_def split: run_result.splits)
    with 0 getInstances_completes [OF u] show ?thesis by (meson rtranclp_trans)
  next
    case False
    with assms(1) q 0 show ?thesis
      by (cases q) (auto simp: life_main_def dest: c split: option.splits bool.splits if_splits)
  qed
qed

lemma completed_star_closed:
  "(completed ctor)\<^sup>*\<^sup>* first_instances st \<Longrightarrow> ctor ConfigManagerI = [] \<Longrightarrow> ctor LoggerI = [] \<Longrightarrow>
   \<forall>i \<in> set st. \<forall>d. Get d \<in> set (ctor i) \<longrightarrow> d \<in> set st"
  by (induction rule: rtranclp_induct) (auto simp: first_instances_def)

lemma getInstances_here: "c \<in> set st \<Longrightarrow> getInstances ctor opened (Get c # as) st = getInstances ctor opened as st"
  by simp

text \<open>The exports are opened one after the other, up to the first that fails.\<close>

lemma exports_open:
  assumes "LoggerI \<in> set st"
  shows "getInstances ctor opened (concat (map (\<lambda>x. [Get LoggerI, Attempt (export_result E x)]) xs)) st
    = (st, case find (\<lambda>x. export_result E x \<noteq> Returned ()) xs of None \<Rightarrow> Returned () | Some x \<Rightarrow> export_result E x)"
  using assms by (induction xs) (auto split: run_result.splits)

lemma export_result_Threw: "export_result E x \<noteq> Returned () \<Longrightarrow> \<exists>e. export_result E x = Threw e"
  by (auto simp: export_result_def throwing_def split: sum.splits option.splits)

lemma check_uses_skip:
  "list_all (\<lambda>s. source_type_check L (ce_regex_ok CE) s \<and> sc_processor s = None) pre \<Longrightarrow>
   check_uses L CE (pre @ ss) = check_uses L CE ss"
  by (induction pre) auto

lemma machine_needs_exports:
  assumes "x \<in> set (st_exports (cf_stats c))" "export_result E x \<noteq> Returned ()"
  shows "\<exists>e. getInstances (ctor_uses E c) [] (Get ProcessorMachineI # as) first_instances = (first_instances, Threw e)"
proof -
  from assms obtain y where y: "find (\<lambda>x. export_result E x \<noteq> Returned ()) (st_exports (cf_stats c)) = Some y"
    by (cases "find (\<lambda>x. export_result E x \<noteq> Returned ()) (st_exports (cf_stats c))") (auto simp: find_None_iff)
  then obtain e where "export_result E y = Threw e" using export_result_Threw by (metis (mono_tags) find_Some_iff)
  with y have "getInstances (ctor_uses E c) [MetricsControllerI, ProcessorMachineI]
      (ctor_uses E c MetricsControllerI) first_instances = (first_instances, Threw e)"
    by (simp add: ctor_uses_def MetricsController_uses_def exports_open first_instances_def)
  then have "getInstances (ctor_uses E c) [ProcessorMachineI] (ctor_uses E c ProcessorMachineI) first_instances
      = (first_instances, Threw e)"
    by (simp add: ctor_uses_def ProcessorMachine_uses_def MessageQueue_uses_def first_instances_def)
  then show ?thesis by (simp add: first_instances_def)
qed

lemma v8_run_append: "v8_run s (xs @ ys) = (case v8_run s xs of None \<Rightarrow> None | Some t \<Rightarrow> v8_run t ys)"
  by (induction s xs rule: v8_run.induct) (auto split: option.splits)

text \<open>Isolates whose calls are interleaved: those alive are yet to be disposed of, each other one is made and disposed of.\<close>

lemma v8_run_isolates:
  "distinct is \<Longrightarrow> list_all isolate_call cs \<Longrightarrow>
   \<forall>i. calls_of i cs = (if i \<in> set is then [IsolateDispose i] else []) \<or> i \<notin> set is \<and> calls_of i cs = Isolate_calls i \<Longrightarrow>
   v8_run (Live is) cs = Some (Live [])"
proof (induction cs arbitrary: "is")
  case Nil
  have "i \<notin> set is" for i
    using Nil(3) [rule_format, of i] by (auto simp: calls_of_def Isolate_calls_def split: if_splits)
  then have "is = []" by (cases "is") auto
  then show ?case by simp
next
  case (Cons c cs)
  from Cons.prems(2) consider i where "c = IsolateNew i" | i where "c = IsolateDispose i"
    by (auto simp: isolate_call_def split: v8_call.splits)
  then show ?case
  proof cases
    case (1 i)
    have i: "i \<notin> set is" "calls_of i cs = [IsolateDispose i]"
      using Cons.prems(3) [rule_format, of i] 1 by (auto simp: calls_of_def Isolate_calls_def split: if_splits)
    have "calls_of j cs = (if j \<in> set (i # is) then [IsolateDispose j] else [])
        \<or> j \<notin> set (i # is) \<and> calls_of j cs = Isolate_calls j" for j
      using Cons.prems(3) [rule_format, of j] 1 i by (cases "j = i") (auto simp: calls_of_def)
    with Cons.IH [of "i # is"] Cons.prems(1,2) i(1) 1 show ?thesis by simp
  next
    case (2 i)
    have i: "i \<in> set is" "calls_of i cs = []"
      using Cons.prems(3) [rule_format, of i] 2 by (auto simp: calls_of_def Isolate_calls_def split: if_splits)
    have "calls_of j cs = (if j \<in> set (remove1 i is) then [IsolateDispose j] else [])
        \<or> j \<notin> set (remove1 i is) \<and> calls_of j cs = Isolate_calls j" for j
      using Cons.prems(1) Cons.prems(3) [rule_format, of j] 2 i by (cases "j = i") (auto simp: calls_of_def)
    with Cons.IH [of "remove1 i is"] Cons.prems(1,2) i(1) 2 show ?thesis by simp
  qed
qed

subsection \<open>Properties\<close>

text \<open>
  C40: Checking a configuration opens the exports it names: with a script in a source, the check of which
  is reached, and an export whose server cannot be opened, as when the program already runs with that
  configuration, \<open>main\<close> with \<open>--check-config\<close> returns 1, whatever else the configuration says.
\<close>

theorem check_opens_exports:
  assumes "read_config (en_json (lf_inputs E)) CE file = Inr c" "ic_sources (cf_input c) = pre @ s # post"
    and "list_all (\<lambda>s. source_type_check (en_json (lf_inputs E)) (ce_regex_ok CE) s \<and> sc_processor s = None) pre"
    and "source_type_check (en_json (lf_inputs E)) (ce_regex_ok CE) s" "sc_processor s = Some script"
    and "x \<in> set (st_exports (cf_stats c))" "export_result E x \<noteq> Returned ()"
  shows "life_main E CE file True = (first_instances, Exits 1)"
proof -
  let ?u = "check_uses (en_json (lf_inputs E)) CE (ic_sources (cf_input c))"
  have "\<exists>as. ?u = Get ProcessorMachineI # as"
    using assms(2,4,5) check_uses_skip [OF assms(3)] by (simp add: checkScript_uses_def)
  with machine_needs_exports [OF assms(6,7)] obtain e where
      "getInstances (ctor_uses E c) [] ?u first_instances = (first_instances, Threw e)" by metis
  then show ?thesis using assms(1) by (simp add: life_main_def life_load_def)
qed

text \<open>A generator with a script, and an HTTP export whose port is taken.\<close>

definition life_doc :: "int json" where
  "life_doc = JObj
     [(''input'', JObj [(''sources'', JArr
          [JObj [(''name'', JStr ''d''), (''processor'', JStr ''s''), (''threads'', JInt 1), (''type'', JStr ''dummy'')]]),
        (''threads'', JInt 2)]),
      (''iqlogger'', JObj [(''logger'', JObj [(''filename'', JStr ''log''), (''level'', JStr ''info'')]),
          (''stats'', JObj [(''export'', JArr [JObj [(''listen_host'', JStr ''h''), (''listen_port'', JInt 80),
              (''name'', JStr ''e''), (''type'', JStr ''http'')]]), (''interval'', JInt 5)])]),
      (''output'', JObj [(''destinations'', JArr [JObj [(''name'', JStr ''l''), (''threads'', JInt 1),
          (''type'', JStr ''log'')]]), (''threads'', JInt 1)])]"

definition life_config_env :: "int config_env" where
  "life_config_env = sample_config_env\<lparr>ce_read_doc := \<lambda>_. Inr life_doc\<rparr>"

definition life_sample :: "exn_class option \<Rightarrow> (int, nat list, (string list \<times> 64 word) list) life_env" where
  "life_sample e = \<lparr>lf_inputs = dummy_env\<lparr>en_json := one_doc_lib ''doc'' JNull\<rparr>, lf_input_types = [IN_DUMMY],
     lf_output_types = [OUT_LOG], lf_open_export = \<lambda>_. e, lf_inotify = None\<rparr>"

definition life_source :: "int source_config" where
  "life_source = \<lparr>sc_type = IN_DUMMY, sc_name = ''d'', sc_threads = 1, sc_processor = Some ''s'',
     sc_params = [], sc_max_queue_size = 10000, sc_overflow_strategy = OV_THROTTLE, sc_checker = IN_DUMMY\<rparr>"

definition life_export :: "int stats_entry_config" where
  "life_export = \<lparr>se_name = ''e'', se_type = ST_HTTP,
     se_params = [(''listen_host'', JStr ''h''), (''listen_port'', JInt 80)]\<rparr>"

definition life_destination :: "int destination_config" where
  "life_destination = \<lparr>dc_type = OUT_LOG, dc_name = ''l'', dc_threads = 1, dc_timeout = 60, dc_params = []\<rparr>"

definition life_config :: "int config" where
  "life_config = the (case read_config (one_doc_lib ''doc'' JNull) life_config_env ''c'' of Inr c \<Rightarrow> Some c | Inl _ \<Rightarrow> None)"

lemma life_json: "en_json (lf_inputs (life_sample e)) = one_doc_lib ''doc'' JNull"
  by (simp add: life_sample_def)

lemma life_config_read: "read_config (one_doc_lib ''doc'' JNull) life_config_env ''c'' = Inr life_config"
proof -
  have "case read_config (one_doc_lib ''doc'' JNull) life_config_env ''c'' of Inr _ \<Rightarrow> True | Inl _ \<Rightarrow> False" by code_simp
  then show ?thesis by (auto simp: life_config_def split: sum.splits)
qed

lemma life_config_parts:
  "ic_sources (cf_input life_config) = [life_source]" "st_exports (cf_stats life_config) = [life_export]"
  "oc_destinations (cf_output life_config) = [life_destination]"
  by code_simp+

lemma check_opens_exports_witness:
  "life_main (life_sample (Some SystemError)) life_config_env ''c'' True = (first_instances, Exits 1)"
proof -
  have "export_result (life_sample (Some SystemError)) life_export \<noteq> Returned ()" by code_simp
  moreover have "source_type_check (one_doc_lib ''doc'' JNull) (ce_regex_ok life_config_env) life_source" by code_simp
  ultimately show ?thesis
    by (intro check_opens_exports [of _ _ _ life_config "[]" life_source "[]" "''s''" life_export])
       (simp_all add: life_json life_config_read life_config_parts, simp add: life_source_def)
qed

text \<open>A load that returns has the result of the configuration manager (IQ_Config).\<close>

lemma life_load_agrees:
  assumes "life_load E CE file chk = (st, Returned (x, ok))"
  shows "\<exists>m1. config_load (en_json (lf_inputs E)) CE file chk m = Some (m1, ok)"
  using assms
  by (auto simp: life_load_def Let_def config_load_def config_reload_def read_config_def
      split: sum.splits if_splits option.splits prod.splits run_result.splits)

text \<open>Without scripts nothing is constructed, and the check is that of the configuration.\<close>

lemma check_without_scripts:
  assumes "read_config (en_json (lf_inputs E)) CE file = Inr c"
    and "list_all (\<lambda>s. sc_processor s = None) (ic_sources (cf_input c))"
    and "config_check (en_json (lf_inputs E)) (ce_regex_ok CE) (ce_script_ok CE) c = Some ok"
  shows "life_main E CE file True = (first_instances, Exits (if ok then 0 else 1))"
proof -
  have "check_uses L CE ss = []" if "list_all (\<lambda>s. sc_processor s = None) ss" for L and ss
    using that by (induction ss) auto
  with assms show ?thesis by (simp add: life_main_def life_load_def)
qed

text \<open>
  C27: Every instance is constructed once, and lives as long as an instance that uses it: whatever main
  comes to and whatever instances its threads complete after that, in any order, at the end every
  destructor finds the instances it uses, and none is kept by another.
\<close>

theorem instances_torn_down:
  assumes "life_main E CE file chk = (st, r)" "read_config (en_json (lf_inputs E)) CE file = Inr c"
    and "(completed (ctor_uses E c))\<^sup>*\<^sup>* st st1"
  shows "torn_down dtor_uses held_by st1 \<and> distinct st1"
proof -
  have "(completed (ctor_uses E c))\<^sup>*\<^sup>* first_instances st1"
    using life_main_completes [OF assms(1,2)] assms(3) by simp
  then show ?thesis
    using completed_torn_down completed_star_distinct by (fastforce simp: first_instances_def)
qed

text \<open>Once the program runs, the threads of a tail input complete the instances of its module.\<close>

lemma instances_torn_down_witness:
  "\<exists>st. life_main (life_sample None) life_config_env ''c'' False = (st, Constructed)
     \<and> torn_down dtor_uses held_by (ModuleI IN_TAIL # SavePositionServerI # st)"
proof -
  let ?m = "life_main (life_sample None) life_config_env ''c'' False"
  have m: "snd ?m = Constructed" "LoggerI \<in> set (fst ?m)" "ModuleI IN_TAIL \<notin> set (fst ?m)" "SavePositionServerI \<notin> set (fst ?m)"
    by code_simp+
  let ?B = "ctor_uses (life_sample None) life_config"
  have "completed ?B (fst ?m) (SavePositionServerI # fst ?m)"
    using m by (auto simp: ctor_uses_def intro!: completed.intros)
  moreover have "completed ?B (SavePositionServerI # fst ?m) (ModuleI IN_TAIL # SavePositionServerI # fst ?m)"
    using m by (auto simp: ctor_uses_def intro!: completed.intros)
  ultimately have "(completed ?B)\<^sup>*\<^sup>* (fst ?m) (ModuleI IN_TAIL # SavePositionServerI # fst ?m)" by simp
  from instances_torn_down [OF prod.collapse [symmetric] _ this] have
      "torn_down dtor_uses held_by (ModuleI IN_TAIL # SavePositionServerI # fst ?m)"
    by (simp add: life_json life_config_read)
  with m(1) show ?thesis by (metis prod.collapse)
qed

text \<open>
  No constructor asks for itself through others: what throws, or has no result, is something outside.
\<close>

lemma constructors_fail_outside:
  assumes "getInstances (ctor_uses E c) [] as st = (st1, r)"
  shows "r = Returned () \<or> Attempt r \<in> set as \<or> (\<exists>i. Attempt r \<in> set (ctor_uses E c i))"
  by (rule getInstances_fails [of _ ctor_rank, OF _ assms]) (auto dest: ctor_uses_rank)

lemma check_True_no_abort:
  "sources_check (source_check L (ce_regex_ok CE) (ce_script_ok CE)) ss = Some True \<Longrightarrow> Attempt r \<notin> set (check_uses L CE ss)"
  by (induction ss)
     (auto simp: source_check_def Let_def checkScript_uses_def split: option.splits bool.splits if_splits)

text \<open>
  When nothing outside throws, a configuration that is accepted becomes a program: every constructor
  returns, all servers are there, and they can be torn down.
\<close>

theorem program_constructed:
  assumes "read_config (en_json (lf_inputs E)) CE file = Inr c" "ce_logger_init CE (cf_logger c)"
    and "config_check (en_json (lf_inputs E)) (ce_regex_ok CE) (ce_script_ok CE) c = Some True"
    and "\<forall>x \<in> set (st_exports (cf_stats c)). export_result E x = Returned ()"
    and "\<forall>s \<in> set (ic_sources (cf_input c)). \<forall>r. Attempt r \<in> set (source_uses E s) \<longrightarrow> r = Returned ()"
    and "\<forall>d \<in> set (oc_destinations (cf_output c)). \<forall>r. Attempt r \<in> set (destination_uses E d) \<longrightarrow> r = Returned ()"
    and "lf_inotify E = None"
  shows "\<exists>st. life_main E CE file False = (st, Constructed) \<and> torn_down dtor_uses held_by st
    \<and> {IQLoggerI, MetricsControllerI, MainMessageQueueI, InputServerI, OutputServerI} \<subseteq> set st"
proof -
  let ?B = "ctor_uses E c"
  let ?u = "check_uses (en_json (lf_inputs E)) CE (ic_sources (cf_input c))"
  have ctor: "r = Returned ()" if "Attempt r \<in> set (?B i)" for r i
    using that assms(4-7)
    by (cases i) (auto simp: ctor_uses_def MetricsController_uses_def InputServer_uses_def OutputServer_uses_def
        MessageQueue_uses_def ProcessorMachine_uses_def InotifyServer_uses_def IQLogger_uses_def ctor_attempt_def throwing_def split: if_splits)
  obtain st0 r0 where 0: "getInstances ?B [] ?u first_instances = (st0, r0)" by fastforce
  from constructors_fail_outside [OF 0] ctor check_True_no_abort assms(3) have "r0 = Returned ()"
    unfolding config_check_def by blast
  with 0 assms(1-3) have load: "life_load E CE file False = (st0, Returned (Some c, True))"
    by (simp add: life_load_def loadLogger_def)
  obtain st r where 1: "getInstances ?B [] [Get IQLoggerI] st0 = (st, r)" by fastforce
  from constructors_fail_outside [OF 1] ctor have r: "r = Returned ()" by auto
  have main: "life_main E CE file False = (st, Constructed)" using load 1 r by (simp add: life_main_def)
  have "(completed ?B)\<^sup>*\<^sup>* first_instances st" by (rule life_main_completes [OF main assms(1)])
  then have down: "torn_down dtor_uses held_by st" by (rule completed_torn_down)
  have "IQLoggerI \<in> set st" using getInstances_completes [OF 1] r by simp
  with completed_star_closed [OF \<open>(completed ?B)\<^sup>*\<^sup>* first_instances st\<close>] have
    "\<forall>d. Get d \<in> set IQLogger_uses \<longrightarrow> d \<in> set st" by (fastforce simp: ctor_uses_def)
  with main down \<open>IQLoggerI \<in> set st\<close> show ?thesis by (simp add: IQLogger_uses_def)
qed

lemma program_constructed_witness:
  "\<exists>st. life_main (life_sample None) life_config_env ''c'' False = (st, Constructed) \<and> {InputServerI, OutputServerI} \<subseteq> set st"
proof -
  have "config_check (one_doc_lib ''doc'' JNull) (ce_regex_ok life_config_env) (ce_script_ok life_config_env) life_config
      = Some True"
    "ce_logger_init life_config_env (cf_logger life_config)"
    "export_result (life_sample None) life_export = Returned ()"
    "list_all (\<lambda>a. case a of Attempt r \<Rightarrow> r = Returned () | Get _ \<Rightarrow> True) (source_uses (life_sample None) life_source)"
    "list_all (\<lambda>a. case a of Attempt r \<Rightarrow> r = Returned () | Get _ \<Rightarrow> True)
       (destination_uses (life_sample None) life_destination)"
    "lf_inotify (life_sample None) = None"
    by code_simp+
  with program_constructed [of "life_sample None" life_config_env "''c''" life_config] show ?thesis
    by (fastforce simp: life_json life_config_read life_config_parts list_all_iff)
qed

text \<open>
  The engine is used in the order its library asks for: with the scripts checked one after the other
  and then the isolates of the threads made and disposed of in any interleaving, every call from the
  construction of the engine to its destruction is allowed, and at its disposal no isolate is left.
\<close>

theorem engine_calls_in_order:
  assumes "list_all isolate_call cs" "\<forall>i. calls_of i cs \<in> {[], Isolate_calls i}"
  shows "v8_run Cold (Engine_ctor @ concat (replicate checks (Isolate_calls 0)) @ cs @ Engine_dtor) = Some Ended"
proof -
  have "v8_run (Live []) (concat (replicate checks (Isolate_calls 0))) = Some (Live [])"
    by (induction checks) (simp_all add: Isolate_calls_def)
  moreover have "v8_run (Live []) cs = Some (Live [])" using v8_run_isolates [of "[]" cs] assms by simp
  ultimately show ?thesis by (simp add: v8_run_append Engine_ctor_def Engine_dtor_def)
qed

lemma engine_calls_in_order_witness:
  "v8_run Cold (Engine_ctor @ concat (replicate 2 (Isolate_calls 0))
     @ [IsolateNew 0, IsolateNew 1, IsolateDispose 0, IsolateDispose 1] @ Engine_dtor) = Some Ended"
proof -
  have "calls_of i [IsolateNew 0, IsolateNew 1, IsolateDispose 0, IsolateDispose 1] \<in> {[], Isolate_calls i}" for i
    by (auto simp: calls_of_def Isolate_calls_def)
  then show ?thesis by (intro engine_calls_in_order) (simp_all add: isolate_call_def)
qed

subsection \<open>The name of the host\<close>

text \<open>
  The constructor of the configuration manager reads the name into an array of \<open>HOST_NAME_MAX\<close> bytes.
  \<open>gethostname\<close> writes as much of the name, with its terminator, as the array holds; the member is what
  stands before the first terminator, and without one the copy reads beyond the array.
\<close>

definition HOST_NAME_MAX :: nat where
  "HOST_NAME_MAX = 64"

definition gethostname :: "string \<Rightarrow> nat \<Rightarrow> string" where
  "gethostname name n = take n (name @ [CHR 0x00])"

definition ConfigManager :: "string \<Rightarrow> string option" where
  "ConfigManager name =
     (let hostname = gethostname name HOST_NAME_MAX
      in if CHR 0x00 \<in> set hostname then Some (takeWhile (\<lambda>c. c \<noteq> CHR 0x00) hostname) else None)"

text \<open>A name of 64 bytes, which the kernel allows, has no defined result; every shorter one is read as it is.\<close>

lemma host_name_bound:
  assumes "CHR 0x00 \<notin> set name"
  shows "ConfigManager name = (if length name < 64 then Some name else None)"
proof (cases "length name < 64")
  case True
  then have "gethostname name HOST_NAME_MAX = name @ [CHR 0x00]" by (simp add: gethostname_def HOST_NAME_MAX_def)
  with True assms show ?thesis by (auto simp: ConfigManager_def takeWhile_append)
next
  case False
  then have "gethostname name HOST_NAME_MAX = take 64 name" by (simp add: gethostname_def HOST_NAME_MAX_def)
  with False assms show ?thesis by (auto simp: ConfigManager_def Let_def dest: in_set_takeD)
qed

end
