(* ===== verification/IQ_Pipeline.thy ===== *)
theory IQ_Pipeline
  imports IQ_Input IQ_Output_Send
begin

text \<open>
  The whole program as threads over shared queues: records arrive in the queues of the inputs, the
  threads of the input server (src/InputServer.cpp, src/inputs/Input.h), of the processor
  (src/processor/ProcessorMachine.cpp), of the output server (src/OutputServer.cpp, src/outputs/Output.h)
  and of the outputs (src/outputs/gelf/tcp/GelfOutput.cpp, src/outputs/log/LogOutput.cpp) take bulks
  and hand them on. A step is what one thread does between two accesses to a queue, so the threads
  interleave in every order; what a thread holds between its steps is part of the state. A producer
  that waits for room does its step once there is room.
\<close>

subsection \<open>State\<close>

datatype sink = ToPeers "sender list" | ToLog "string list"

record ('d, 'ep, 'i, 'p, 'q, 'o, 'st) pipeline =
  pl_inputs :: "'i input list"
  pl_importing :: "(16 word option \<times> ('d, 'ep) message list) list"
  pl_queues :: "('p, 'q) shared_queues"
  pl_processing :: "('st \<times> ('d, 'ep) message list) list"
  pl_exporting :: "(('d, 'ep) message list \<times> nat) list"
  pl_outputs :: "('o output_state \<times> sink) list"
  pl_total_send :: "64 word"

text \<open>What does not change while the program runs: the queue library, the conversions, the scripts.\<close>

record ('r, 'd, 'ep, 'i, 'p, 'q, 'o, 'st, 's, 'sc, 'fn, 'v) program =
  pr_queues :: "('r, 'i, ('d, 'ep) message, 'p, 'q) queue_libs"
  pr_records :: "('o, string) cq_lib"
  pr_export :: "'r \<Rightarrow> ('d, 'ep) message outcome"
  pr_convert :: "output_type \<Rightarrow> ('d, 'ep) message \<Rightarrow> string outcome"
  pr_engine :: "('st, 's, 'sc, 'fn, 'v) v8_lib"
  pr_json :: "'d json_lib"
  pr_functions :: "(16 word \<times> 'fn) list"

definition alone :: "'m import_env" where
  "alone = \<lparr>ie_processor = [], ie_main = []\<rparr>"

definition next_output :: "nat \<Rightarrow> 'm list \<times> nat \<Rightarrow> 'm list \<times> nat" where
  "next_output outputs b = (if Suc (snd b) < outputs then (fst b, Suc (snd b)) else ([], 0))"

subsection \<open>Steps\<close>

text \<open>
  A thread of the input server; \<open>arrive\<close> is a reader of an input. The label of a step are the records that
  arrive by it, with the number of their input.
\<close>

inductive import_step :: "('r, 'd, 'ep, 'i, 'p, 'q, 'o, 'st, 's, 'sc, 'fn, 'v) program
    \<Rightarrow> ('d, 'ep, 'i, 'p, 'q, 'o, 'st) pipeline \<Rightarrow> (nat \<times> 'r) list \<Rightarrow> ('d, 'ep, 'i, 'p, 'q, 'o, 'st) pipeline \<Rightarrow> bool"
  for G where
  arrive: "i < length (pl_inputs s) \<Longrightarrow> pl_inputs s ! i = inp \<Longrightarrow>
    mq_enqueue (ql_input (pr_queues G)) [] (in_queue inp) r = Some (q, ok, t, p) \<Longrightarrow>
    import_step G s (if ok then [(i, r)] else []) (s\<lparr>pl_inputs := (pl_inputs s)[i := inp\<lparr>in_queue := q\<rparr>]\<rparr>)"
| import_take: "j < length (pl_importing s) \<Longrightarrow> snd (pl_importing s ! j) = [] \<Longrightarrow>
    i < length (pl_inputs s) \<Longrightarrow> pl_inputs s ! i = inp \<Longrightarrow>
    mq_try_dequeue_bulk (ql_input (pr_queues G)) (in_queue inp) max_queue_bulk_size = (q, records) \<Longrightarrow>
    export_bulk (pr_export G) records = Inr messages \<Longrightarrow>
    import_step G s [] (s\<lparr>
      pl_inputs := (pl_inputs s)[i := inp\<lparr>in_queue := q,
        in_receive_counter := in_receive_counter inp + of_nat (length messages)\<rparr>],
      pl_importing := (pl_importing s)[j := (in_processor inp, messages)]\<rparr>)"
| import_push: "j < length (pl_importing s) \<Longrightarrow> pl_importing s ! j = (script, messages) \<Longrightarrow> messages \<noteq> [] \<Longrightarrow>
    send_messages (pr_queues G) alone script messages (pl_queues s) = Some (sq, ok) \<Longrightarrow>
    import_step G s [] (s\<lparr>pl_queues := sq, pl_importing := (pl_importing s)[j := (script, [])]\<rparr>)"

text \<open>A thread of the processor. One that throws or is aborted ends the program: there is no step.\<close>

inductive process_step :: "('r, 'd, 'ep, 'i, 'p, 'q, 'o, 'st, 's, 'sc, 'fn, 'v) program
    \<Rightarrow> ('d, 'ep, 'i, 'p, 'q, 'o, 'st) pipeline \<Rightarrow> ('d, 'ep, 'i, 'p, 'q, 'o, 'st) pipeline \<Rightarrow> bool"
  for G where
  process_take: "j < length (pl_processing s) \<Longrightarrow> pl_processing s ! j = (st, []) \<Longrightarrow>
    mq_try_dequeue_bulk (ql_processor (pr_queues G)) (sq_processor (pl_queues s)) max_queue_bulk_size = (q, records) \<Longrightarrow>
    process_records (pr_engine G) (pr_json G) (pr_functions G) st records = Some (st', Returned messages) \<Longrightarrow>
    process_step G s (s\<lparr>pl_queues := (pl_queues s)\<lparr>sq_processor := q\<rparr>,
      pl_processing := (pl_processing s)[j := (st', messages)]\<rparr>)"
| process_push: "j < length (pl_processing s) \<Longrightarrow> pl_processing s ! j = (st, messages) \<Longrightarrow> messages \<noteq> [] \<Longrightarrow>
    mq_enqueue_bulk (ql_main (pr_queues G)) [] (sq_main (pl_queues s)) messages = Some (q, ok, t, p) \<Longrightarrow>
    process_step G s (s\<lparr>pl_queues := (pl_queues s)\<lparr>sq_main := q\<rparr>,
      pl_processing := (pl_processing s)[j := (st, [])]\<rparr>)"

text \<open>A thread of the output server; it gives a bulk to one output after the other.\<close>

inductive export_step :: "('r, 'd, 'ep, 'i, 'p, 'q, 'o, 'st, 's, 'sc, 'fn, 'v) program
    \<Rightarrow> ('d, 'ep, 'i, 'p, 'q, 'o, 'st) pipeline \<Rightarrow> ('d, 'ep, 'i, 'p, 'q, 'o, 'st) pipeline \<Rightarrow> bool"
  for G where
  export_take: "j < length (pl_exporting s) \<Longrightarrow> fst (pl_exporting s ! j) = [] \<Longrightarrow>
    mq_try_dequeue_bulk (ql_main (pr_queues G)) (sq_main (pl_queues s)) max_queue_bulk_size = (q, messages) \<Longrightarrow>
    export_step G s (s\<lparr>pl_queues := (pl_queues s)\<lparr>sq_main := q\<rparr>,
      pl_exporting := (pl_exporting s)[j := if pl_outputs s = [] then ([], 0) else (messages, 0)]\<rparr>)"
| export_give: "j < length (pl_exporting s) \<Longrightarrow> pl_exporting s ! j = (messages, k) \<Longrightarrow> messages \<noteq> [] \<Longrightarrow>
    k < length (pl_outputs s) \<Longrightarrow> pl_outputs s ! k = (out, sk) \<Longrightarrow>
    output_importMessages (pr_records G) (pr_convert G) [] messages out = Some (Inr (out', ok)) \<Longrightarrow>
    export_step G s (s\<lparr>pl_outputs := (pl_outputs s)[k := (out', sk)],
      pl_exporting := (pl_exporting s)[j := next_output (length (pl_outputs s)) (messages, k)]\<rparr>)"

text \<open>A sending thread of an output: each thread of a GELF output has a connection of its own.\<close>

inductive send_step :: "('r, 'd, 'ep, 'i, 'p, 'q, 'o, 'st, 's, 'sc, 'fn, 'v) program
    \<Rightarrow> ('d, 'ep, 'i, 'p, 'q, 'o, 'st) pipeline \<Rightarrow> ('d, 'ep, 'i, 'p, 'q, 'o, 'st) pipeline \<Rightarrow> bool"
  for G where
  send_peers: "k < length (pl_outputs s) \<Longrightarrow> pl_outputs s ! k = (out, ToPeers sds) \<Longrightarrow>
    j < length sds \<Longrightarrow> sds ! j = sd \<Longrightarrow>
    gelf_output_turn (pr_records G) as (out, sd, pl_total_send s) = Some ((out', sd', n'), as') \<Longrightarrow> list_all at_running as \<Longrightarrow>
    send_step G s (s\<lparr>pl_outputs := (pl_outputs s)[k := (out', ToPeers (sds[j := sd']))], pl_total_send := n'\<rparr>)"
| send_log: "k < length (pl_outputs s) \<Longrightarrow> pl_outputs s ! k = (out, ToLog lines) \<Longrightarrow>
    log_output_turn (pr_records G) (out, lines, pl_total_send s) = (out', lines', n') \<Longrightarrow>
    send_step G s (s\<lparr>pl_outputs := (pl_outputs s)[k := (out', ToLog lines')], pl_total_send := n'\<rparr>)"

inductive pipeline_step :: "('r, 'd, 'ep, 'i, 'p, 'q, 'o, 'st, 's, 'sc, 'fn, 'v) program
    \<Rightarrow> ('d, 'ep, 'i, 'p, 'q, 'o, 'st) pipeline \<Rightarrow> (nat \<times> 'r) list \<Rightarrow> ('d, 'ep, 'i, 'p, 'q, 'o, 'st) pipeline \<Rightarrow> bool"
  for G where
  importing: "import_step G s bs s' \<Longrightarrow> pipeline_step G s bs s'"
| processing: "process_step G s s' \<Longrightarrow> pipeline_step G s [] s'"
| exporting: "export_step G s s' \<Longrightarrow> pipeline_step G s [] s'"
| sending: "send_step G s s' \<Longrightarrow> pipeline_step G s [] s'"

lemmas arrive = pipeline_step.importing [OF import_step.arrive]
lemmas import_take = pipeline_step.importing [OF import_step.import_take]
lemmas import_push = pipeline_step.importing [OF import_step.import_push]
lemmas process_take = pipeline_step.processing [OF process_step.process_take]
lemmas process_push = pipeline_step.processing [OF process_step.process_push]
lemmas export_take = pipeline_step.exporting [OF export_step.export_take]
lemmas export_give = pipeline_step.exporting [OF export_step.export_give]
lemmas send_peers = pipeline_step.sending [OF send_step.send_peers]
lemmas send_log = pipeline_step.sending [OF send_step.send_log]

inductive pipeline_run :: "('r, 'd, 'ep, 'i, 'p, 'q, 'o, 'st, 's, 'sc, 'fn, 'v) program
    \<Rightarrow> ('d, 'ep, 'i, 'p, 'q, 'o, 'st) pipeline \<Rightarrow> (nat \<times> 'r) list \<Rightarrow> ('d, 'ep, 'i, 'p, 'q, 'o, 'st) pipeline \<Rightarrow> bool"
  for G s0 where
  start: "pipeline_run G s0 [] s0"
| step: "pipeline_run G s0 as s \<Longrightarrow> pipeline_step G s bs s' \<Longrightarrow> pipeline_run G s0 (as @ bs) s'"

text \<open>A program that has been set up and has not run yet.\<close>

definition pipeline_init :: "('r, 'd, 'ep, 'i, 'p, 'q, 'o, 'st, 's, 'sc, 'fn, 'v) program
    \<Rightarrow> ('d, 'ep, 'i, 'p, 'q, 'o, 'st) pipeline \<Rightarrow> bool" where
  "pipeline_init G s \<longleftrightarrow>
     list_all (\<lambda>i. mq_held (ql_input (pr_queues G)) (in_queue i) = {#}) (pl_inputs s)
     \<and> list_all (\<lambda>b. snd b = []) (pl_importing s)
     \<and> mq_held (ql_processor (pr_queues G)) (sq_processor (pl_queues s)) = {#}
     \<and> mq_held (ql_main (pr_queues G)) (sq_main (pl_queues s)) = {#}
     \<and> list_all (\<lambda>b. snd b = []) (pl_processing s)
     \<and> list_all (\<lambda>b. fst b = []) (pl_exporting s)
     \<and> list_all (\<lambda>(out, sk). mq_held (pr_records G) (out_queue out) = {#}
         \<and> (case sk of ToPeers sds \<Rightarrow> out_type out = OUT_GELF \<and> list_all (\<lambda>sd. clean sd \<and> received sd = []) sds | ToLog lines \<Rightarrow> lines = [])) (pl_outputs s)"

subsection \<open>The turns of the threads are runs\<close>

lemma run_trans: "pipeline_run G b bs c \<Longrightarrow> pipeline_run G a as b \<Longrightarrow> pipeline_run G a (as @ bs) c"
proof (induction rule: pipeline_run.induct)
  case (step bs s ds s')
  then show ?case using pipeline_run.step [of G a "as @ bs" s ds s'] by simp
qed simp

lemma run_silent: "pipeline_run G a [] b \<Longrightarrow> pipeline_step G b [] c \<Longrightarrow> pipeline_run G a [] c"
  using pipeline_run.step [of G a "[]" b "[]" c] by simp

lemma run_one: "pipeline_step G s [] s' \<Longrightarrow> pipeline_run G s [] s'"
  using run_silent [OF pipeline_run.start] .

lemma importMessages_run:
  assumes "j < length (pl_importing s)" "snd (pl_importing s ! j) = []" "i < length (pl_inputs s)"
    and "importMessages (pr_queues G) (pr_export G) alone (pl_inputs s ! i) (pl_queues s) = Some (Inr (inp', sq', n))"
  shows "pipeline_run G s [] (s\<lparr>pl_inputs := (pl_inputs s)[i := inp'], pl_queues := sq',
    pl_importing := (pl_importing s)[j := (in_processor (pl_inputs s ! i), [])]\<rparr>)"
proof -
  obtain q records where d: "mq_try_dequeue_bulk (ql_input (pr_queues G)) (in_queue (pl_inputs s ! i)) max_queue_bulk_size = (q, records)"
    by fastforce
  with assms(4) obtain messages where m: "export_bulk (pr_export G) records = Inr messages"
    by (auto simp: importMessages_def Let_def split: sum.splits)
  note take = import_take [OF assms(1-3) refl d m]
  show ?thesis
  proof (cases "messages = []")
    case True
    with assms(4) d m have inp': "inp' = (pl_inputs s ! i)\<lparr>in_queue := q\<rparr>" "sq' = pl_queues s"
      by (auto simp: importMessages_def)
    show ?thesis using take True unfolding inp' by (intro run_one) simp
  next
    case False
    with assms(4) d m obtain ok where sm: "send_messages (pr_queues G) alone (in_processor (pl_inputs s ! i)) messages (pl_queues s) = Some (sq', ok)"
        "inp' = (pl_inputs s ! i)\<lparr>in_queue := q, in_receive_counter := in_receive_counter (pl_inputs s ! i) + of_nat (length messages)\<rparr>"
      by (auto simp: importMessages_def Let_def split: option.splits)
    let ?s = "s\<lparr>pl_inputs := (pl_inputs s)[i := inp'],
      pl_importing := (pl_importing s)[j := (in_processor (pl_inputs s ! i), messages)]\<rparr>"
    have "pipeline_step G ?s [] (?s\<lparr>pl_queues := sq', pl_importing := (pl_importing ?s)[j := (in_processor (pl_inputs s ! i), [])]\<rparr>)"
      using assms(1) False sm(1) by (intro import_push [where messages = messages]) simp_all
    from run_silent [OF run_one this] take show ?thesis by (simp add: sm(2))
  qed
qed

lemma import_all_run:
  assumes "pl_inputs s = pre @ is" "j < length (pl_importing s)" "snd (pl_importing s ! j) = []"
    and "import_all (pr_queues G) (pr_export G) (\<lambda>_. alone) is (pl_queues s) c = Some (Inr (is', sq', c'))"
  shows "\<exists>b. snd b = [] \<and> pipeline_run G s [] (s\<lparr>pl_inputs := pre @ is', pl_queues := sq',
    pl_importing := (pl_importing s)[j := b]\<rparr>)"
  using assms
proof (induction "is" arbitrary: s pre c is')
  case Nil
  have "s\<lparr>pl_inputs := pre, pl_queues := pl_queues s, pl_importing := (pl_importing s)[j := pl_importing s ! j]\<rparr> = s"
    using Nil.prems(1) by simp
  then have "pipeline_run G s [] (s\<lparr>pl_inputs := pre, pl_queues := pl_queues s, pl_importing := (pl_importing s)[j := pl_importing s ! j]\<rparr>)"
    using pipeline_run.start [of G s] by (simp only:)
  with Nil.prems show ?case by (intro exI [of _ "pl_importing s ! j"]) (simp del: list_update_id)
next
  case (Cons i "is")
  from Cons.prems(4) obtain i1 sq1 n is1 where m: "importMessages (pr_queues G) (pr_export G) alone i (pl_queues s) = Some (Inr (i1, sq1, n))"
      and r: "import_all (pr_queues G) (pr_export G) (\<lambda>_. alone) is sq1 (c + n) = Some (Inr (is1, sq', c'))" and is': "is' = i1 # is1"
    by (auto split: option.splits sum.splits prod.splits)
  let ?s = "s\<lparr>pl_inputs := (pre @ [i1]) @ is, pl_queues := sq1, pl_importing := (pl_importing s)[j := (in_processor i, [])]\<rparr>"
  have "pipeline_run G s [] ?s"
    using importMessages_run [OF Cons.prems(2,3), of "length pre" G i1 sq1 n] m Cons.prems(1) by simp
  moreover from Cons.IH [of ?s "pre @ [i1]" "c + n" is1] r Cons.prems(2) obtain b where
      "snd b = []" "pipeline_run G ?s [] (?s\<lparr>pl_inputs := (pre @ [i1]) @ is1, pl_queues := sq', pl_importing := (pl_importing ?s)[j := b]\<rparr>)"
    by auto
  ultimately show ?case using run_trans [of G ?s "[]" _ s "[]"] is' by (intro exI [of _ b]) simp
qed

lemma processor_turn_run:
  assumes "j < length (pl_processing s)" "pl_processing s ! j = (st, [])"
    and "processor_turn (pr_engine G) (pr_json G) (pr_functions G) (ql_processor (pr_queues G)) (ql_main (pr_queues G)) []
      (st, sq_processor (pl_queues s), sq_main (pl_queues s)) = Some (Returned (st', pq', mq'))"
  shows "pipeline_run G s [] (s\<lparr>pl_queues := (pl_queues s)\<lparr>sq_processor := pq', sq_main := mq'\<rparr>,
    pl_processing := (pl_processing s)[j := (st', [])]\<rparr>)"
proof -
  obtain q records where d: "mq_try_dequeue_bulk (ql_processor (pr_queues G)) (sq_processor (pl_queues s)) max_queue_bulk_size = (q, records)"
    by fastforce
  with assms(3) obtain st1 messages where r: "process_records (pr_engine G) (pr_json G) (pr_functions G) st records = Some (st1, Returned messages)"
    by (auto simp: processor_turn_def split: option.splits run_result.splits)
  note take = run_one [OF process_take [OF assms(1,2) d r]]
  show ?thesis
  proof (cases "messages = []")
    case True
    with assms(3) d r have eq: "st' = st1" "pq' = q" "mq' = sq_main (pl_queues s)" by (auto simp: processor_turn_def)
    show ?thesis using take True unfolding eq by simp
  next
    case False
    with assms(3) d r obtain ok t p where e: "mq_enqueue_bulk (ql_main (pr_queues G)) [] (sq_main (pl_queues s)) messages = Some (mq', ok, t, p)"
        "st' = st1" "pq' = q"
      by (auto simp: processor_turn_def split: option.splits)
    let ?s = "s\<lparr>pl_queues := (pl_queues s)\<lparr>sq_processor := q\<rparr>, pl_processing := (pl_processing s)[j := (st1, messages)]\<rparr>"
    have "pipeline_step G ?s [] (?s\<lparr>pl_queues := (pl_queues ?s)\<lparr>sq_main := mq'\<rparr>, pl_processing := (pl_processing ?s)[j := (st1, [])]\<rparr>)"
      using assms(1) False e(1) by (intro process_push [where messages = messages]) simp_all
    from run_silent [OF take this] show ?thesis by (simp add: e)
  qed
qed

lemma import_outputs_run:
  assumes "pl_outputs s = pre @ os" "j < length (pl_exporting s)" "pl_exporting s ! j = (messages, length pre)"
    and "messages \<noteq> []" "os \<noteq> []"
    and "import_outputs (pr_records G) (pr_convert G) (\<lambda>_. []) messages (map fst os) = Some (Inr outs)"
  shows "pipeline_run G s [] (s\<lparr>pl_outputs := pre @ map2 (\<lambda>out o'. (out, snd o')) outs os,
    pl_exporting := (pl_exporting s)[j := ([], 0)]\<rparr>)"
  using assms
proof (induction os arbitrary: s pre outs)
  case (Cons o1 os)
  obtain out sk n where o1: "o1 = (out, sk)" by (cases o1)
  with Cons.prems(6) obtain out' ok outs1 where m: "output_importMessages (pr_records G) (pr_convert G) [] messages out = Some (Inr (out', ok))"
      and r: "import_outputs (pr_records G) (pr_convert G) (\<lambda>_. []) messages (map fst os) = Some (Inr outs1)" and outs: "outs = out' # outs1"
    by (auto split: option.splits sum.splits)
  let ?s = "s\<lparr>pl_outputs := (pre @ [(out', sk)]) @ os,
    pl_exporting := (pl_exporting s)[j := next_output (length pre + Suc (length os)) (messages, length pre)]\<rparr>"
  have "pipeline_step G s [] (s\<lparr>pl_outputs := (pl_outputs s)[length pre := (out', sk)],
      pl_exporting := (pl_exporting s)[j := next_output (length (pl_outputs s)) (messages, length pre)]\<rparr>)"
    using Cons.prems(1-4) m o1 by (intro export_give) simp_all
  then have step: "pipeline_run G s [] ?s" using Cons.prems(1) by (intro run_one) simp
  show ?case
  proof (cases "os = []")
    case True
    with r have "outs1 = []" by simp
    with True step show ?thesis by (simp add: outs o1 next_output_def)
  next
    case False
    then have "pipeline_run G ?s [] (?s\<lparr>pl_outputs := (pre @ [(out', sk)]) @ map2 (\<lambda>out o'. (out, snd o')) outs1 os,
        pl_exporting := (pl_exporting ?s)[j := ([], 0)]\<rparr>)"
      using Cons.prems(2,4) r by (intro Cons.IH) (simp_all add: next_output_def)
    from run_trans [OF this step] show ?thesis by (simp add: outs o1)
  qed
qed simp

lemma output_server_turn_run:
  assumes "j < length (pl_exporting s)" "pl_exporting s ! j = ([], 0)"
    and "output_server_turn (ql_main (pr_queues G)) (pr_records G) (pr_convert G) (\<lambda>_. [])
      \<lparr>os_main = sq_main (pl_queues s), os_outputs = map fst (pl_outputs s)\<rparr> = Some (Inr os')"
  shows "pipeline_run G s [] (s\<lparr>pl_queues := (pl_queues s)\<lparr>sq_main := os_main os'\<rparr>,
    pl_outputs := map2 (\<lambda>out o'. (out, snd o')) (os_outputs os') (pl_outputs s)\<rparr>)"
proof -
  obtain q messages where d: "mq_try_dequeue_bulk (ql_main (pr_queues G)) (sq_main (pl_queues s)) max_queue_bulk_size = (q, messages)"
    by fastforce
  have id: "map2 (\<lambda>out o'. (out, snd o')) (map fst xs) xs = xs" for xs :: "('fst \<times> 'snd) list" by (induction xs) simp_all
  have e: "fst (pl_exporting s ! j) = []" using assms(2) by simp
  note take = run_one [OF export_take [OF assms(1) e d]]
  have again: "(pl_exporting s)[j := ([], 0)] = pl_exporting s" using assms(1,2) by (simp add: list_update_same_conv)
  show ?thesis
  proof (cases "messages = [] \<or> pl_outputs s = []")
    case True
    with assms(3) d have eq: "os' = \<lparr>os_main = q, os_outputs = map fst (pl_outputs s)\<rparr>"
      by (auto simp: output_server_turn_def split: if_splits)
    have out: "(if pl_outputs s = [] then ([], 0) else (messages, 0)) = ([], 0)" using True by auto
    show ?thesis using take unfolding eq out again output_server.simps id by simp
  next
    case False
    with assms(3) d obtain outs where o: "import_outputs (pr_records G) (pr_convert G) (\<lambda>_. []) messages (map fst (pl_outputs s)) = Some (Inr outs)"
        "os' = \<lparr>os_main = q, os_outputs = outs\<rparr>"
      by (auto simp: output_server_turn_def split: option.splits sum.splits)
    let ?s = "s\<lparr>pl_queues := (pl_queues s)\<lparr>sq_main := q\<rparr>, pl_exporting := (pl_exporting s)[j := (messages, 0)]\<rparr>"
    have "pipeline_run G ?s [] (?s\<lparr>pl_outputs := [] @ map2 (\<lambda>out o'. (out, snd o')) outs (pl_outputs ?s),
        pl_exporting := (pl_exporting ?s)[j := ([], 0)]\<rparr>)"
      using False assms(1) o(1) by (intro import_outputs_run) simp_all
    from run_trans [OF this] take False show ?thesis by (simp add: o(2) again)
  qed
qed

text \<open>
  C4: The turns of the server threads, as they are defined one by one (the import of all inputs, the
  turn of the processor, the fan-out of the output server), refine the interleaving model: a turn that
  no other thread interrupts is a run of steps by which no record arrives. So what holds of every run
  holds of every sequence of turns.
\<close>

theorem turns_are_runs:
  assumes "j < length (pl_importing s)" "snd (pl_importing s ! j) = []"
    and "import_all (pr_queues G) (pr_export G) (\<lambda>_. alone) (pl_inputs s) (pl_queues s) c = Some (Inr (is', sq', c'))"
    and "j < length (pl_processing s)" "pl_processing s ! j = (st, [])"
    and "processor_turn (pr_engine G) (pr_json G) (pr_functions G) (ql_processor (pr_queues G)) (ql_main (pr_queues G)) []
      (st, sq_processor (pl_queues s), sq_main (pl_queues s)) = Some (Returned (st', pq', mq'))"
    and "j < length (pl_exporting s)" "pl_exporting s ! j = ([], 0)"
    and "output_server_turn (ql_main (pr_queues G)) (pr_records G) (pr_convert G) (\<lambda>_. [])
      \<lparr>os_main = sq_main (pl_queues s), os_outputs = map fst (pl_outputs s)\<rparr> = Some (Inr os')"
  shows "(\<exists>b. snd b = [] \<and> pipeline_run G s [] (s\<lparr>pl_inputs := is', pl_queues := sq', pl_importing := (pl_importing s)[j := b]\<rparr>))
    \<and> pipeline_run G s [] (s\<lparr>pl_queues := \<lparr>sq_processor = pq', sq_main = mq'\<rparr>, pl_processing := (pl_processing s)[j := (st', [])]\<rparr>)
    \<and> pipeline_run G s [] (s\<lparr>pl_queues := (pl_queues s)\<lparr>sq_main := os_main os'\<rparr>,
        pl_outputs := map2 (\<lambda>out o'. (out, snd o')) (os_outputs os') (pl_outputs s)\<rparr>)"
proof (intro conjI)
  show "\<exists>b. snd b = [] \<and> pipeline_run G s [] (s\<lparr>pl_inputs := is', pl_queues := sq', pl_importing := (pl_importing s)[j := b]\<rparr>)"
    using import_all_run [of s "[]", OF _ assms(1-3)] by simp
  have "(pl_queues s)\<lparr>sq_processor := pq', sq_main := mq'\<rparr> = \<lparr>sq_processor = pq', sq_main = mq'\<rparr>" by simp
  with processor_turn_run [OF assms(4-6)]
  show "pipeline_run G s [] (s\<lparr>pl_queues := \<lparr>sq_processor = pq', sq_main = mq'\<rparr>, pl_processing := (pl_processing s)[j := (st', [])]\<rparr>)"
    by simp
qed (rule output_server_turn_run [OF assms(7-9)])

subsection \<open>A concrete program\<close>

text \<open>Two inputs, the second with a script, a GELF output and a log output; one thread of each server.\<close>

definition demo_program ::
  "(string, int, nat, string list, ((int, nat) message \<times> 16 word) list, (int, nat) message list, string list,
    bool, string, string, unit, string) program" where
  "demo_program = \<lparr>pr_queues = list_libs, pr_records = list_cq,
     pr_export = (\<lambda>r. if r = ''bad'' then Inl IqException else Inr (json_text r)),
     pr_convert = (\<lambda>_ m. Inr (c_str (exportMessage show_lib m))),
     pr_engine = echo_v8, pr_json = show_lib, pr_functions = [(0, ())]\<rparr>"

definition demo_input :: "string \<Rightarrow> 16 word option \<Rightarrow> string list \<Rightarrow> 64 word \<Rightarrow> string list input" where
  "demo_input name script q n =
     \<lparr>in_name = name, in_queue = MessageQueue_default name q, in_receive_counter = n, in_processor = script\<rparr>"

definition demo_out :: "output_type \<Rightarrow> string list \<Rightarrow> 64 word \<Rightarrow> string list output_state" where
  "demo_out ty q n = \<lparr>out_name = ''o'', out_type = ty, out_queue = MessageQueue_default ''o'' q, out_send_counter = n\<rparr>"

type_synonym demo_pipeline =
  "(int, nat, string list, ((int, nat) message \<times> 16 word) list, (int, nat) message list, string list, bool) pipeline"

definition demo_pl where
  "demo_pl i1 i2 b pq mq o1 sd o2 ls n =
     \<lparr>pl_inputs = [i1, i2], pl_importing = [(b, [])],
      pl_queues = \<lparr>sq_processor = MessageQueue_default ''p'' pq, sq_main = MessageQueue_default ''m'' mq\<rparr>,
      pl_processing = [(False, [])], pl_exporting = [([], 0)],
      pl_outputs = [(o1, ToPeers [sd]), (o2, ToLog ls)], pl_total_send = n\<rparr>"

lemma demo_libs [simp]:
  "pr_queues demo_program = list_libs" "pr_records demo_program = list_cq" "pr_engine demo_program = echo_v8"
  "pr_json demo_program = show_lib" "pr_functions demo_program = [(0, ())]"
  "pr_export demo_program r = (if r = ''bad'' then Inl IqException else Inr (json_text r))"
  "pr_convert demo_program ty m = Inr (c_str (exportMessage show_lib m))"
  "ql_input list_libs = list_cq" "ql_processor list_libs = list_cq" "ql_main list_libs = list_cq"
  by (simp_all add: demo_program_def list_libs_def)

lemmas demo_defs = demo_pl_def demo_input_def demo_out_def MessageQueue_default_def list_cq_def max_queue_bulk_size_def
  queue_bulk_def

lemma demo_arrive:
  "pipeline_step demo_program (demo_pl (demo_input ''a'' None q n) i2 b pq mq o1 sd o2 ls n') [(0, r)]
     (demo_pl (demo_input ''a'' None (q @ [r]) n) i2 b pq mq o1 sd o2 ls n')"
  "pipeline_step demo_program (demo_pl i1 (demo_input ''b'' (Some 0) q n) b pq mq o1 sd o2 ls n') [(1, r)]
     (demo_pl i1 (demo_input ''b'' (Some 0) (q @ [r]) n) b pq mq o1 sd o2 ls n')"
  if "length q < 10000"
proof -
  have e: "mq_enqueue list_cq [] (MessageQueue_default nm q) r = Some (MessageQueue_default nm (q @ [r]), True, [], [])" for nm
    using that by (simp add: mq_enqueue_def MessageQueue_default_def list_cq_def)
  show "pipeline_step demo_program (demo_pl (demo_input ''a'' None q n) i2 b pq mq o1 sd o2 ls n') [(0, r)]
     (demo_pl (demo_input ''a'' None (q @ [r]) n) i2 b pq mq o1 sd o2 ls n')"
    using arrive [of 0 "demo_pl (demo_input ''a'' None q n) i2 b pq mq o1 sd o2 ls n'" "demo_input ''a'' None q n"
        demo_program r "MessageQueue_default ''a'' (q @ [r])" True "[]" "[]"] e
    by (simp add: demo_pl_def demo_input_def)
  show "pipeline_step demo_program (demo_pl i1 (demo_input ''b'' (Some 0) q n) b pq mq o1 sd o2 ls n') [(1, r)]
     (demo_pl i1 (demo_input ''b'' (Some 0) (q @ [r]) n) b pq mq o1 sd o2 ls n')"
    using arrive [of 1 "demo_pl i1 (demo_input ''b'' (Some 0) q n) b pq mq o1 sd o2 ls n'" "demo_input ''b'' (Some 0) q n"
        demo_program r "MessageQueue_default ''b'' (q @ [r])" True "[]" "[]"] e
    by (simp add: demo_pl_def demo_input_def)
qed

lemma demo_import:
  "import_all list_libs (pr_export demo_program) (\<lambda>_. alone)
     [demo_input ''a'' None [''ok'', ''bad''] 0, demo_input ''b'' (Some 0) [''js''] 0]
     \<lparr>sq_processor = MessageQueue_default ''p'' [], sq_main = MessageQueue_default ''m'' []\<rparr> 0
   = Some (Inr ([demo_input ''a'' None [] 1, demo_input ''b'' (Some 0) [] 1],
       \<lparr>sq_processor = MessageQueue_default ''p'' [(json_text ''js'', 0)], sq_main = MessageQueue_default ''m'' [json_text ''ok'']\<rparr>, 2))"
  by (simp add: importMessages_def send_messages_def process_bulk_def alone_def mq_try_dequeue_bulk_def mq_enqueue_bulk_def
      demo_defs and_then_def)

lemma demo_process:
  "processor_turn echo_v8 show_lib [(0, ())] list_cq list_cq []
     (False, MessageQueue_default ''p'' [(json_text ''js'', 0)], MessageQueue_default ''m'' [json_text ''ok''])
   = Some (Returned (False, MessageQueue_default ''p'' [], MessageQueue_default ''m'' [json_text ''ok'', MProcessor ''js'']))"
proof -
  have pump: "pump_loop echo_v8 st = Some st" for st by (subst pump_loop.simps) (simp add: echo_v8_def)
  have p: "process_records echo_v8 show_lib [(0, ())] False [(json_text ''js'', 0)] = Some (False, Returned [MProcessor ''js''])"
    by (simp add: isolate_process_def pump makeJsObject_def json_text_def json_exportMessage_def check_caught_def js_message_def)
       (simp add: show_lib_def one_doc_lib_def c_str_def echo_v8_def)
  show ?thesis
    by (simp add: processor_turn_def mq_try_dequeue_bulk_def mq_enqueue_bulk_def demo_defs p del: process_records.simps)
qed

lemma demo_export:
  "output_server_turn list_cq list_cq (pr_convert demo_program) (\<lambda>_. [])
     \<lparr>os_main = MessageQueue_default ''m'' [json_text ''ok'', MProcessor ''js''],
      os_outputs = [demo_out OUT_GELF [] 0, demo_out OUT_LOG [] 0]\<rparr>
   = Some (Inr \<lparr>os_main = MessageQueue_default ''m'' [],
      os_outputs = [demo_out OUT_GELF [''ok'', ''js''] 0, demo_out OUT_LOG [''ok'', ''js''] 0]\<rparr>)"
  by (simp add: output_server_turn_def output_importMessages_def mq_try_dequeue_bulk_def mq_enqueue_bulk_def demo_defs
      and_then_def json_text_def json_exportMessage_def processor_exportMessage_def show_lib_def one_doc_lib_def c_str_def)

lemma demo_busy:
  "import_all list_libs (pr_export demo_program) (\<lambda>_. alone) [demo_input ''a'' None [''bad'', ''ok''] 0]
     \<lparr>sq_processor = MessageQueue_default ''p'' [(json_text ''js'', 0)], sq_main = MessageQueue_default ''m'' [json_text ''ok'']\<rparr> 0
   = Some (Inr ([demo_input ''a'' None [] 1], \<lparr>sq_processor = MessageQueue_default ''p'' [(json_text ''js'', 0)],
       sq_main = MessageQueue_default ''m'' [json_text ''ok'', json_text ''ok'']\<rparr>, 1))"
  "output_server_turn list_cq list_cq (pr_convert demo_program) (\<lambda>_. [])
     \<lparr>os_main = MessageQueue_default ''m'' [json_text ''ok''], os_outputs = [demo_out OUT_LOG [''x''] 0]\<rparr>
   = Some (Inr \<lparr>os_main = MessageQueue_default ''m'' [], os_outputs = [demo_out OUT_LOG [''x'', ''ok''] 0]\<rparr>)"
  by (simp add: importMessages_def send_messages_def alone_def mq_try_dequeue_bulk_def mq_enqueue_bulk_def
      demo_defs and_then_def)
     (simp add: output_server_turn_def output_importMessages_def mq_try_dequeue_bulk_def mq_enqueue_bulk_def demo_defs
      and_then_def json_text_def json_exportMessage_def show_lib_def one_doc_lib_def c_str_def)

definition demo_between :: demo_pipeline where
  "demo_between = \<lparr>pl_inputs = [demo_input ''a'' None [''bad'', ''ok''] 0], pl_importing = [(None, [])],
      pl_queues = \<lparr>sq_processor = MessageQueue_default ''p'' [(json_text ''js'', 0)], sq_main = MessageQueue_default ''m'' [json_text ''ok'']\<rparr>,
      pl_processing = [(False, [])], pl_exporting = [([], 0)], pl_outputs = [(demo_out OUT_LOG [''x''] 0, ToLog [])], pl_total_send = 0\<rparr>"

lemma demo_between_simps:
  "pl_inputs demo_between = [demo_input ''a'' None [''bad'', ''ok''] 0]" "pl_importing demo_between = [(None, [])]"
  "pl_queues demo_between = \<lparr>sq_processor = MessageQueue_default ''p'' [(json_text ''js'', 0)], sq_main = MessageQueue_default ''m'' [json_text ''ok'']\<rparr>"
  "pl_processing demo_between = [(False, [])]" "pl_exporting demo_between = [([], 0)]"
  "pl_outputs demo_between = [(demo_out OUT_LOG [''x''] 0, ToLog [])]"
  by (simp_all add: demo_between_def)

lemma turns_are_runs_witness:
  "pipeline_run demo_program demo_between [] (demo_between\<lparr>pl_queues := \<lparr>sq_processor = MessageQueue_default ''p'' [],
      sq_main = MessageQueue_default ''m'' [json_text ''ok'', MProcessor ''js'']\<rparr>\<rparr>)
   \<and> pipeline_run demo_program demo_between [] (demo_between\<lparr>pl_queues := \<lparr>sq_processor = MessageQueue_default ''p'' [(json_text ''js'', 0)],
      sq_main = MessageQueue_default ''m'' []\<rparr>, pl_outputs := [(demo_out OUT_LOG [''x'', ''ok''] 0, ToLog [])]\<rparr>)"
proof -
  have n: "0 < length (pl_importing demo_between)" "snd (pl_importing demo_between ! 0) = []" "0 < length (pl_processing demo_between)"
    "pl_processing demo_between ! 0 = (False, [])" "0 < length (pl_exporting demo_between)" "pl_exporting demo_between ! 0 = ([], 0)"
    by (simp_all add: demo_between_simps)
  have same: "demo_between\<lparr>pl_queues := q, pl_processing := [(False, [])]\<rparr> = demo_between\<lparr>pl_queues := q\<rparr>" for q
    by (simp add: demo_between_def)
  note turns = turns_are_runs [OF n(1,2) _ n(3,4) _ n(5,6), where G = demo_program and c = 0, unfolded demo_between_simps demo_libs(1-5,8-10) list.map fst_conv
      shared_queues.simps, OF demo_busy(1) demo_process demo_busy(2)]
  then show ?thesis by (simp add: same)
qed

end
