(* ===== verification/IQ_Flow.thy ===== *)
theory IQ_Flow
  imports IQ_Pipeline
begin

text \<open>
  What the whole program conserves and delivers, over every interleaving of its threads (IQ_Pipeline):
  a ledger of everything that has arrived, that the scripts have made, that the stages hold, that the
  outputs have sent and that full queues have refused. Every step keeps it balanced.
\<close>

subsection \<open>The ledger\<close>

definition gather :: "('a \<Rightarrow> 'b multiset) \<Rightarrow> 'a list \<Rightarrow> 'b multiset" where
  "gather f xs = sum_list (map f xs)"

lemma gather_simps [simp]: "gather f [] = {#}" "gather f (x # xs) = f x + gather f xs"
  by (simp_all add: gather_def)

lemma gather_update: "i < length xs \<Longrightarrow> gather f (xs[i := y]) + f (xs ! i) = gather f xs + f y"
  by (induction xs arbitrary: i) (auto simp: ac_simps split: nat.splits)

lemma gather_same: "i < length xs \<Longrightarrow> f y = f (xs ! i) \<Longrightarrow> gather f (xs[i := y]) = gather f xs"
  using gather_update [of i xs f y] by simp

lemma gather_empty: "\<forall>x \<in> set xs. f x = {#} \<Longrightarrow> gather f xs = {#}"
  by (induction xs) simp_all

text \<open>What the stages hold, as messages; \<open>plain\<close> tells messages of inputs without a script from the others.\<close>

definition held_inputs :: "('r, 'd, 'ep, 'i, 'p, 'q, 'o, 'st, 's, 'sc, 'fn, 'v) program \<Rightarrow> bool
    \<Rightarrow> ('d, 'ep, 'i, 'p, 'q, 'o, 'st) pipeline \<Rightarrow> ('d, 'ep) message multiset" where
  "held_inputs G plain s =
     gather (\<lambda>i. if (in_processor i = None) = plain
       then mconv (exported (pr_export G)) (mq_held (ql_input (pr_queues G)) (in_queue i)) else {#}) (pl_inputs s)"

definition held_importing :: "bool \<Rightarrow> ('d, 'ep, 'i, 'p, 'q, 'o, 'st) pipeline \<Rightarrow> ('d, 'ep) message multiset" where
  "held_importing plain s = gather (\<lambda>b. if (fst b = None) = plain then mset (snd b) else {#}) (pl_importing s)"

definition held_scripts :: "('r, 'd, 'ep, 'i, 'p, 'q, 'o, 'st, 's, 'sc, 'fn, 'v) program
    \<Rightarrow> ('d, 'ep, 'i, 'p, 'q, 'o, 'st) pipeline \<Rightarrow> ('d, 'ep) message multiset" where
  "held_scripts G s = image_mset fst (mq_held (ql_processor (pr_queues G)) (sq_processor (pl_queues s)))"

definition held_processing :: "('d, 'ep, 'i, 'p, 'q, 'o, 'st) pipeline \<Rightarrow> ('d, 'ep) message multiset" where
  "held_processing s = gather (\<lambda>b. mset (snd b)) (pl_processing s)"

definition held_main :: "('r, 'd, 'ep, 'i, 'p, 'q, 'o, 'st, 's, 'sc, 'fn, 'v) program
    \<Rightarrow> ('d, 'ep, 'i, 'p, 'q, 'o, 'st) pipeline \<Rightarrow> ('d, 'ep) message multiset" where
  "held_main G s = mq_held (ql_main (pr_queues G)) (sq_main (pl_queues s))"

text \<open>The messages an output-server thread has taken and not yet handed to output \<open>k\<close>.\<close>

definition held_exporting :: "nat \<Rightarrow> ('d, 'ep, 'i, 'p, 'q, 'o, 'st) pipeline \<Rightarrow> ('d, 'ep) message multiset" where
  "held_exporting k s = gather (\<lambda>b. if snd b \<le> k then mset (fst b) else {#}) (pl_exporting s)"

definition arrived :: "('r, 'd, 'ep, 'i, 'p, 'q, 'o, 'st, 's, 'sc, 'fn, 'v) program \<Rightarrow> bool
    \<Rightarrow> ('d, 'ep, 'i, 'p, 'q, 'o, 'st) pipeline \<Rightarrow> (nat \<times> 'r) list \<Rightarrow> ('d, 'ep) message multiset" where
  "arrived G plain s as =
     mconv (exported (pr_export G)) (mset (map snd (filter (\<lambda>a. (in_processor (pl_inputs s ! fst a) = None) = plain) as)))"

text \<open>What an output makes of messages, and what its peers or the log have got.\<close>

definition made_for :: "('r, 'd, 'ep, 'i, 'p, 'q, 'o, 'st, 's, 'sc, 'fn, 'v) program \<Rightarrow> 'o output_state
    \<Rightarrow> ('d, 'ep) message multiset \<Rightarrow> string multiset" where
  "made_for G out M = mconv (exported (pr_convert G (out_type out))) M"

definition sink_got :: "sink \<Rightarrow> string list" where
  "sink_got sk = (case sk of ToPeers sds \<Rightarrow> concat (map received sds) | ToLog lines \<Rightarrow> lines)"

definition delivered :: "string multiset \<Rightarrow> sink \<Rightarrow> bool" where
  "delivered S sk \<longleftrightarrow> filter_mset (\<lambda>r. r \<noteq> []) S \<subseteq># mset (sink_got sk) \<and> set (sink_got sk) \<subseteq> set_mset S"

record ('d, 'ep) ledger =
  lg_made :: "('d, 'ep) message multiset"
  lg_scripted :: "('d, 'ep) message multiset"
  lg_handed :: "('d, 'ep) message multiset"
  lg_lost :: "('d, 'ep) message multiset"
  lg_unscripted :: "('d, 'ep) message multiset"
  lg_sent :: "nat \<Rightarrow> string multiset"
  lg_refused :: "nat \<Rightarrow> string multiset"

definition inputs_balance :: "('r, 'd, 'ep, 'i, 'p, 'q, 'o, 'st, 's, 'sc, 'fn, 'v) program
    \<Rightarrow> (nat \<times> 'r) list \<Rightarrow> ('d, 'ep, 'i, 'p, 'q, 'o, 'st) pipeline \<Rightarrow> ('d, 'ep) ledger \<Rightarrow> bool" where
  "inputs_balance G as s lg \<longleftrightarrow>
     arrived G True s as + lg_made lg
       = held_inputs G True s + held_importing True s + held_processing s + held_main G s + lg_handed lg + lg_lost lg"

definition scripts_balance :: "('r, 'd, 'ep, 'i, 'p, 'q, 'o, 'st, 's, 'sc, 'fn, 'v) program
    \<Rightarrow> (nat \<times> 'r) list \<Rightarrow> ('d, 'ep, 'i, 'p, 'q, 'o, 'st) pipeline \<Rightarrow> ('d, 'ep) ledger \<Rightarrow> bool" where
  "scripts_balance G as s lg \<longleftrightarrow>
     arrived G False s as
       = held_inputs G False s + held_importing False s + held_scripts G s + lg_scripted lg + lg_unscripted lg
     \<and> size (lg_made lg) \<le> size (lg_scripted lg) \<and> (\<forall>m \<in># lg_made lg. \<exists>d. m = MProcessor d)"

definition output_balance :: "('r, 'd, 'ep, 'i, 'p, 'q, 'o, 'st, 's, 'sc, 'fn, 'v) program
    \<Rightarrow> ('d, 'ep, 'i, 'p, 'q, 'o, 'st) pipeline \<Rightarrow> ('d, 'ep) ledger \<Rightarrow> nat \<Rightarrow> bool" where
  "output_balance G s lg k \<longleftrightarrow>
     (case pl_outputs s ! k of (out, sk) \<Rightarrow>
        made_for G out (lg_handed lg)
          = made_for G out (held_exporting k s) + mq_held (pr_records G) (out_queue out) + lg_sent lg k + lg_refused lg k
        \<and> delivered (lg_sent lg k) sk)"

text \<open>What a frame must not contain, and which kind of output has which sink.\<close>

definition outputs_ok :: "('r, 'd, 'ep, 'i, 'p, 'q, 'o, 'st, 's, 'sc, 'fn, 'v) program
    \<Rightarrow> ('d, 'ep, 'i, 'p, 'q, 'o, 'st) pipeline \<Rightarrow> bool" where
  "outputs_ok G s \<longleftrightarrow>
     (\<forall>(out, sk) \<in> set (pl_outputs s). case sk of
        ToPeers sds \<Rightarrow> out_type out = OUT_GELF \<and> list_all clean sds \<and> (\<forall>r \<in># mq_held (pr_records G) (out_queue out). nul_free r)
      | ToLog lines \<Rightarrow> True)"

definition lossless :: "('r, 'd, 'ep, 'i, 'p, 'q, 'o, 'st, 's, 'sc, 'fn, 'v) program
    \<Rightarrow> ('d, 'ep, 'i, 'p, 'q, 'o, 'st) pipeline \<Rightarrow> bool" where
  "lossless G s \<longleftrightarrow>
     cq_reliable (ql_processor (pr_queues G)) \<and> cq_reliable (ql_main (pr_queues G)) \<and> cq_reliable (pr_records G)
     \<and> mq_waits (sq_processor (pl_queues s)) \<and> mq_waits (sq_main (pl_queues s))
     \<and> list_all (\<lambda>o'. mq_waits (out_queue (fst o'))) (pl_outputs s)"

definition nothing_lost :: "('d, 'ep) ledger \<Rightarrow> bool" where
  "nothing_lost lg \<longleftrightarrow> lg_lost lg = {#} \<and> lg_unscripted lg = {#} \<and> (\<forall>k. lg_refused lg k = {#})"

text \<open>The assumptions on what the program is built from.\<close>

definition program_ok :: "('r, 'd, 'ep, 'i, 'p, 'q, 'o, 'st, 's, 'sc, 'fn, 'v) program \<Rightarrow> bool" where
  "program_ok G \<longleftrightarrow> cq_ok (ql_input (pr_queues G)) \<and> cq_ok (ql_processor (pr_queues G)) \<and> cq_ok (ql_main (pr_queues G))
     \<and> cq_ok (pr_records G) \<and> (\<forall>m r. pr_convert G OUT_GELF m = Inr r \<longrightarrow> nul_free r)"

definition balanced :: "('r, 'd, 'ep, 'i, 'p, 'q, 'o, 'st, 's, 'sc, 'fn, 'v) program
    \<Rightarrow> ('d, 'ep, 'i, 'p, 'q, 'o, 'st) pipeline \<Rightarrow> (nat \<times> 'r) list \<Rightarrow> ('d, 'ep, 'i, 'p, 'q, 'o, 'st) pipeline
    \<Rightarrow> ('d, 'ep) ledger \<Rightarrow> bool" where
  "balanced G s0 as s lg \<longleftrightarrow>
     map in_processor (pl_inputs s) = map in_processor (pl_inputs s0)
     \<and> list_all (\<lambda>a. fst a < length (pl_inputs s)) as
     \<and> length (pl_outputs s) = length (pl_outputs s0)
     \<and> lossless G s = lossless G s0
     \<and> inputs_balance G as s lg \<and> scripts_balance G as s lg
     \<and> (\<forall>k < length (pl_outputs s). output_balance G s lg k)
     \<and> outputs_ok G s \<and> (lossless G s0 \<longrightarrow> nothing_lost lg)"

subsection \<open>Every step keeps the balance\<close>

lemma arrived_append: "arrived G plain s (as @ bs) = arrived G plain s as + arrived G plain s bs"
  by (simp add: arrived_def)

lemma in_processor_nth:
  "map in_processor (pl_inputs s) = map in_processor (pl_inputs s') \<Longrightarrow> i < length (pl_inputs s) \<Longrightarrow>
   in_processor (pl_inputs s ! i) = in_processor (pl_inputs s' ! i)"
  by (metis length_map nth_map)

lemma arrived_cong:
  assumes "map in_processor (pl_inputs s) = map in_processor (pl_inputs s')" "list_all (\<lambda>a. fst a < length (pl_inputs s)) as"
  shows "arrived G plain s as = arrived G plain s' as"
proof -
  have "filter (\<lambda>a. (in_processor (pl_inputs s ! fst a) = None) = plain) as
      = filter (\<lambda>a. (in_processor (pl_inputs s' ! fst a) = None) = plain) as"
    using in_processor_nth [OF assms(1)] assms(2) by (intro filter_cong) (auto simp: list_all_iff)
  then show ?thesis by (simp add: arrived_def)
qed

lemma gather_add: "i < length xs \<Longrightarrow> f y = f (xs ! i) + d \<Longrightarrow> gather f (xs[i := y]) = gather f xs + d"
  using gather_update [of i xs f y] by simp

lemma gather_sub: "i < length xs \<Longrightarrow> f (xs ! i) = f y + d \<Longrightarrow> gather f xs = gather f (xs[i := y]) + d"
  using gather_update [of i xs f y] by simp

lemma mq_enqueue_alone:
  assumes "cq_ok L" "mq_enqueue L [] q r = Some (q', ok, t, p)"
  shows "mq_held L q' = mq_held L q + (if ok then {#r#} else {#})"
proof -
  have "t = [] \<and> p = []"
    using assms(2) by (auto simp: mq_enqueue_def Let_def split: if_splits overflow_type.splits option.splits prod.splits
        dest!: wait_room_alone)
  then show ?thesis using mq_enqueue_balance [OF assms] by (auto simp: push_balance_def split: if_splits)
qed

lemma balancedD:
  assumes "balanced G s0 as s lg"
  shows "map in_processor (pl_inputs s) = map in_processor (pl_inputs s0)" "list_all (\<lambda>a. fst a < length (pl_inputs s)) as"
    "length (pl_outputs s) = length (pl_outputs s0)" "lossless G s = lossless G s0"
    "inputs_balance G as s lg" "scripts_balance G as s lg" "\<And>k. k < length (pl_outputs s) \<Longrightarrow> output_balance G s lg k"
    "outputs_ok G s" "lossless G s0 \<Longrightarrow> nothing_lost lg"
  using assms unfolding balanced_def by blast+

text \<open>A step that leaves the outputs and the threads of the output server alone.\<close>

lemma balanced_upstream:
  assumes "balanced G s0 as s lg" "pl_outputs s' = pl_outputs s" "pl_exporting s' = pl_exporting s"
    and "lg_handed lg' = lg_handed lg" "lg_sent lg' = lg_sent lg" "lg_refused lg' = lg_refused lg"
    and "map in_processor (pl_inputs s') = map in_processor (pl_inputs s)"
    and "mq_waits (sq_main (pl_queues s')) = mq_waits (sq_main (pl_queues s))"
    and "mq_waits (sq_processor (pl_queues s')) = mq_waits (sq_processor (pl_queues s))"
    and "inputs_balance G (as @ bs) s' lg'" "scripts_balance G (as @ bs) s' lg'"
    and "list_all (\<lambda>b. fst b < length (pl_inputs s)) bs"
    and "lossless G s0 \<Longrightarrow> nothing_lost lg \<Longrightarrow> nothing_lost lg'"
  shows "balanced G s0 (as @ bs) s' lg'"
proof -
  note b = balancedD [OF assms(1)]
  have l: "length (pl_inputs s') = length (pl_inputs s)" using assms(7) by (metis length_map)
  have "lossless G s' = lossless G s" using assms(2,8,9) by (simp add: lossless_def)
  moreover have "output_balance G s' lg' k = output_balance G s lg k" for k
    using assms(2-6) by (simp add: output_balance_def held_exporting_def)
  moreover have "outputs_ok G s' = outputs_ok G s" using assms(2) by (simp add: outputs_ok_def)
  ultimately show ?thesis
    unfolding balanced_def using b assms(2,7,10-13) l by simp
qed

lemma step_arrive:
  assumes "program_ok G" "balanced G s0 as s lg" "i < length (pl_inputs s)" "pl_inputs s ! i = inp"
    and "mq_enqueue (ql_input (pr_queues G)) [] (in_queue inp) r = Some (q, ok, t, p)"
  shows "balanced G s0 (as @ (if ok then [(i, r)] else [])) (s\<lparr>pl_inputs := (pl_inputs s)[i := inp\<lparr>in_queue := q\<rparr>]\<rparr>) lg"
proof -
  let ?s = "s\<lparr>pl_inputs := (pl_inputs s)[i := inp\<lparr>in_queue := q\<rparr>]\<rparr>" and ?b = "if ok then [(i, r)] else []"
  note b = balancedD [OF assms(2)]
  have h: "mq_held (ql_input (pr_queues G)) q = mq_held (ql_input (pr_queues G)) (in_queue inp) + (if ok then {#r#} else {#})"
    using mq_enqueue_alone [OF _ assms(5)] assms(1) by (simp add: program_ok_def)
  have m: "map in_processor (pl_inputs ?s) = map in_processor (pl_inputs s)"
    using assms(3,4) by (auto simp: map_update list_update_same_conv)
  have pi: "pl_inputs ?s = (pl_inputs s)[i := inp\<lparr>in_queue := q\<rparr>]" by simp
  have hi: "held_inputs G plain ?s = held_inputs G plain s + arrived G plain s ?b" for plain
    unfolding held_inputs_def pi using assms(3,4) h by (intro gather_add) (simp_all add: arrived_def)
  have l: "list_all (\<lambda>a. fst a < length (pl_inputs ?s)) (as @ ?b)" using b(2) assms(3) by simp
  have ar: "arrived G plain ?s (as @ ?b) = arrived G plain s as + arrived G plain s ?b" for plain
    by (subst arrived_cong [OF m l]) (rule arrived_append)
  show ?thesis
  proof (rule balanced_upstream [OF assms(2)])
    show "inputs_balance G (as @ ?b) ?s lg"
      using b(5) unfolding inputs_balance_def ar hi
      by (simp add: held_importing_def held_processing_def held_main_def ac_simps)
    show "scripts_balance G (as @ ?b) ?s lg"
      using b(6) unfolding scripts_balance_def ar hi
      by (simp add: held_importing_def held_scripts_def ac_simps)
  qed (use m assms(3) in simp_all)
qed

lemma arrived_same:
  assumes "balanced G s0 as s lg" "map in_processor (pl_inputs s') = map in_processor (pl_inputs s)"
  shows "arrived G plain s' as = arrived G plain s as"
  using arrived_cong [of s' s as] assms balancedD(2) [OF assms(1)] by (metis length_map)

lemma step_import_take:
  assumes "program_ok G" "balanced G s0 as s lg" "j < length (pl_importing s)" "snd (pl_importing s ! j) = []"
    and "i < length (pl_inputs s)" "pl_inputs s ! i = inp"
    and "mq_try_dequeue_bulk (ql_input (pr_queues G)) (in_queue inp) max_queue_bulk_size = (q, records)"
    and "export_bulk (pr_export G) records = Inr messages"
  shows "balanced G s0 as (s\<lparr>
      pl_inputs := (pl_inputs s)[i := inp\<lparr>in_queue := q,
        in_receive_counter := in_receive_counter inp + of_nat (length messages)\<rparr>],
      pl_importing := (pl_importing s)[j := (in_processor inp, messages)]\<rparr>) lg" (is "balanced G s0 as ?s lg")
proof -
  note b = balancedD [OF assms(2)]
  have h: "mq_held (ql_input (pr_queues G)) (in_queue inp) = mq_held (ql_input (pr_queues G)) q + mset records"
    using mq.pull_law [OF _ assms(7)] assms(1) by (simp add: program_ok_def)
  have ms: "mset messages = mconv (exported (pr_export G)) (mset records)" using export_bulk_Inr [OF assms(8)] by simp
  have m: "map in_processor (pl_inputs ?s) = map in_processor (pl_inputs s)"
    using assms(5,6) by (auto simp: map_update list_update_same_conv)
  let ?d = "\<lambda>plain. if (in_processor inp = None) = plain then mset messages else {#}"
  have pi: "pl_inputs ?s = (pl_inputs s)[i := inp\<lparr>in_queue := q,
        in_receive_counter := in_receive_counter inp + of_nat (length messages)\<rparr>]"
    "pl_importing ?s = (pl_importing s)[j := (in_processor inp, messages)]" by simp_all
  have hi: "held_inputs G plain s = held_inputs G plain ?s + ?d plain" for plain
    unfolding held_inputs_def pi using assms(5,6) h ms by (intro gather_sub) simp_all
  have hm: "held_importing plain ?s = held_importing plain s + ?d plain" for plain
    unfolding held_importing_def pi using assms(3,4) by (intro gather_add) simp_all
  note ar = arrived_same [OF assms(2) m]
  have "balanced G s0 (as @ []) ?s lg"
  proof (rule balanced_upstream [OF assms(2)])
    show "inputs_balance G (as @ []) ?s lg"
      using b(5) unfolding inputs_balance_def append_Nil2 ar hi hm
      by (simp add: held_processing_def held_main_def ac_simps)
    show "scripts_balance G (as @ []) ?s lg"
      using b(6) unfolding scripts_balance_def append_Nil2 ar hi hm
      by (simp add: held_scripts_def ac_simps)
  qed (use m in simp_all)
  then show ?thesis by simp
qed

lemma step_import_push:
  assumes "program_ok G" "balanced G s0 as s lg" "j < length (pl_importing s)" "pl_importing s ! j = (script, messages)"
    and "send_messages (pr_queues G) alone script messages (pl_queues s) = Some (sq, ok)"
  shows "\<exists>lg'. balanced G s0 as (s\<lparr>pl_queues := sq, pl_importing := (pl_importing s)[j := (script, [])]\<rparr>) lg'"
    (is "\<exists>lg'. balanced G s0 as ?s lg'")
proof -
  note b = balancedD [OF assms(2)]
  have ar: "arrived G plain ?s as = arrived G plain s as" for plain by (rule arrived_same [OF assms(2)]) simp
  have pi: "pl_importing ?s = (pl_importing s)[j := (script, [])]" by simp
  have hm: "held_importing plain s = held_importing plain ?s + (if (script = None) = plain then mset messages else {#})" for plain
    unfolding held_importing_def pi using assms(3,4) by (intro gather_sub) simp_all
  have hi: "held_inputs G plain ?s = held_inputs G plain s" for plain by (simp add: held_inputs_def)
  have hp: "held_processing ?s = held_processing s" by (simp add: held_processing_def)
  note rest = inputs_balance_def scripts_balance_def ar hi hp append_Nil2
  have ok: "cq_ok (ql_main (pr_queues G))" "cq_ok (ql_processor (pr_queues G))" using assms(1) by (simp_all add: program_ok_def)
  show ?thesis
  proof (cases script)
    case None
    then obtain mq t p where e: "mq_enqueue_bulk (ql_main (pr_queues G)) [] (sq_main (pl_queues s)) messages = Some (mq, ok, t, p)"
        "sq = (pl_queues s)\<lparr>sq_main := mq\<rparr>"
      using assms(5) by (auto simp: send_messages_def alone_def split: option.splits)
    obtain lost where l: "mq_held (ql_main (pr_queues G)) mq + lost = held_main G s + mset messages"
        "cq_reliable (ql_main (pr_queues G)) \<and> mq_waits (sq_main (pl_queues s)) \<longrightarrow> lost = {#}"
      unfolding held_main_def using flow.push_lost [OF ok(1) e(1)] by blast
    have sc: "held_scripts G ?s = held_scripts G s" "held_main G ?s = mq_held (ql_main (pr_queues G)) mq"
      using e(2) by (simp_all add: held_scripts_def held_main_def)
    have "balanced G s0 (as @ []) ?s (lg\<lparr>lg_lost := lg_lost lg + lost\<rparr>)"
    proof (rule balanced_upstream [OF assms(2)])
      have "mset messages + held_main G s = mq_held (ql_main (pr_queues G)) mq + lost" using l(1) by (simp add: ac_simps)
      with b(5) show "inputs_balance G (as @ []) ?s (lg\<lparr>lg_lost := lg_lost lg + lost\<rparr>)"
        using None unfolding rest sc hm [of True]
        by (simp add: ac_simps)
      show "scripts_balance G (as @ []) ?s (lg\<lparr>lg_lost := lg_lost lg + lost\<rparr>)"
        using b(6) None unfolding rest sc hm [of False] by simp
    qed (use e flow.push_waits [OF e(1)] l(2) b(4) in \<open>auto simp: nothing_lost_def lossless_def\<close>)
    then show ?thesis by auto
  next
    case (Some i)
    then obtain pq t p where e: "mq_enqueue_bulk (ql_processor (pr_queues G)) [] (sq_processor (pl_queues s))
          (map (\<lambda>m. (m, i)) messages) = Some (pq, ok, t, p)" "sq = (pl_queues s)\<lparr>sq_processor := pq\<rparr>"
      using assms(5) by (auto simp: send_messages_def process_bulk_def alone_def split: option.splits)
    obtain lost where l: "mq_held (ql_processor (pr_queues G)) pq + lost
          = mq_held (ql_processor (pr_queues G)) (sq_processor (pl_queues s)) + mset (map (\<lambda>m. (m, i)) messages)"
        "cq_reliable (ql_processor (pr_queues G)) \<and> mq_waits (sq_processor (pl_queues s)) \<longrightarrow> lost = {#}"
      using flow.push_lost [OF ok(2) e(1)] by blast
    have "image_mset fst (mq_held (ql_processor (pr_queues G)) pq + lost) = held_scripts G s + mset messages"
      unfolding l(1) by (simp add: held_scripts_def multiset.map_comp comp_def)
    then have l1: "held_scripts G ?s + image_mset fst lost = held_scripts G s + mset messages"
      using e(2) by (simp add: held_scripts_def)
    have sc: "held_main G ?s = held_main G s" using e(2) by (simp add: held_main_def)
    let ?lg = "lg\<lparr>lg_unscripted := lg_unscripted lg + image_mset fst lost\<rparr>"
    have "balanced G s0 (as @ []) ?s ?lg"
    proof (rule balanced_upstream [OF assms(2)])
      show "inputs_balance G (as @ []) ?s ?lg"
        using b(5) Some unfolding rest sc hm [of True] by simp
      have "mset messages + held_scripts G s = held_scripts G ?s + image_mset fst lost" using l1 by (simp add: ac_simps)
      with b(6) show "scripts_balance G (as @ []) ?s ?lg"
        using Some unfolding rest sc hm [of False]
        by (simp add: ac_simps)
    qed (use e flow.push_waits [OF e(1)] l(2) b(4) in \<open>auto simp: nothing_lost_def lossless_def\<close>)
    then show ?thesis by auto
  qed
qed


lemma step_process_take:
  assumes "program_ok G" "balanced G s0 as s lg" "j < length (pl_processing s)" "pl_processing s ! j = (st, [])"
    and "mq_try_dequeue_bulk (ql_processor (pr_queues G)) (sq_processor (pl_queues s)) max_queue_bulk_size = (q, records)"
    and "process_records (pr_engine G) (pr_json G) (pr_functions G) st records = Some (st', Returned messages)"
  shows "\<exists>lg'. balanced G s0 as (s\<lparr>pl_queues := (pl_queues s)\<lparr>sq_processor := q\<rparr>,
      pl_processing := (pl_processing s)[j := (st', messages)]\<rparr>) lg'" (is "\<exists>lg'. balanced G s0 as ?s lg'")
proof -
  let ?lg = "lg\<lparr>lg_made := lg_made lg + mset messages, lg_scripted := lg_scripted lg + image_mset fst (mset records)\<rparr>"
  note b = balancedD [OF assms(2)]
  have h: "mq_held (ql_processor (pr_queues G)) (sq_processor (pl_queues s))
      = mq_held (ql_processor (pr_queues G)) q + mset records"
    using mq.pull_law [OF _ assms(5)] assms(1) by (simp add: program_ok_def)
  have hs: "held_scripts G s = held_scripts G ?s + image_mset fst (mset records)" using h by (simp add: held_scripts_def)
  have pi: "pl_processing ?s = (pl_processing s)[j := (st', messages)]" by simp
  have hp: "held_processing ?s = held_processing s + mset messages"
    unfolding held_processing_def pi using assms(3,4) by (intro gather_add) simp_all
  have ar: "arrived G plain ?s as = arrived G plain s as" for plain by (rule arrived_same [OF assms(2)]) simp
  have sm: "held_inputs G plain ?s = held_inputs G plain s" "held_importing plain ?s = held_importing plain s"
    "held_main G ?s = held_main G s" for plain
    by (simp_all add: held_inputs_def held_importing_def held_main_def)
  have w: "mq_waits q = mq_waits (sq_processor (pl_queues s))" using flow.pull_waits [OF assms(5)] .
  have "balanced G s0 (as @ []) ?s ?lg"
  proof (rule balanced_upstream [OF assms(2)])
    show "inputs_balance G (as @ []) ?s ?lg"
      using b(5) unfolding inputs_balance_def append_Nil2 ar sm hp by (simp add: ac_simps)
    show "scripts_balance G (as @ []) ?s ?lg"
      using b(6) process_records_out [OF assms(6)] unfolding scripts_balance_def append_Nil2 ar sm hs
      by (auto simp: ac_simps)
  qed (use w in \<open>simp_all add: nothing_lost_def\<close>)
  then show ?thesis by auto
qed

lemma step_process_push:
  assumes "program_ok G" "balanced G s0 as s lg" "j < length (pl_processing s)" "pl_processing s ! j = (st, messages)"
    and "mq_enqueue_bulk (ql_main (pr_queues G)) [] (sq_main (pl_queues s)) messages = Some (q, ok, t, p)"
  shows "\<exists>lg'. balanced G s0 as (s\<lparr>pl_queues := (pl_queues s)\<lparr>sq_main := q\<rparr>,
      pl_processing := (pl_processing s)[j := (st, [])]\<rparr>) lg'" (is "\<exists>lg'. balanced G s0 as ?s lg'")
proof -
  note b = balancedD [OF assms(2)]
  have "cq_ok (ql_main (pr_queues G))" using assms(1) by (simp add: program_ok_def)
  then obtain lost where l: "held_main G ?s + lost = held_main G s + mset messages"
      "cq_reliable (ql_main (pr_queues G)) \<and> mq_waits (sq_main (pl_queues s)) \<longrightarrow> lost = {#}"
    using flow.push_lost [OF _ assms(5)] by (auto simp: held_main_def)
  let ?lg = "lg\<lparr>lg_lost := lg_lost lg + lost\<rparr>"
  have pi: "pl_processing ?s = (pl_processing s)[j := (st, [])]" by simp
  have hp: "held_processing s = held_processing ?s + mset messages"
    unfolding held_processing_def pi using assms(3,4) by (intro gather_sub) simp_all
  have ar: "arrived G plain ?s as = arrived G plain s as" for plain by (rule arrived_same [OF assms(2)]) simp
  have sm: "held_inputs G plain ?s = held_inputs G plain s" "held_importing plain ?s = held_importing plain s"
    "held_scripts G ?s = held_scripts G s" for plain
    by (simp_all add: held_inputs_def held_importing_def held_scripts_def)
  have "mset messages + held_main G s = held_main G ?s + lost" using l(1) by (simp add: ac_simps)
  with b(5) have i: "inputs_balance G (as @ []) ?s ?lg"
    unfolding inputs_balance_def append_Nil2 ar sm hp by (simp add: ac_simps)
  have "balanced G s0 (as @ []) ?s ?lg"
  proof (rule balanced_upstream [OF assms(2) _ _ _ _ _ _ _ _ i])
    show "scripts_balance G (as @ []) ?s ?lg" using b(6) unfolding scripts_balance_def append_Nil2 ar sm by simp
  qed (use flow.push_waits [OF assms(5)] l(2) b(4) in \<open>auto simp: nothing_lost_def lossless_def\<close>)
  then show ?thesis by auto
qed

text \<open>A step of the output side: the inputs, the scripts and what they hold stay.\<close>

lemma balanced_downstream:
  assumes "balanced G s0 as s lg" "pl_inputs s' = pl_inputs s" "pl_importing s' = pl_importing s"
    and "pl_processing s' = pl_processing s" "sq_processor (pl_queues s') = sq_processor (pl_queues s)"
    and "lg_made lg' = lg_made lg" "lg_scripted lg' = lg_scripted lg" "lg_unscripted lg' = lg_unscripted lg" "lg_lost lg' = lg_lost lg"
    and "held_main G s + lg_handed lg = held_main G s' + lg_handed lg'"
    and "mq_waits (sq_main (pl_queues s')) = mq_waits (sq_main (pl_queues s))"
    and "map (\<lambda>o'. mq_waits (out_queue (fst o'))) (pl_outputs s') = map (\<lambda>o'. mq_waits (out_queue (fst o'))) (pl_outputs s)"
    and "\<And>k. k < length (pl_outputs s) \<Longrightarrow> output_balance G s' lg' k" "outputs_ok G s'"
    and "lossless G s0 \<Longrightarrow> nothing_lost lg \<Longrightarrow> nothing_lost lg'"
  shows "balanced G s0 as s' lg'"
proof -
  note b = balancedD [OF assms(1)]
  have l: "length (pl_outputs s') = length (pl_outputs s)" using assms(12) by (metis length_map)
  have "list_all (\<lambda>o'. mq_waits (out_queue (fst o'))) (pl_outputs s') = list_all (\<lambda>o'. mq_waits (out_queue (fst o'))) (pl_outputs s)"
    using arg_cong [OF assms(12), of "list_all id"] by (simp add: list.pred_map comp_def)
  then have "lossless G s' = lossless G s" using assms(5,11) by (simp add: lossless_def)
  moreover have "inputs_balance G as s' lg'"
    using b(5) assms(2-4,6,9,10) by (simp add: inputs_balance_def arrived_def held_inputs_def held_importing_def
        held_processing_def add.assoc add.left_commute)
  moreover have "scripts_balance G as s' lg'"
    using b(6) assms(2-8) by (simp add: scripts_balance_def arrived_def held_inputs_def held_importing_def held_scripts_def)
  ultimately show ?thesis
    unfolding balanced_def using b assms(2,13-15) l by simp
qed

lemma made_for_add: "made_for G out (M + N) = made_for G out M + made_for G out N"
  by (simp add: made_for_def)

lemma step_export_take:
  assumes "program_ok G" "balanced G s0 as s lg" "j < length (pl_exporting s)" "fst (pl_exporting s ! j) = []"
    and "mq_try_dequeue_bulk (ql_main (pr_queues G)) (sq_main (pl_queues s)) max_queue_bulk_size = (q, messages)"
  shows "balanced G s0 as (s\<lparr>pl_queues := (pl_queues s)\<lparr>sq_main := q\<rparr>,
      pl_exporting := (pl_exporting s)[j := if pl_outputs s = [] then ([], 0) else (messages, 0)]\<rparr>)
      (lg\<lparr>lg_handed := lg_handed lg + mset messages\<rparr>)" (is "balanced G s0 as ?s ?lg")
proof (rule balanced_downstream [OF assms(2)])
  have h: "held_main G s = held_main G ?s + mset messages"
    using mq.pull_law [OF _ assms(5)] assms(1) by (simp add: program_ok_def held_main_def)
  then show "held_main G s + lg_handed lg = held_main G ?s + lg_handed ?lg" by (simp add: ac_simps)
  show "mq_waits (sq_main (pl_queues ?s)) = mq_waits (sq_main (pl_queues s))" using flow.pull_waits [OF assms(5)] by simp
  note b = balancedD [OF assms(2)]
  show "outputs_ok G ?s" using b(8) by (simp add: outputs_ok_def)
  show "output_balance G ?s ?lg k" if k: "k < length (pl_outputs s)" for k
  proof -
    have "pl_outputs s \<noteq> []" using k by auto
    then have pe: "pl_exporting ?s = (pl_exporting s)[j := (messages, 0)]" by simp
    have "held_exporting k ?s = held_exporting k s + mset messages"
      unfolding held_exporting_def pe using assms(3,4) by (intro gather_add) simp_all
    then show ?thesis
      using b(7) [OF k] by (auto simp: output_balance_def made_for_add ac_simps split: prod.splits)
  qed
qed (simp_all add: nothing_lost_def)

text \<open>A step that changes what one output holds and has sent.\<close>

lemma balanced_output:
  assumes "balanced G s0 as s lg" "k < length (pl_outputs s)" "pl_outputs s ! k = (out, sk)"
    and "pl_outputs s' = (pl_outputs s)[k := (out', sk')]" "mq_waits (out_queue out') = mq_waits (out_queue out)"
    and "pl_inputs s' = pl_inputs s" "pl_importing s' = pl_importing s" "pl_processing s' = pl_processing s"
    and "pl_queues s' = pl_queues s" "\<And>k'. k' < length (pl_outputs s) \<Longrightarrow> k' \<noteq> k \<Longrightarrow> held_exporting k' s' = held_exporting k' s"
    and "output_balance G s' (lg\<lparr>lg_sent := (lg_sent lg)(k := S), lg_refused := (lg_refused lg)(k := R)\<rparr>) k"
    and "\<And>sds. sk' = ToPeers sds \<Longrightarrow> out_type out' = OUT_GELF \<and> list_all clean sds \<and> (\<forall>r \<in># mq_held (pr_records G) (out_queue out'). nul_free r)"
    and "lossless G s0 \<Longrightarrow> nothing_lost lg \<Longrightarrow> R = {#}"
  shows "balanced G s0 as s' (lg\<lparr>lg_sent := (lg_sent lg)(k := S), lg_refused := (lg_refused lg)(k := R)\<rparr>)" (is "balanced G s0 as s' ?lg")
proof (rule balanced_downstream [OF assms(1)])
  note b = balancedD [OF assms(1)]
  show "map (\<lambda>o'. mq_waits (out_queue (fst o'))) (pl_outputs s') = map (\<lambda>o'. mq_waits (out_queue (fst o'))) (pl_outputs s)"
    unfolding assms(4) using assms(2,3,5) by (auto simp: map_update list_update_same_conv)
  show "held_main G s + lg_handed lg = held_main G s' + lg_handed ?lg" using assms(9) by (simp add: held_main_def)
  show "output_balance G s' ?lg k'" if k': "k' < length (pl_outputs s)" for k'
  proof (cases "k' = k")
    case False
    then show ?thesis using b(7) [OF k'] assms(10) [OF k'] by (simp add: output_balance_def assms(4))
  qed (use assms(11) in simp)
  have "o' = (out', sk') \<or> o' \<in> set (pl_outputs s)" if "o' \<in> set (pl_outputs s')" for o'
    using that set_update_subset_insert [of "pl_outputs s" k "(out', sk')"] by (auto simp: assms(4))
  then show "outputs_ok G s'"
    using b(8) assms(12) unfolding outputs_ok_def by (fastforce split: sink.split)
  show "nothing_lost ?lg" if "lossless G s0" "nothing_lost lg" using that assms(13) by (simp add: nothing_lost_def)
qed (use assms(6-9) in simp_all)

lemma importMessages_lost:
  assumes "cq_ok L" "output_importMessages L conv [] messages out = Some (Inr (out', ok))"
  shows "out_type out' = out_type out \<and> mq_waits (out_queue out') = mq_waits (out_queue out)
    \<and> (\<exists>lost. mq_held L (out_queue out') + lost = mq_held L (out_queue out) + mconv (exported (conv (out_type out))) (mset messages)
        \<and> (cq_reliable L \<and> mq_waits (out_queue out) \<longrightarrow> lost = {#}))"
proof -
  from assms(2) obtain rs where rs: "export_bulk (conv (out_type out)) messages = Inr rs"
    by (cases "export_bulk (conv (out_type out)) messages") (auto simp: output_importMessages_def)
  then have m: "List.map_filter (exported (conv (out_type out))) messages = rs" using export_bulk_Inr [OF rs] by simp
  show ?thesis
  proof (cases "rs = []")
    case True
    with assms(2) rs m show ?thesis by (auto simp: output_importMessages_def)
  next
    case False
    with assms(2) rs obtain q t p where q: "mq_enqueue_bulk L [] (out_queue out) rs = Some (q, ok, t, p)"
        "out' = out\<lparr>out_queue := q\<rparr>"
      by (auto simp: output_importMessages_def split: option.splits)
    then show ?thesis using flow.push_lost [OF assms(1) q(1)] flow.push_waits [OF q(1)] by (simp add: m)
  qed
qed

lemma step_export_give:
  assumes "program_ok G" "balanced G s0 as s lg" "j < length (pl_exporting s)" "pl_exporting s ! j = (messages, k)"
    and "k < length (pl_outputs s)" "pl_outputs s ! k = (out, sk)"
    and "output_importMessages (pr_records G) (pr_convert G) [] messages out = Some (Inr (out', ok))"
  shows "\<exists>lg'. balanced G s0 as (s\<lparr>pl_outputs := (pl_outputs s)[k := (out', sk)],
      pl_exporting := (pl_exporting s)[j := next_output (length (pl_outputs s)) (messages, k)]\<rparr>) lg'"
    (is "\<exists>lg'. balanced G s0 as ?s lg'")
proof -
  note b = balancedD [OF assms(2)]
  have ok: "cq_ok (pr_records G)" using assms(1) by (simp add: program_ok_def)
  note im = importMessages_lost [OF ok assms(7)]
  from im obtain lost where l: "mq_held (pr_records G) (out_queue out') + lost
        = mq_held (pr_records G) (out_queue out) + made_for G out (mset messages)"
      "cq_reliable (pr_records G) \<and> mq_waits (out_queue out) \<longrightarrow> lost = {#}"
    by (auto simp: made_for_def)
  have pe: "pl_exporting ?s = (pl_exporting s)[j := next_output (length (pl_outputs s)) (messages, k)]" by simp
  have he: "held_exporting k' ?s = held_exporting k' s" if "k' < length (pl_outputs s)" "k' \<noteq> k" for k'
    unfolding held_exporting_def pe using assms(3,4) that by (intro gather_same) (auto simp: next_output_def)
  have hk: "held_exporting k s = held_exporting k ?s + mset messages"
    unfolding held_exporting_def pe using assms(3,4) by (intro gather_sub) (auto simp: next_output_def)
  let ?lg = "lg\<lparr>lg_sent := (lg_sent lg)(k := lg_sent lg k), lg_refused := (lg_refused lg)(k := lg_refused lg k + lost)\<rparr>"
  have ty: "made_for G out' M = made_for G out M" for M using im by (simp add: made_for_def)
  have ob: "output_balance G ?s ?lg k"
  proof -
    have "made_for G out (lg_handed lg) = made_for G out (held_exporting k s) + mq_held (pr_records G) (out_queue out)
        + lg_sent lg k + lg_refused lg k" and d: "delivered (lg_sent lg k) sk"
      using b(7) [OF assms(5)] assms(6) by (simp_all add: output_balance_def)
    moreover have "made_for G out (mset messages) + mq_held (pr_records G) (out_queue out)
        = mq_held (pr_records G) (out_queue out') + lost" using l(1) by (simp add: ac_simps)
    ultimately have "made_for G out (lg_handed lg) = made_for G out (held_exporting k ?s)
        + mq_held (pr_records G) (out_queue out') + lg_sent lg k + (lg_refused lg k + lost)"
      unfolding hk made_for_add by (simp add: ac_simps)
    then show ?thesis using d assms(5) by (simp add: output_balance_def ty)
  qed
  have "balanced G s0 as ?s ?lg"
  proof (rule balanced_output [OF assms(2,5,6) _ _ _ _ _ _ he ob])
    fix sds assume sd: "sk = ToPeers sds"
    then have old: "out_type out = OUT_GELF" "list_all clean sds" "\<forall>r \<in># mq_held (pr_records G) (out_queue out). nul_free r"
      using b(8) assms(5,6) nth_mem [OF assms(5)] by (auto simp: outputs_ok_def)
    have "\<forall>r \<in># made_for G out (mset messages). nul_free r"
      using assms(1) old(1) by (auto simp: made_for_def mconv_def exported_def program_ok_def split: sum.splits)
    then have "\<forall>r \<in># mq_held (pr_records G) (out_queue out') + lost. nul_free r" unfolding l(1) using old(3) by auto
    then show "out_type out' = OUT_GELF \<and> list_all clean sds \<and> (\<forall>r \<in># mq_held (pr_records G) (out_queue out'). nul_free r)"
      using old im by auto
  next
    assume "lossless G s0" "nothing_lost lg"
    then show "lg_refused lg k + lost = {#}"
      using l(2) b(4) assms(5,6) nth_mem [OF assms(5)] by (auto simp: nothing_lost_def lossless_def list_all_iff)
  qed (use im in simp_all)
  then show ?thesis by blast
qed

lemma subseq_mset: "subseq xs ys \<Longrightarrow> mset xs \<subseteq># mset ys"
proof (induction rule: list_emb.induct)
  case (list_emb_Cons xs ys y)
  then show ?case by (metis add_mset_add_single mset.simps(2) mset_subset_eq_add_left subset_mset.order_trans)
qed auto

lemma delivered_more:
  assumes "delivered S sk" "sent bulk ext" "mset (sink_got sk') = mset (sink_got sk) + mset ext"
  shows "delivered (S + mset bulk) sk'"
proof -
  have "filter_mset (\<lambda>r. r \<noteq> []) (mset bulk) \<subseteq># mset ext"
    using subseq_mset [of "filter (\<lambda>r. r \<noteq> []) bulk" ext] assms(2) by (simp add: sent_def)
  moreover have "set (sink_got sk') = set (sink_got sk) \<union> set ext"
    using arg_cong [OF assms(3), of set_mset] by simp
  ultimately show ?thesis
    using assms by (auto simp: delivered_def sent_def intro: subset_mset.add_mono)
qed

text \<open>Every turn of a sending thread, seen from the ledger: a bulk leaves the queue and the sink has got it.\<close>

lemma step_send:
  assumes "balanced G s0 as s lg" "k < length (pl_outputs s)" "pl_outputs s ! k = (out, sk)"
    and "mq_held (pr_records G) (out_queue out) = mq_held (pr_records G) (out_queue out') + mset bulk"
    and "out_type out' = out_type out" "mq_waits (out_queue out') = mq_waits (out_queue out)"
    and "sent bulk ext" "mset (sink_got sk') = mset (sink_got sk) + mset ext"
    and "\<And>sds. sk' = ToPeers sds \<Longrightarrow> (\<exists>sds0. sk = ToPeers sds0) \<and> list_all clean sds"
  shows "\<exists>lg'. balanced G s0 as (s\<lparr>pl_outputs := (pl_outputs s)[k := (out', sk')], pl_total_send := n'\<rparr>) lg'"
    (is "\<exists>lg'. balanced G s0 as ?s lg'")
proof -
  note b = balancedD [OF assms(1)]
  let ?lg = "lg\<lparr>lg_sent := (lg_sent lg)(k := lg_sent lg k + mset bulk), lg_refused := (lg_refused lg)(k := lg_refused lg k)\<rparr>"
  have ty: "made_for G out' M = made_for G out M" for M using assms(5) by (simp add: made_for_def)
  have he: "held_exporting k' ?s = held_exporting k' s" for k' by (simp add: held_exporting_def)
  have ob: "output_balance G ?s ?lg k"
  proof -
    have "made_for G out (lg_handed lg) = made_for G out (held_exporting k s) + mq_held (pr_records G) (out_queue out)
        + lg_sent lg k + lg_refused lg k" and d: "delivered (lg_sent lg k) sk"
      using b(7) [OF assms(2)] assms(3) by (simp_all add: output_balance_def)
    with delivered_more [OF d assms(7,8)] show ?thesis
      using assms(2,4) by (simp add: output_balance_def ty he ac_simps)
  qed
  have "balanced G s0 as ?s ?lg"
  proof (rule balanced_output [OF assms(1-3) _ assms(6) _ _ _ _ _ ob])
    fix sds assume "sk' = ToPeers sds"
    then obtain sds0 where sk: "sk = ToPeers sds0" "list_all clean sds" using assms(9) by blast
    then have "out_type out = OUT_GELF" "\<forall>r \<in># mq_held (pr_records G) (out_queue out). nul_free r"
      using b(8) assms(2,3) nth_mem [OF assms(2)] by (auto simp: outputs_ok_def)
    then show "out_type out' = OUT_GELF \<and> list_all clean sds \<and> (\<forall>r \<in># mq_held (pr_records G) (out_queue out'). nul_free r)"
      using sk(2) assms(4,5) by simp
  qed (simp_all add: he nothing_lost_def)
  then show ?thesis by blast
qed

lemma gelf_output_turn_frame:
  "gelf_output_turn L as (out, sd, n) = Some ((out', sd', n'), as') \<Longrightarrow>
   out_type out' = out_type out \<and> mq_waits (out_queue out') = mq_waits (out_queue out)"
  by (auto simp: gelf_output_turn_def split: prod.splits if_splits option.splits dest!: flow.pull_waits)

lemma received_update:
  "j < length sds \<Longrightarrow> received sd' = received (sds ! j) @ ext \<Longrightarrow>
   mset (concat (map received (sds[j := sd']))) = mset (concat (map received sds)) + mset ext"
  by (induction sds arbitrary: j) (auto simp: ac_simps split: nat.splits)

lemma step_send_peers:
  assumes "program_ok G" "balanced G s0 as s lg" "k < length (pl_outputs s)" "pl_outputs s ! k = (out, ToPeers sds)"
    and "j < length sds" "sds ! j = sd"
    and "gelf_output_turn (pr_records G) ats (out, sd, n) = Some ((out', sd', n'), ats')" "list_all at_running ats"
  shows "\<exists>lg'. balanced G s0 as (s\<lparr>pl_outputs := (pl_outputs s)[k := (out', ToPeers (sds[j := sd']))], pl_total_send := n'\<rparr>) lg'"
proof -
  have c: "list_all clean sds" "\<forall>r \<in># mq_held (pr_records G) (out_queue out). nul_free r"
    using balancedD(8) [OF assms(2)] assms(3,4) nth_mem [OF assms(3)] by (auto simp: outputs_ok_def)
  then have "clean sd" using assms(5,6) by (auto simp: list_all_length)
  from gelf_output_turn_received [OF _ assms(7,8) this c(2)] assms(1) obtain bulk ext where
      r: "mq_held (pr_records G) (out_queue out) = mq_held (pr_records G) (out_queue out') + mset bulk"
      "received sd' = received sd @ ext" "sent bulk ext" "clean sd'"
    unfolding program_ok_def by blast
  have "list_all clean (sds[j := sd'])"
    using c(1) r(4) set_update_subset_insert [of sds j sd'] by (auto simp: list_all_iff)
  with r received_update [OF assms(5)] assms(6) gelf_output_turn_frame [OF assms(7)] show ?thesis
    by (intro step_send [OF assms(2-4)]) (auto simp: sink_got_def)
qed

lemma step_send_log:
  assumes "program_ok G" "balanced G s0 as s lg" "k < length (pl_outputs s)" "pl_outputs s ! k = (out, ToLog ls)"
    and "log_output_turn (pr_records G) (out, ls, n) = (out', ls', n')"
  shows "\<exists>lg'. balanced G s0 as (s\<lparr>pl_outputs := (pl_outputs s)[k := (out', ToLog ls')], pl_total_send := n'\<rparr>) lg'"
proof -
  obtain q bulk where d: "mq_try_dequeue_bulk (pr_records G) (out_queue out) queue_bulk = (q, bulk)" by fastforce
  then have "mq_held (pr_records G) (out_queue out) = mq_held (pr_records G) q + mset bulk"
    using mq.pull_law [OF _ d] assms(1) by (simp add: program_ok_def)
  with d flow.pull_waits [OF d] assms(5) show ?thesis
    by (intro step_send [OF assms(2-4), of _ bulk bulk]) (auto simp: log_output_turn_def sink_got_def sent_subseq)
qed

lemma balanced_step:
  assumes "program_ok G" "balanced G s0 as s lg" "pipeline_step G s bs s'"
  shows "\<exists>lg'. balanced G s0 (as @ bs) s' lg'"
  using assms(3)
proof (cases rule: pipeline_step.cases)
  case importing
  then show ?thesis
  proof (cases rule: import_step.cases)
    case (arrive i inp r q ok t p)
    show ?thesis unfolding arrive(1,2) using step_arrive [OF assms(1,2) arrive(3-)] by blast
  next
    case (import_take j i inp q records messages)
    show ?thesis unfolding import_take(1,2) append_Nil2 using step_import_take [OF assms(1,2) import_take(3-)] by blast
  next
    case (import_push j script messages sq ok)
    show ?thesis unfolding import_push(1,2) append_Nil2 using step_import_push [OF assms(1,2) import_push(3-4,6)] by blast
  qed
next
  case processing
  have "\<exists>lg'. balanced G s0 as s' lg'" using processing(2)
  proof (cases rule: process_step.cases)
    case (process_take j st q records st' messages)
    show ?thesis unfolding process_take(1) using step_process_take [OF assms(1,2) process_take(2-)] by blast
  next
    case (process_push j st messages q ok t p)
    show ?thesis unfolding process_push(1) using step_process_push [OF assms(1,2) process_push(2-3,5)] by blast
  qed
  then show ?thesis using processing(1) by simp
next
  case exporting
  have "\<exists>lg'. balanced G s0 as s' lg'" using exporting(2)
  proof (cases rule: export_step.cases)
    case (export_take j q messages)
    show ?thesis unfolding export_take(1) using step_export_take [OF assms(1,2) export_take(2-)] by blast
  next
    case (export_give j messages k out sk out' ok)
    show ?thesis unfolding export_give(1) using step_export_give [OF assms(1,2) export_give(2-3,5-)] by blast
  qed
  then show ?thesis using exporting(1) by simp
next
  case sending
  have "\<exists>lg'. balanced G s0 as s' lg'" using sending(2)
  proof (cases rule: send_step.cases)
    case (send_peers k out sds j sd as out' sd' n' as')
    show ?thesis unfolding send_peers(1) using step_send_peers [OF assms(1,2) send_peers(2-)] by blast
  next
    case (send_log k out lines out' lines' n')
    show ?thesis unfolding send_log(1) using step_send_log [OF assms(1,2) send_log(2-)] by blast
  qed
  then show ?thesis using sending(1) by simp
qed

lemma balanced_init:
  assumes "pipeline_init G s"
  shows "balanced G s [] s \<lparr>lg_made = {#}, lg_scripted = {#}, lg_handed = {#}, lg_lost = {#}, lg_unscripted = {#},
    lg_sent = (\<lambda>_. {#}), lg_refused = (\<lambda>_. {#})\<rparr>" (is "balanced G s [] s ?lg")
proof -
  have e: "held_inputs G plain s = {#}" "held_importing plain s = {#}" "held_scripts G s = {#}" "held_processing s = {#}"
    "held_main G s = {#}" "held_exporting k s = {#}" for plain k
    using assms by (auto simp: pipeline_init_def list_all_iff held_inputs_def held_importing_def held_scripts_def
        held_processing_def held_main_def held_exporting_def intro!: gather_empty)
  have "output_balance G s ?lg k" if "k < length (pl_outputs s)" for k
    using assms nth_mem [OF that]
    by (fastforce simp: pipeline_init_def list_all_iff output_balance_def e made_for_def delivered_def sink_got_def split: sink.splits)
  moreover have "outputs_ok G s"
    using assms by (fastforce simp: pipeline_init_def list_all_iff outputs_ok_def split: sink.splits)
  ultimately show ?thesis
    by (simp add: balanced_def inputs_balance_def scripts_balance_def e arrived_def nothing_lost_def)
qed

lemma balanced_run:
  assumes "pipeline_run G s0 as s" "program_ok G" "pipeline_init G s0"
  shows "\<exists>lg. balanced G s0 as s lg"
  using assms(1)
proof induction
  case start
  then show ?case using balanced_init [OF assms(3)] by blast
next
  case (step as s bs s')
  then show ?case using balanced_step [OF assms(2)] by blast
qed


subsection \<open>Delivery\<close>

text \<open>Nothing is under way: the queues are empty and no thread holds a bulk.\<close>

definition quiet :: "('r, 'd, 'ep, 'i, 'p, 'q, 'o, 'st, 's, 'sc, 'fn, 'v) program
    \<Rightarrow> ('d, 'ep, 'i, 'p, 'q, 'o, 'st) pipeline \<Rightarrow> bool" where
  "quiet G s \<longleftrightarrow>
     list_all (\<lambda>i. mq_held (ql_input (pr_queues G)) (in_queue i) = {#}) (pl_inputs s)
     \<and> list_all (\<lambda>b. snd b = []) (pl_importing s)
     \<and> mq_held (ql_processor (pr_queues G)) (sq_processor (pl_queues s)) = {#}
     \<and> mq_held (ql_main (pr_queues G)) (sq_main (pl_queues s)) = {#}
     \<and> list_all (\<lambda>b. snd b = []) (pl_processing s)
     \<and> list_all (\<lambda>b. fst b = []) (pl_exporting s)
     \<and> list_all (\<lambda>o'. mq_held (pr_records G) (out_queue (fst o')) = {#}) (pl_outputs s)"

lemma quiet_holds_nothing:
  assumes "quiet G s"
  shows "held_inputs G plain s = {#}" "held_importing plain s = {#}" "held_scripts G s = {#}" "held_processing s = {#}"
    "held_main G s = {#}" "held_exporting k s = {#}"
  using assms by (auto simp: quiet_def list_all_iff held_inputs_def held_importing_def held_scripts_def
        held_processing_def held_main_def held_exporting_def intro!: gather_empty)


lemma demo_setup:
  "program_ok demo_program"
  "pipeline_init demo_program (demo_pl (demo_input ''a'' None [] 0) (demo_input ''b'' (Some 0) [] 0) None [] []
     (demo_out OUT_GELF [] 0) (connect True new_sender) (demo_out OUT_LOG [] 0) [] 0)"
proof -
  show "program_ok demo_program"
    by (auto simp: program_ok_def list_cq_ok c_str_def nul_free_def dest: set_takeWhileD)
  have "clean (connect True new_sender)" "received (connect True new_sender) = []"
    by (simp_all add: connect_clean) (simp add: received_def new_sender_def)
  then show "pipeline_init demo_program (demo_pl (demo_input ''a'' None [] 0) (demo_input ''b'' (Some 0) [] 0) None [] []
     (demo_out OUT_GELF [] 0) (connect True new_sender) (demo_out OUT_LOG [] 0) [] 0)"
    by (simp add: pipeline_init_def demo_pl_def demo_input_def demo_out_def mq_held_def MessageQueue_default_def)
qed

text \<open>The run: three records arrive, one is refused, one goes through the script; the peer breaks once.\<close>

definition demo_sent :: sender where
  "demo_sent = \<lparr>sd_conns = [''ok'' @ [CHR 0x00] @ ''js'' @ [CHR 0x00], [], ''ok''], sd_open = True, sd_error = False\<rparr>"

definition demo_last :: "16 word option \<Rightarrow> demo_pipeline" where
  "demo_last b = demo_pl (demo_input ''a'' None [] 1) (demo_input ''b'' (Some 0) [] 1) b [] []
     (demo_out OUT_GELF [] 2) demo_sent (demo_out OUT_LOG [] 2) [''ok'', ''js''] 4"

lemma demo_send:
  "gelf_output_turn list_cq [\<lparr>at_connect = True, at_write = Broken 2, at_running = True\<rparr>,
       \<lparr>at_connect = False, at_write = Written, at_running = True\<rparr>, \<lparr>at_connect = True, at_write = Written, at_running = True\<rparr>]
     (demo_out OUT_GELF [''ok'', ''js''] 0, connect True new_sender, 0) = Some ((demo_out OUT_GELF [] 2, demo_sent, 2), [])"
  "log_output_turn list_cq (demo_out OUT_LOG [''ok'', ''js''] 0, [], 2) = (demo_out OUT_LOG [] 2, [''ok'', ''js''], 4)"
  by (simp_all add: gelf_output_turn_def log_output_turn_def mq_try_dequeue_bulk_def demo_defs demo_sent_def
      buff_len_def flush_def connect_def new_sender_def write_buffer_def deliver_to_def Let_def)

lemma demo_run:
  "\<exists>b. pipeline_run demo_program (demo_pl (demo_input ''a'' None [] 0) (demo_input ''b'' (Some 0) [] 0) None [] []
     (demo_out OUT_GELF [] 0) (connect True new_sender) (demo_out OUT_LOG [] 0) [] 0)
   [(0, ''ok''), (0, ''bad''), (1, ''js'')] (demo_last b)"
proof -
  let ?G = "demo_program" and ?c = "connect True new_sender"
  let ?o = "demo_out OUT_GELF []" and ?l = "demo_out OUT_LOG []" and ?go = "demo_out OUT_GELF [''ok'', ''js''] 0"
    and ?lo = "demo_out OUT_LOG [''ok'', ''js''] 0"
  let ?i = "demo_input ''a'' None" and ?j = "demo_input ''b'' (Some 0)"
  let ?s0 = "demo_pl (?i [] 0) (?j [] 0) None [] [] (?o 0) ?c (?l 0) [] 0"
  let ?s1 = "demo_pl (?i [''ok'', ''bad''] 0) (?j [''js''] 0) None [] [] (?o 0) ?c (?l 0) [] 0"
  let ?s2 = "\<lambda>b. demo_pl (?i [] 1) (?j [] 1) b [(json_text ''js'', 0)] [json_text ''ok''] (?o 0) ?c (?l 0) [] 0"
  let ?s3 = "\<lambda>b. demo_pl (?i [] 1) (?j [] 1) b [] [json_text ''ok'', MProcessor ''js''] (?o 0) ?c (?l 0) [] 0"
  let ?s4 = "\<lambda>b. demo_pl (?i [] 1) (?j [] 1) b [] [] ?go ?c ?lo [] 0"
  let ?a = "\<lambda>q q'. demo_pl (?i q 0) (?j q' 0) None [] [] (?o 0) ?c (?l 0) [] 0"
  have "pipeline_step ?G (?a [] []) [(0, ''ok'')] (?a [''ok''] [])" "pipeline_step ?G (?a [''ok''] []) [(0, ''bad'')] (?a [''ok'', ''bad''] [])"
    "pipeline_step ?G (?a [''ok'', ''bad''] []) [(1, ''js'')] ?s1"
    using demo_arrive(1) [of "[]"] demo_arrive(1) [of "[''ok'']"] demo_arrive(2) [of "[]"] by simp_all
  from pipeline_run.step [OF pipeline_run.step [OF pipeline_run.step [OF pipeline_run.start this(1)] this(2)] this(3)]
  have r1: "pipeline_run ?G ?s0 [(0, ''ok''), (0, ''bad''), (1, ''js'')] ?s1" by simp
  have "\<exists>b. pipeline_run ?G ?s1 [] (?s2 b)"
    using import_all_run [of ?s1 "[]" "[?i [''ok'', ''bad''] 0, ?j [''js''] 0]" 0 ?G] demo_import
    by (auto simp: demo_pl_def)
  then obtain b where r2: "pipeline_run ?G ?s1 [] (?s2 b)" by blast
  have r3: "pipeline_run ?G (?s2 b) [] (?s3 b)"
    using processor_turn_run [of 0 "?s2 b" False ?G False] demo_process by (simp add: demo_pl_def)
  have r4: "pipeline_run ?G (?s3 b) [] (?s4 b)"
    using output_server_turn_run [of 0 "?s3 b" ?G] demo_export by (simp add: demo_pl_def)
  have r5: "pipeline_step ?G (?s4 b) [] (demo_pl (?i [] 1) (?j [] 1) b [] [] (?o 2) demo_sent ?lo [] 2)"
    using send_peers [of 0 "?s4 b" ?go "[?c]" 0 ?c ?G] demo_send(1) by (simp add: demo_pl_def)
  have r6: "pipeline_step ?G (demo_pl (?i [] 1) (?j [] 1) b [] [] (?o 2) demo_sent ?lo [] 2) [] (demo_last b)"
    using send_log [of 1 "demo_pl (?i [] 1) (?j [] 1) b [] [] (?o 2) demo_sent ?lo [] 2" ?lo "[]" ?G] demo_send(2)
    by (simp add: demo_pl_def demo_last_def)
  from run_trans [OF run_silent [OF run_silent [OF run_trans [OF r4 run_trans [OF r3 r2], simplified] r5] r6] r1]
  show ?thesis by auto
qed

definition demo_arrivals :: "(nat \<times> string) list" where
  "demo_arrivals = [(0, ''ok''), (0, ''bad''), (1, ''js'')]"

lemma demo_arrived:
  "arrived demo_program True (demo_last b) demo_arrivals = {#json_text ''ok''#}"
  "arrived demo_program False (demo_last b) demo_arrivals = {#json_text ''js''#}"
  by (simp_all add: arrived_def demo_arrivals_def demo_last_def demo_pl_def demo_input_def exported_def mconv_def)

lemma demo_received: "received demo_sent = [''ok'', ''js'']"
  using split_nul_framed [of "[''ok'', ''js'']"] split_nul_free [of "''ok''"]
  by (simp add: received_def demo_sent_def nul_free_def framed_def)

lemma demo_quiet:
  "quiet demo_program (demo_last b)"
  "lossless demo_program (demo_pl (demo_input ''a'' None [] 0) (demo_input ''b'' (Some 0) [] 0) None [] []
     (demo_out OUT_GELF [] 0) (connect True new_sender) (demo_out OUT_LOG [] 0) [] 0)"
  by (simp_all add: quiet_def lossless_def mq_waits_def mq_held_def demo_last_def demo_pl_def demo_input_def demo_out_def
      MessageQueue_default_def)



end
