(* ===== verification/IQ_Net_Server.thy ===== *)
theory IQ_Net_Server
  imports "HOL-Library.Sublist" IQ_Net_Inputs
begin

text \<open>
  The servers of the network inputs over all their connections: the acceptor and the connections it
  starts (src/inputs/gelf/tcp/Server.h, src/inputs/json/tcp/Server.h), whose handlers run on a few
  threads in the order the network completes operations, and the datagram server of the JSON input
  (src/inputs/json/udp/Server.h).
\<close>

subsection \<open>The TCP server of the GELF input\<close>

text \<open>
  What the network completes: an accept, the arrival of data on a connection (when its handlers run),
  or the end of its stream. \<open>remote_endpoint()\<close> gives nothing once the peer has reset the connection.
\<close>

datatype 'ep tcp_event = Accept bool | Arrive nat "'ep option" string | Finish nat asio_error

text \<open>
  The connections that were started, by number: the bytes buffered and whether a read is pending.
  \<open>ts_enqueued\<close> counts the records.
\<close>

record 'q tcp_server =
  ts_connections :: "(string \<times> conn_next) list"
  ts_accepting :: bool
  ts_queue :: "'q message_queue"
  ts_enqueued :: nat

definition start_accept :: "'q tcp_server \<Rightarrow> 'q tcp_server" where
  "start_accept s = s\<lparr>ts_accepting := True\<rparr>"

definition tcp_Server :: "'q message_queue \<Rightarrow> 'q tcp_server" where
  "tcp_Server mq = start_accept \<lparr>ts_connections = [], ts_accepting = False, ts_queue = mq, ts_enqueued = 0\<rparr>"

definition server_accept :: "bool \<Rightarrow> 'q tcp_server \<Rightarrow> 'q tcp_server" where
  "server_accept err s =
     (case handle_accept err ([], ReadAgain) (ts_connections s) of
        (cs, again) \<Rightarrow>
          (let s' = s\<lparr>ts_connections := cs, ts_accepting := False\<rparr> in if again then start_accept s' else s'))"

definition set_connection :: "nat \<Rightarrow> string \<Rightarrow> conn_next \<Rightarrow> 'q tcp_server \<Rightarrow> 'q tcp_server" where
  "set_connection c b next s = s\<lparr>ts_connections := (ts_connections s)[c := (b, next)]\<rparr>"

definition reading :: "nat \<Rightarrow> 'q tcp_server \<Rightarrow> string option" where
  "reading c s =
     (if c < length (ts_connections s) \<and> snd (ts_connections s ! c) = ReadAgain
      then Some (fst (ts_connections s ! c)) else None)"

definition gelf_server_event :: "('q, (string, 'ep) in_record) cq_lib \<Rightarrow> (nat \<Rightarrow> (string, 'ep) in_record other_act list list)
    \<Rightarrow> string \<Rightarrow> 'ep tcp_event \<Rightarrow> 'q tcp_server \<Rightarrow> 'q tcp_server outcome option" where
  "gelf_server_event L envs m_name ev s =
     (case ev of
        Accept err \<Rightarrow> Some (Inr (if ts_accepting s then server_accept err s else s))
      | Arrive c endpoint d \<Rightarrow>
          (case reading c s of
             None \<Rightarrow> Some (Inr s)
           | Some b \<Rightarrow>
               (case tcp_reads L envs m_name endpoint (ts_enqueued s) (b @ d) (ts_queue s) of
                  None \<Rightarrow> None
                | Some (Inl e) \<Rightarrow> Some (Inl e)
                | Some (Inr (k, b', mq)) \<Rightarrow>
                    Some (Inr ((set_connection c b' ReadAgain s)\<lparr>ts_queue := mq, ts_enqueued := k\<rparr>))))
      | Finish c err \<Rightarrow>
          (case reading c s of
             None \<Rightarrow> Some (Inr s)
           | Some b \<Rightarrow>
               (case gelf_handle_read L (envs (ts_enqueued s)) m_name None (b, ts_queue s) err 0 of
                  None \<Rightarrow> None
                | Some (Inl e) \<Rightarrow> Some (Inl e)
                | Some (Inr ((b', mq), next)) \<Rightarrow> Some (Inr ((set_connection c b' next s)\<lparr>ts_queue := mq\<rparr>)))))"

text \<open>
  The run on \<open>n\<close> threads. A handler that throws ends its thread and has not asked for another read; what it did not
  consume stays in a buffer nobody reads. Without a thread nothing runs any more.
\<close>

definition lose_connection :: "'ep tcp_event \<Rightarrow> 'q tcp_server \<Rightarrow> 'q tcp_server" where
  "lose_connection ev s =
     (case ev of
        Arrive c endpoint d \<Rightarrow> (case reading c s of None \<Rightarrow> s | Some b \<Rightarrow> set_connection c (b @ d) Abandoned s)
      | _ \<Rightarrow> s)"

fun gelf_server_run :: "('q, (string, 'ep) in_record) cq_lib \<Rightarrow> (nat \<Rightarrow> (string, 'ep) in_record other_act list list)
    \<Rightarrow> string \<Rightarrow> nat \<Rightarrow> 'q tcp_server \<Rightarrow> 'ep tcp_event list \<Rightarrow> (nat \<times> 'q tcp_server) option" where
  "gelf_server_run L envs m_name n s [] = Some (n, s)"
| "gelf_server_run L envs m_name 0 s (ev # evs) = Some (0, s)"
| "gelf_server_run L envs m_name (Suc n) s (ev # evs) =
     (case gelf_server_event L envs m_name ev s of
        None \<Rightarrow> None
      | Some (Inl e) \<Rightarrow> gelf_server_run L envs m_name n (lose_connection ev s) evs
      | Some (Inr s') \<Rightarrow> gelf_server_run L envs m_name (Suc n) s' evs)"

subsection \<open>The TCP server of the JSON input\<close>

function json_tcp_reads :: "('q, (string, 'ep) in_record) cq_lib \<Rightarrow> (nat \<Rightarrow> (string, 'ep) in_record other_act list list)
    \<Rightarrow> string \<Rightarrow> 'ep option \<Rightarrow> nat \<Rightarrow> string \<Rightarrow> 'q message_queue
    \<Rightarrow> (nat \<times> string \<times> 'q message_queue) outcome option" where
  "json_tcp_reads L envs m_name endpoint k m_buffer mq =
     (case read_until_len m_buffer of
        None \<Rightarrow> Some (Inr (k, m_buffer, mq))
      | Some n \<Rightarrow>
          (case json_handle_read L (envs k) m_name endpoint (m_buffer, mq) NoError n of
             None \<Rightarrow> None
           | Some (Inl e) \<Rightarrow> Some (Inl e)
           | Some (Inr ((b, mq'), next)) \<Rightarrow> json_tcp_reads L envs m_name endpoint (Suc k) b mq'))"
  by pat_completeness auto
termination
  by (relation "measure (\<lambda>(L, envs, nm, ep, k, b, mq). length b)")
     (auto simp: json_handle_read_def Let_def split: if_splits option.splits sum.splits
        dest!: read_until_len_Some)

declare json_tcp_reads.simps [simp del]

definition json_start_accept :: "'q tcp_server \<Rightarrow> 'q tcp_server" where
  "json_start_accept s = s\<lparr>ts_accepting := True\<rparr>"

definition json_tcp_Server :: "'q message_queue \<Rightarrow> 'q tcp_server" where
  "json_tcp_Server mq = json_start_accept \<lparr>ts_connections = [], ts_accepting = False, ts_queue = mq, ts_enqueued = 0\<rparr>"

definition json_server_accept :: "bool \<Rightarrow> 'q tcp_server \<Rightarrow> 'q tcp_server" where
  "json_server_accept err s =
     json_start_accept (s\<lparr>ts_connections := (if \<not> err then ts_connections s @ [([], ReadAgain)] else ts_connections s),
       ts_accepting := False\<rparr>)"

definition json_server_event :: "('q, (string, 'ep) in_record) cq_lib \<Rightarrow> (nat \<Rightarrow> (string, 'ep) in_record other_act list list)
    \<Rightarrow> string \<Rightarrow> 'ep tcp_event \<Rightarrow> 'q tcp_server \<Rightarrow> 'q tcp_server outcome option" where
  "json_server_event L envs m_name ev s =
     (case ev of
        Accept err \<Rightarrow> Some (Inr (if ts_accepting s then json_server_accept err s else s))
      | Arrive c endpoint d \<Rightarrow>
          (case reading c s of
             None \<Rightarrow> Some (Inr s)
           | Some b \<Rightarrow>
               (case json_tcp_reads L envs m_name endpoint (ts_enqueued s) (b @ d) (ts_queue s) of
                  None \<Rightarrow> None
                | Some (Inl e) \<Rightarrow> Some (Inl e)
                | Some (Inr (k, b', mq)) \<Rightarrow>
                    Some (Inr ((set_connection c b' ReadAgain s)\<lparr>ts_queue := mq, ts_enqueued := k\<rparr>))))
      | Finish c err \<Rightarrow>
          (case reading c s of
             None \<Rightarrow> Some (Inr s)
           | Some b \<Rightarrow>
               (case json_handle_read L (envs (ts_enqueued s)) m_name None (b, ts_queue s) err 0 of
                  None \<Rightarrow> None
                | Some (Inl e) \<Rightarrow> Some (Inl e)
                | Some (Inr ((b', mq), next)) \<Rightarrow> Some (Inr ((set_connection c b' next s)\<lparr>ts_queue := mq\<rparr>)))))"

fun json_server_run :: "('q, (string, 'ep) in_record) cq_lib \<Rightarrow> (nat \<Rightarrow> (string, 'ep) in_record other_act list list)
    \<Rightarrow> string \<Rightarrow> nat \<Rightarrow> 'q tcp_server \<Rightarrow> 'ep tcp_event list \<Rightarrow> (nat \<times> 'q tcp_server) option" where
  "json_server_run L envs m_name n s [] = Some (n, s)"
| "json_server_run L envs m_name 0 s (ev # evs) = Some (0, s)"
| "json_server_run L envs m_name (Suc n) s (ev # evs) =
     (case json_server_event L envs m_name ev s of
        None \<Rightarrow> None
      | Some (Inl e) \<Rightarrow> json_server_run L envs m_name n (lose_connection ev s) evs
      | Some (Inr s') \<Rightarrow> json_server_run L envs m_name (Suc n) s' evs)"

lemma json_tcp_reads_same: "json_tcp_reads L envs nm ep k b mq = tcp_reads L envs nm ep k b mq"
proof (induction L envs nm ep k b mq rule: json_tcp_reads.induct)
  case (1 L envs nm ep k b mq)
  show ?case
    by (subst json_tcp_reads.simps, subst tcp_reads.simps)
       (auto simp: 1 json_handle_read_same split: option.splits sum.splits)
qed

lemma json_server_accept_same: "json_server_accept = server_accept" "json_tcp_Server = tcp_Server"
  by (intro ext; simp add: json_server_accept_def server_accept_def json_start_accept_def start_accept_def handle_accept_def
      json_tcp_Server_def tcp_Server_def)+

lemma json_server_event_same: "json_server_event = gelf_server_event"
  unfolding json_server_event_def gelf_server_event_def json_server_accept_same json_tcp_reads_same json_handle_read_same ..

lemma json_server_run_same: "json_server_run L envs nm n s evs = gelf_server_run L envs nm n s evs"
  by (induction L envs nm n s evs rule: gelf_server_run.induct)
     (simp_all add: json_server_event_same split: option.splits sum.splits)

subsection \<open>The datagram server of the JSON input\<close>

fun json_udp_server :: "('q, (string, 'ep) in_record) cq_lib \<Rightarrow> (nat \<Rightarrow> (string, 'ep) in_record other_act list list)
    \<Rightarrow> string \<Rightarrow> nat \<Rightarrow> 'q message_queue \<Rightarrow> 'ep udp_receive list \<Rightarrow> 'q message_queue option" where
  "json_udp_server L envs m_name k mq [] = Some mq"
| "json_udp_server L envs m_name k mq (r # rs) =
     (case json_udp_handle_receive L (envs k) m_name mq r of
        None \<Rightarrow> None
      | Some mq' \<Rightarrow> json_udp_server L envs m_name (Suc k) mq' rs)"

subsection \<open>Connections are isolated\<close>

text \<open>
  What connection \<open>c\<close> has received by itself, given how many connections were accepted before, and the
  frames it owes for that: those of its stream, up to a frame that is complete when the peer is gone.
\<close>

fun history :: "nat \<Rightarrow> nat \<Rightarrow> 'ep tcp_event list \<Rightarrow> ('ep option \<times> string) list" where
  "history c n [] = []"
| "history c n (Accept err # evs) = history c (if err then n else Suc n) evs"
| "history c n (Arrive c' endpoint d # evs) = (if c' = c \<and> c < n then [(endpoint, d)] else []) @ history c n evs"
| "history c n (Finish c' err # evs) = (if c' = c \<and> c < n \<and> err \<noteq> NoError then [] else history c n evs)"

fun conn_frames :: "string \<Rightarrow> ('ep option \<times> string) list \<Rightarrow> ('ep \<times> string) list" where
  "conn_frames b [] = []"
| "conn_frames b ((endpoint, d) # r) =
     (case split_nul (b @ d) of
        (b', fs) \<Rightarrow>
          (case endpoint of
             Some e \<Rightarrow> map (Pair e) fs @ conn_frames b' r
           | None \<Rightarrow> if fs = [] then conn_frames b' r else []))"

fun enqueue_log :: "('q, (string, 'ep) in_record) cq_lib \<Rightarrow> (nat \<Rightarrow> (string, 'ep) in_record other_act list list)
    \<Rightarrow> string \<Rightarrow> nat \<Rightarrow> (nat \<times> 'ep \<times> string) list \<Rightarrow> 'q message_queue \<Rightarrow> (nat \<times> 'q message_queue) option" where
  "enqueue_log L envs m_name k [] mq = Some (k, mq)"
| "enqueue_log L envs m_name k ((c, e, f) # fs) mq =
     (case mq_enqueue L (envs k) mq (Record m_name f e) of
        None \<Rightarrow> None
      | Some (mq', ok, t, p) \<Rightarrow> enqueue_log L envs m_name (Suc k) fs mq')"

lemma enqueue_log_append:
  "enqueue_log L envs nm k (xs @ ys) mq =
     (case enqueue_log L envs nm k xs mq of None \<Rightarrow> None | Some (k', mq') \<Rightarrow> enqueue_log L envs nm k' ys mq')"
  by (induction xs arbitrary: k mq) (auto split: option.splits)

lemma enqueue_log_frames:
  "enqueue_log L envs nm k (map (\<lambda>f. (c, e, f)) fs) mq = enqueue_frames L envs nm e k fs mq"
  by (induction fs arbitrary: k mq) (auto split: option.splits)

text \<open>A read whose peer is gone throws at the first complete frame and does nothing before it.\<close>

lemma tcp_reads_gone:
  "tcp_reads L envs nm None k b mq =
     (if snd (split_nul b) = [] then Some (Inr (k, b, mq)) else Some (Inl SystemError))"
proof (cases b rule: nul_cases)
  case 1
  then show ?thesis
    by (subst tcp_reads.simps) (simp add: split_nul_free nul_free_def read_until_len_def)
next
  case (2 f r)
  then show ?thesis
    by (subst tcp_reads.simps)
       (simp add: read_until_len_frame split_nul_frame gelf_handle_read_def gelf_tcp_process_def split: prod.splits)
qed

lemma split_nul_none: "snd (split_nul b) = [] \<Longrightarrow> fst (split_nul b) = b"
  by (cases b rule: nul_cases) (auto simp: split_nul_free split_nul_frame split: prod.splits)

text \<open>What a connection still owes in a state of the server.\<close>

definition owed :: "nat \<Rightarrow> 'q tcp_server \<Rightarrow> 'ep tcp_event list \<Rightarrow> ('ep \<times> string) list" where
  "owed c s evs =
     (let h = history c (length (ts_connections s)) evs
      in if c < length (ts_connections s)
         then (case reading c s of None \<Rightarrow> [] | Some b \<Rightarrow> conn_frames b h)
         else conn_frames [] h)"

lemma history_none: "n \<le> c \<Longrightarrow> history c n (Arrive c endpoint d # evs) = history c n evs"
  by simp

definition frames_of :: "nat \<Rightarrow> (nat \<times> 'ep \<times> string) list \<Rightarrow> ('ep \<times> string) list" where
  "frames_of c log = map snd (filter (\<lambda>x. fst x = c) log)"

lemma frames_of_append [simp]: "frames_of c (xs @ ys) = frames_of c xs @ frames_of c ys"
  by (simp add: frames_of_def)

lemma frames_of_conn: "frames_of c (map (\<lambda>f. (c', e, f)) fs) = (if c = c' then map (Pair e) fs else [])"
  by (induction fs) (auto simp: frames_of_def)

definition server_ok :: "'q tcp_server \<Rightarrow> bool" where
  "server_ok s \<longleftrightarrow> ts_accepting s \<and> list_all (\<lambda>x. nul_free (fst x) \<or> snd x \<noteq> ReadAgain) (ts_connections s)"

lemma reading_set:
  "c' < length (ts_connections s) \<Longrightarrow>
   reading c (set_connection c' b next s) = (if c = c' then (if next = ReadAgain then Some b else None) else reading c s)"
  by (auto simp: reading_def set_connection_def nth_list_update)

lemma reading_more: "reading c (s\<lparr>ts_queue := q, ts_enqueued := k\<rparr>) = reading c s" "reading c (s\<lparr>ts_queue := q\<rparr>) = reading c s"
  by (simp_all add: reading_def)

lemma server_accept_simps:
  "ts_connections (server_accept err s) = (if err then ts_connections s else ts_connections s @ [([], ReadAgain)])"
  "ts_accepting (server_accept err s)" "ts_queue (server_accept err s) = ts_queue s"
  "ts_enqueued (server_accept err s) = ts_enqueued s"
  by (simp_all add: server_accept_def handle_accept_def start_accept_def)

lemma reading_accept:
  "reading c (server_accept err s) =
     (if \<not> err \<and> c = length (ts_connections s) then Some [] else reading c s)"
  by (auto simp: reading_def server_accept_simps nth_append)

lemma owed_accept: "owed c (server_accept err s) evs = owed c s (Accept err # evs)"
  by (auto simp: owed_def Let_def reading_accept server_accept_simps split: option.splits)

lemma length_set [simp]: "length (ts_connections (set_connection c b next s)) = length (ts_connections s)"
  by (simp add: set_connection_def)

lemma owed_other:
  "c \<noteq> c' \<Longrightarrow> owed c s (Arrive c' endpoint d # evs) = owed c s evs"
  "c \<noteq> c' \<Longrightarrow> owed c s (Finish c' err # evs) = owed c s evs"
  "c' < length (ts_connections s) \<Longrightarrow> c \<noteq> c' \<Longrightarrow> owed c (set_connection c' b next s) evs = owed c s evs"
  by (auto simp: owed_def Let_def reading_set)

lemma owed_Nil [simp]: "owed c s [] = []"
  by (simp add: owed_def Let_def split: option.splits)

lemma owed_idle:
  assumes "reading c' s = None"
  shows "owed c s (Arrive c' endpoint d # evs) = owed c s evs" "owed c s (Finish c' err # evs) = owed c s evs"
  using assms by (auto simp: owed_def Let_def split: option.splits)

lemma owed_reading:
  "reading c s = Some b \<Longrightarrow> owed c s evs = conn_frames b (history c (length (ts_connections s)) evs)"
  by (simp add: owed_def Let_def reading_def split: if_splits)

lemma reading_length: "reading c s = Some b \<Longrightarrow> c < length (ts_connections s)"
  by (simp add: reading_def split: if_splits)

lemma owed_more [simp]:
  "owed c (s\<lparr>ts_queue := q, ts_enqueued := k\<rparr>) evs = owed c s evs" "owed c (s\<lparr>ts_queue := q\<rparr>) evs = owed c s evs"
  by (simp_all add: owed_def reading_more Let_def)

text \<open>One event: what it enqueues, and what is owed afterwards.\<close>

lemma server_event_log:
  assumes "ts_accepting s" "gelf_server_event L envs nm ev s = Some r"
  shows "case r of
      Inr s' \<Rightarrow> ts_accepting s' \<and> (\<exists>log. enqueue_log L envs nm (ts_enqueued s) log (ts_queue s) = Some (ts_enqueued s', ts_queue s')
        \<and> (\<forall>c evs. owed c s (ev # evs) = frames_of c log @ owed c s' evs))
    | Inl e \<Rightarrow> ts_accepting (lose_connection ev s) \<and> ts_queue (lose_connection ev s) = ts_queue s
        \<and> ts_enqueued (lose_connection ev s) = ts_enqueued s
        \<and> (\<forall>c evs. owed c s (ev # evs) = owed c (lose_connection ev s) evs)"
proof (cases ev)
  case (Accept err)
  with assms show ?thesis
    by (auto simp: gelf_server_event_def server_accept_simps owed_accept frames_of_def intro!: exI [of _ "[]"])
next
  case (Arrive c ep d)
  show ?thesis
  proof (cases "reading c s")
    case None
    with Arrive assms show ?thesis
      by (auto simp: gelf_server_event_def owed_idle frames_of_def intro!: exI [of _ "[]"])
  next
    case (Some b)
    note c = reading_length [OF Some]
    obtain b' fs where sp: "split_nul (b @ d) = (b', fs)" by fastforce
    show ?thesis
    proof (cases ep)
      case None
      show ?thesis
      proof (cases "fs = []")
        case True
        with sp split_nul_none [of "b @ d"] have b': "b' = b @ d" by simp
        have r: "r = Inr ((set_connection c b' ReadAgain s)\<lparr>ts_queue := ts_queue s, ts_enqueued := ts_enqueued s\<rparr>)"
          using assms(2) Arrive Some None True sp b' by (simp add: gelf_server_event_def tcp_reads_gone)
        have "owed x s (ev # evs) = owed x (set_connection c b' ReadAgain s) evs" for x evs
          using c Some Arrive None True sp
          by (cases "x = c") (simp_all add: owed_other owed_reading reading_set)
        with r assms(1) show ?thesis by (simp add: set_connection_def frames_of_def) (auto intro!: exI [of _ "[]"])
      next
        case False
        have r: "r = Inl SystemError"
          using assms(2) Arrive Some None False sp by (simp add: gelf_server_event_def tcp_reads_gone)
        have l: "lose_connection ev s = set_connection c (b @ d) Abandoned s"
          using Arrive Some by (simp add: lose_connection_def)
        have "owed x s (ev # evs) = owed x (set_connection c (b @ d) Abandoned s) evs" for x evs
          using c Some Arrive None False sp
          by (cases "x = c") (simp_all add: owed_other owed_reading reading_set owed_def Let_def)
        with r l assms(1) show ?thesis by (simp add: set_connection_def)
      qed
    next
      case ep: (Some e)
      obtain k mq where q: "enqueue_frames L envs nm e (ts_enqueued s) fs (ts_queue s) = Some (k, mq)"
          "r = Inr ((set_connection c b' ReadAgain s)\<lparr>ts_queue := mq, ts_enqueued := k\<rparr>)"
        using assms(2) Arrive Some ep sp
        by (auto simp: gelf_server_event_def tcp_reads_frames with_rest_def split: option.splits)
      have "owed x s (ev # evs) = frames_of x (map (\<lambda>f. (c, e, f)) fs) @ owed x (set_connection c b' ReadAgain s) evs" for x evs
        using c Some Arrive ep sp
        by (cases "x = c") (simp_all add: owed_other owed_reading reading_set frames_of_conn)
      with q assms(1) show ?thesis
        by (auto simp: enqueue_log_frames set_connection_def intro!: exI [of _ "map (\<lambda>f. (c, e, f)) fs"])
    qed
  qed
next
  case (Finish c err)
  show ?thesis
  proof (cases "reading c s")
    case None
    with Finish assms show ?thesis
      by (auto simp: gelf_server_event_def owed_idle frames_of_def intro!: exI [of _ "[]"])
  next
    case (Some b)
    note c = reading_length [OF Some]
    define nx where "nx = (case err of NoError \<Rightarrow> ReadAgain | Eof \<Rightarrow> Closed | OtherError \<Rightarrow> Abandoned)"
    have r: "r = Inr ((set_connection c b nx s)\<lparr>ts_queue := ts_queue s\<rparr>)"
      using assms(2) Finish Some by (simp add: gelf_server_event_def gelf_handle_read_def nx_def)
    have "owed x s (ev # evs) = owed x (set_connection c b nx s) evs" for x evs
      using c Some Finish
      by (cases "x = c") (auto simp: owed_other owed_reading reading_set owed_def Let_def nx_def split: asio_error.splits)
    with r assms(1) show ?thesis by (simp add: set_connection_def frames_of_def) (auto intro!: exI [of _ "[]"])
  qed
qed

lemma server_run_log:
  "gelf_server_run L envs nm n s evs = Some (n', s') \<Longrightarrow> 0 < n' \<Longrightarrow> ts_accepting s \<Longrightarrow>
   \<exists>log. enqueue_log L envs nm (ts_enqueued s) log (ts_queue s) = Some (ts_enqueued s', ts_queue s')
     \<and> (\<forall>c. frames_of c log = owed c s evs)"
proof (induction L envs nm n s evs rule: gelf_server_run.induct)
  case (1 L envs nm n s)
  then show ?case by (intro exI [of _ "[]"]) (simp add: frames_of_def)
next
  case (3 L envs nm n s ev evs)
  then obtain r where r: "gelf_server_event L envs nm ev s = Some r" by (auto split: option.splits)
  note step = server_event_log [OF 3(5) r]
  show ?case
  proof (cases r)
    case (Inl e)
    with 3(1) [of r e] 3(3-) r step show ?thesis by simp
  next
    case (Inr s1)
    from step Inr obtain log1 where l1: "ts_accepting s1"
        "enqueue_log L envs nm (ts_enqueued s) log1 (ts_queue s) = Some (ts_enqueued s1, ts_queue s1)"
        "\<forall>c evs. owed c s (ev # evs) = frames_of c log1 @ owed c s1 evs" by auto
    from 3(2) [of r s1] 3(3-) r Inr l1(1) obtain log2 where
        "enqueue_log L envs nm (ts_enqueued s1) log2 (ts_queue s1) = Some (ts_enqueued s', ts_queue s')"
        "\<forall>c. frames_of c log2 = owed c s1 evs" by auto
    with l1 show ?thesis by (intro exI [of _ "log1 @ log2"]) (simp add: enqueue_log_append)
  qed
qed simp

lemma conn_frames_steady:
  "nul_free b \<Longrightarrow> conn_frames b (map (Pair (Some e)) ds) = map (Pair e) (snd (split_nul (b @ concat ds)))"
proof (induction ds arbitrary: b)
  case Nil
  then show ?case by (simp add: split_nul_free)
next
  case (Cons d ds)
  obtain b' fs where s: "split_nul (b @ d) = (b', fs)" by fastforce
  then have "nul_free b'" using split_nul_rest [of "b @ d"] by simp
  with Cons.IH [OF this] s split_nul_append [of "b @ d" "concat ds"] show ?case by (simp split: prod.splits)
qed

lemma conn_frames_reset:
  "conn_frames b ((None, d) # r) = (if snd (split_nul (b @ d)) = [] then conn_frames (b @ d) r else [])"
  using split_nul_none [of "b @ d"] by (cases "split_nul (b @ d)") simp

subsection \<open>Properties\<close>

text \<open>
  C10: The connections of a TCP input do not disturb each other. Over any order in which the network
  completes accepts, arrivals and ends of streams, as long as one thread of the input is left: the
  records enqueued are those of a log in which the frames of every connection, in order, are exactly
  those of its own history, whatever the others sent, ended or had reset.
\<close>

theorem connections_isolated:
  assumes "gelf_server_run L envs nm n (tcp_Server mq) evs = Some (n', s')" "0 < n'"
  shows "\<exists>log. enqueue_log L envs nm 0 log mq = Some (ts_enqueued s', ts_queue s')
    \<and> (\<forall>c. frames_of c log = conn_frames [] (history c 0 evs))"
proof -
  have "ts_accepting (tcp_Server mq)" by (simp add: tcp_Server_def start_accept_def)
  from server_run_log [OF assms this] show ?thesis
    by (simp add: tcp_Server_def start_accept_def owed_def Let_def)
qed

text \<open>
  Two connections whose data arrive in turns, and one that is reset by its peer after a frame, which
  costs one of the two threads.
\<close>

definition demo_events :: "nat tcp_event list" where
  "demo_events = [Accept False, Accept False, Arrive 0 (Some 7) ''a'', Arrive 1 (Some 8) (''x'' @ [CHR 0x00] @ ''y''),
     Accept True, Accept False, Arrive 2 None (''z'' @ [CHR 0x00]), Arrive 0 (Some 7) (''b'' @ [CHR 0x00]), Finish 1 Eof,
     Arrive 1 (Some 8) [CHR 0x00]]"

lemma demo_history:
  "history 0 0 demo_events = map (Pair (Some 7)) [''a'', ''b'' @ [CHR 0x00]]"
  "history (Suc 0) 0 demo_events = map (Pair (Some 8)) [''x'' @ [CHR 0x00] @ ''y'']"
  by (simp_all add: demo_events_def)

lemma demo_splits:
  "split_nul [] = ([], [])" "split_nul ''a'' = (''a'', [])" "split_nul (''x'' @ [CHR 0x00] @ ''y'') = (''y'', [''x''])"
  "split_nul (''z'' @ [CHR 0x00]) = ([], [''z''])" "split_nul (''ab'' @ [CHR 0x00]) = ([], [''ab''])"
  by (simp_all add: split_nul.simps read_until_len_def)

lemma demo_server_run:
  "\<exists>s'. gelf_server_run list_cq (\<lambda>_. []) ''in'' 2 (tcp_Server (MessageQueue ''q'' 9 OV_DROP [])) demo_events = Some (1, s')
    \<and> m_messageQueue (ts_queue s') = [Record ''in'' ''x'' 8, Record ''in'' ''ab'' 7] \<and> ts_enqueued s' = 2"
  using demo_splits
  by (simp add: demo_events_def numeral_2_eq_2 gelf_server_event_def tcp_Server_def start_accept_def server_accept_def
      handle_accept_def reading_def set_connection_def tcp_reads_frames tcp_reads_gone with_rest_def lose_connection_def
      gelf_handle_read_def mq_enqueue_def MessageQueue_def)

lemma connections_isolated_witness:
  "\<exists>log mq. enqueue_log list_cq (\<lambda>_. []) ''in'' 0 log (MessageQueue ''q'' 9 OV_DROP []) = Some (2, mq)
    \<and> m_messageQueue mq = [Record ''in'' ''x'' (8 :: nat), Record ''in'' ''ab'' 7]
    \<and> frames_of 0 log = [(7, ''ab'')] \<and> frames_of 1 log = [(8, ''x'')]"
proof -
  obtain s' where s': "gelf_server_run list_cq (\<lambda>_. []) ''in'' 2 (tcp_Server (MessageQueue ''q'' 9 OV_DROP [])) demo_events = Some (1, s')"
      "m_messageQueue (ts_queue s') = [Record ''in'' ''x'' 8, Record ''in'' ''ab'' 7]" "ts_enqueued s' = 2"
    using demo_server_run by blast
  have n: "nul_free []" by (simp add: nul_free_def)
  from connections_isolated [OF s'(1)] obtain log where
      l: "enqueue_log list_cq (\<lambda>_. []) ''in'' 0 log (MessageQueue ''q'' 9 OV_DROP []) = Some (2, ts_queue s')"
      "\<forall>c. frames_of c log = conn_frames [] (history c 0 demo_events)"
    unfolding s'(3) by auto
  have "frames_of 0 log = [(7, ''ab'')]" "frames_of 1 log = [(8, ''x'')]"
    using l(2) demo_splits by (simp_all only: One_nat_def demo_history conn_frames_steady [OF n]) simp_all
  with l(1) s'(2) show ?thesis by blast
qed

text \<open>The same holds of the JSON input, whose server is the same code over records of its own.\<close>

lemma json_connections_isolated:
  assumes "json_server_run L envs nm n (json_tcp_Server mq) evs = Some (n', s')" "0 < n'"
  shows "\<exists>log. enqueue_log L envs nm 0 log mq = Some (ts_enqueued s', ts_queue s')
    \<and> (\<forall>c. frames_of c log = conn_frames [] (history c 0 evs))"
proof -
  have "ts_accepting (tcp_Server mq)" by (simp add: tcp_Server_def start_accept_def)
  from server_run_log [OF assms(1) [unfolded json_server_run_same json_server_accept_same] assms(2) this] show ?thesis
    by (simp add: tcp_Server_def start_accept_def owed_def Let_def)
qed

text \<open>Each datagram that is received without an error and is not empty makes one record, of the bytes received.\<close>

definition datagram_records :: "string \<Rightarrow> 'ep udp_receive list \<Rightarrow> (string, 'ep) in_record list" where
  "datagram_records m_name rs =
     map (\<lambda>r. Record m_name (take (rc_bytes r) (rc_buffer r)) (rc_endpoint r))
       (filter (\<lambda>r. \<not> rc_error r \<and> 0 < rc_bytes r) rs)"

lemma json_datagrams_conserved:
  assumes "cq_ok L"
  shows "json_udp_server L envs nm k mq rs = Some mq' \<Longrightarrow>
    \<exists>taken put lost. mq_held L mq' + mset taken + mset lost = mq_held L mq + mset put + mset (datagram_records nm rs)
      \<and> subseq lost (datagram_records nm rs)"
proof (induction rs arbitrary: k mq)
  case Nil
  then have "mq' = mq" by simp
  then show ?case by (intro exI [of _ "[]"]) (auto simp: datagram_records_def)
next
  case (Cons r rs)
  then obtain mq1 where r: "json_udp_handle_receive L (envs k) nm mq r = Some mq1"
      "json_udp_server L envs nm (Suc k) mq1 rs = Some mq'" by (auto split: option.splits)
  from Cons.IH [OF r(2)] obtain t p l where tl: "mq_held L mq' + mset t + mset l = mq_held L mq1 + mset p + mset (datagram_records nm rs)"
      "subseq l (datagram_records nm rs)" by blast
  show ?case
  proof (cases "\<not> rc_error r \<and> 0 < rc_bytes r")
    case False
    with r(1) tl show ?thesis by (auto simp: json_udp_handle_receive_def datagram_records_def)
  next
    case True
    let ?x = "Record nm (take (rc_bytes r) (rc_buffer r)) (rc_endpoint r)"
    have x: "take (min (length (rc_buffer r)) (rc_bytes r)) (rc_buffer r) = take (rc_bytes r) (rc_buffer r)"
      by (simp add: min_def)
    obtain ok t1 p1 where e: "mq_enqueue L (envs k) mq ?x = Some (mq1, ok, t1, p1)"
      using r(1) True by (auto simp: json_udp_handle_receive_def json_udp_process_def x split: option.splits)
    have b: "mq_held L mq1 + mset t1 = mq_held L mq + mset p1 + (if ok then {#?x#} else {#})"
      using mq_enqueue_balance [OF assms e] by (simp add: push_balance_def)
    have d: "datagram_records nm (r # rs) = ?x # datagram_records nm rs" using True by (simp add: datagram_records_def)
    show ?thesis
    proof (intro exI conjI)
      show "mq_held L mq' + mset (t1 @ t) + mset (if ok then l else ?x # l)
          = mq_held L mq + mset (p1 @ p) + mset (datagram_records nm (r # rs))"
        using b tl(1) by (auto simp: d ac_simps)
      show "subseq (if ok then l else ?x # l) (datagram_records nm (r # rs))"
        using tl(2) by (auto simp: d intro: list_emb_Cons)
    qed
  qed
qed

end
