(* ===== verification/IQ_Chain.thy ===== *)
theory IQ_Chain
  imports IQ_Output_Send
begin

text \<open>
  Two loggers in a row, message by message: what a GELF output (src/outputs/gelf) sends of a message
  and what the GELF and the JSON input of another program (src/inputs/gelf/tcp, src/inputs/json/tcp)
  make of it, through connections that break and reads of any size.
\<close>

subsection \<open>An encoding that travels in frames\<close>

text \<open>
  \<open>env\<close> is what both sides depend on, \<open>good\<close> the values that can travel, \<open>view\<close> what the receiver
  makes of a value.
\<close>

lemma subseq_map_preimage:
  "subseq (map f xs) ys \<Longrightarrow> set ys \<subseteq> f ` A \<Longrightarrow> set xs \<subseteq> A \<Longrightarrow>
   \<exists>zs. ys = map f zs \<and> subseq xs zs \<and> set zs \<subseteq> A"
proof (induction ys arbitrary: xs)
  case (Cons y ys)
  show ?case
  proof (cases "\<exists>x xs'. xs = x # xs' \<and> f x = y \<and> subseq (map f xs') ys")
    case True
    then obtain x xs' where x: "xs = x # xs'" "f x = y" "subseq (map f xs') ys" by blast
    from Cons.IH [OF x(3)] Cons.prems(2,3) x(1) obtain zs where "ys = map f zs" "subseq xs' zs" "set zs \<subseteq> A" by auto
    with x Cons.prems(3) show ?thesis by (intro exI [of _ "x # zs"]) auto
  next
    case False
    then have "subseq (map f xs) ys" using Cons.prems(1) by (cases xs) (auto split: if_splits)
    with Cons.IH [OF this] Cons.prems(2,3) obtain zs where "ys = map f zs" "subseq xs zs" "set zs \<subseteq> A" by auto
    moreover obtain a where "y = f a" "a \<in> A" using Cons.prems(2) by auto
    ultimately show ?thesis by (intro exI [of _ "a # zs"]) (auto intro: list_emb_Cons)
  qed
qed (auto dest: list_emb_Nil2)

locale frame_codec =
  fixes encode :: "'l \<Rightarrow> 'a \<Rightarrow> string"
    and decode :: "'l \<Rightarrow> string \<Rightarrow> 'b outcome"
    and view :: "'l \<Rightarrow> 'a \<Rightarrow> 'b"
    and good :: "'l \<Rightarrow> 'a \<Rightarrow> bool"
  assumes decode_encode: "good l x \<Longrightarrow> decode l (encode l x) = Inr (view l x)"
    and encode_nonempty: "good l x \<Longrightarrow> encode l x \<noteq> []"
    and encode_nul_free: "good l x \<Longrightarrow> nul_free (encode l x)"
begin

lemma export_encoded: "list_all (good l) xs \<Longrightarrow> export_bulk (decode l) (map (encode l) xs) = Inr (map (view l) xs)"
  by (induction xs) (simp_all add: decode_encode)

lemma encoded_bulk:
  assumes "\<forall>r \<in> set rs. \<exists>x. good l x \<and> r = encode l x"
  obtains xs where "rs = map (encode l) xs" "list_all (good l) xs"
proof -
  from assms have "\<exists>xs. rs = map (encode l) xs \<and> list_all (good l) xs"
  proof (induction rs)
    case (Cons r rs)
    then obtain x xs where "good l x" "r = encode l x" "rs = map (encode l) xs" "list_all (good l) xs" by auto
    then show ?case by (intro exI [of _ "x # xs"]) simp
  qed simp
  with that show thesis by blast
qed

lemma sent_and_received:
  assumes "cq_ok Lo" "establish cs new_sender = Some s" "list_all snd cs"
    and "gelf_output_turn Lo as (out, s, total_send) = Some ((out', s', total_send'), as')"
    and "list_all at_running as" "\<forall>r \<in># mq_held Lo (out_queue out). \<exists>x. good l x \<and> r = encode l x"
    and "map concat dss = rev (sd_conns s')"
  shows "\<exists>xs ext zs. mq_held Lo (out_queue out) = mq_held Lo (out_queue out') + mset (map (encode l) xs) \<and> list_all (good l) xs
    \<and> serve_connections L envs nm e 0 dss mq = map_option Inr (enqueue_frames L envs nm e 0 ext mq)
    \<and> export_bulk (decode l) ext = Inr (map (view l) zs)
    \<and> subseq xs zs \<and> set zs \<subseteq> set xs \<and> (all_written as \<longrightarrow> zs = xs)"
proof -
  have nf: "\<forall>r \<in># mq_held Lo (out_queue out). nul_free r" using assms(6) by (auto dest: encode_nul_free)
  obtain bulk ext where b: "mq_held Lo (out_queue out) = mq_held Lo (out_queue out') + mset bulk"
      "serve_connections L envs nm e 0 dss mq = map_option Inr (enqueue_frames L envs nm e 0 ext mq)"
      "subseq (filter (\<lambda>r. r \<noteq> []) bulk) ext" "set ext \<subseteq> set bulk"
      "all_written as \<and> (bulk \<noteq> [] \<longrightarrow> last bulk \<noteq> []) \<longrightarrow> ext = bulk"
    using gelf_output_to_input [OF assms(1-5) nf assms(7), of L envs nm e mq] by (elim exE conjE)
  have "\<forall>r \<in> set bulk. \<exists>x. good l x \<and> r = encode l x" using assms(6) b(1) by auto
  then obtain xs where xs: "bulk = map (encode l) xs" "list_all (good l) xs" by (rule encoded_bulk)
  have ne: "\<forall>r \<in> set bulk. r \<noteq> []" using xs encode_nonempty by (auto simp: list_all_iff)
  then have "filter (\<lambda>r. r \<noteq> []) bulk = bulk" by (simp add: filter_id_conv)
  with b(3,4) xs(1) have "subseq (map (encode l) xs) ext" "set ext \<subseteq> encode l ` set xs" by simp_all
  then obtain zs0 where zs0: "ext = map (encode l) zs0" "subseq xs zs0" "set zs0 \<subseteq> set xs"
    using subseq_map_preimage [of "encode l" xs ext "set xs"] by blast
  define zs where "zs = (if all_written as then xs else zs0)"
  have "bulk \<noteq> [] \<longrightarrow> last bulk \<noteq> []" using ne by (meson last_in_set)
  with b(5) zs0 xs(1) have zs: "ext = map (encode l) zs" "subseq xs zs" "set zs \<subseteq> set xs" "all_written as \<longrightarrow> zs = xs"
    unfolding zs_def by auto
  then have "export_bulk (decode l) ext = Inr (map (view l) zs)"
    using xs(2) by (simp add: export_encoded list_all_iff subset_iff)
  with b(1,2) xs zs show ?thesis by blast
qed

end

subsection \<open>GELF messages travel\<close>

text \<open>A peer: its environment, the name of the input and the endpoint of the connection.\<close>

type_synonym ('d, 'ep) peer = "'d export_env \<times> string \<times> 'ep"

text \<open>A text that begins with a brace and a quoted name is what a writer makes of an object with members.\<close>

definition writer_opens :: "'d json_lib \<Rightarrow> bool" where
  "writer_opens L \<longleftrightarrow> (\<forall>k cs. \<exists>c r. jl_render L (WStartObject # WKey k # cs) = CHR ''{'' # CHR 0x22 # c # r \<and> c \<noteq> CHR 0x00)"

definition travels :: "'d export_env \<Rightarrow> 'd gelf \<Rightarrow> bool" where
  "travels E g \<longleftrightarrow> gelf_ok g \<and> \<not> d_less (ee_dbl E) (gf_timestamp g) (min_timestamp (ee_dbl E))
     \<and> writer_opens (ee_json E) \<and> reads_back (ee_json E) (gelf_json g)"

definition peer_dump :: "('d, 'ep) peer \<Rightarrow> 'd gelf \<Rightarrow> string" where
  "peer_dump p g = gelf_dump (ee_json (fst p)) g"

definition peer_gelf_export :: "('d, 'ep) peer \<Rightarrow> string \<Rightarrow> ('d, 'ep) message outcome" where
  "peer_gelf_export p f = (case p of (E, nm, e) \<Rightarrow> record_exportMessage E (GelfRecord (Record nm f e)))"

definition peer_gelf_message :: "('d, 'ep) peer \<Rightarrow> 'd gelf \<Rightarrow> ('d, 'ep) message" where
  "peer_gelf_message p g = (case p of (E, nm, e) \<Rightarrow> MGelf \<lparr>gm_input = nm, gm_gelf = g, gm_endpoint = e\<rparr>)"

definition peer_json_export :: "('d, 'ep) peer \<Rightarrow> string \<Rightarrow> ('d, 'ep) message outcome" where
  "peer_json_export p f = (case p of (E, nm, e) \<Rightarrow> record_exportMessage E (JsonRecord (Record nm f e)))"

definition peer_json_message :: "('d, 'ep) peer \<Rightarrow> 'd gelf \<Rightarrow> ('d, 'ep) message" where
  "peer_json_message p g = (case p of (E, nm, e) \<Rightarrow> MJson \<lparr>js_input = nm, js_json = gelf_json g, js_endpoint = e\<rparr>)"

lemma nul_free_c_str: "nul_free (c_str s)"
  by (auto simp: nul_free_def c_str_def dest: set_takeWhileD)

lemma dump_shape:
  assumes "writer_opens L"
  shows "\<exists>c r. gelf_dump L g = CHR ''{'' # CHR 0x22 # c # r"
proof -
  obtain cs where "gelf_calls g = WStartObject # WKey ''version'' # cs" by (simp add: gelf_calls_def)
  then obtain c r where "jl_render L (gelf_calls g) = CHR ''{'' # CHR 0x22 # c # r" "c \<noteq> CHR 0x00"
    using assms by (metis writer_opens_def)
  then show ?thesis by (simp add: gelf_dump_def c_str_Cons)
qed

lemma gelf_parse_dump:
  assumes "gelf_ok g" "\<not> d_less D (gf_timestamp g) (min_timestamp D)" "reads_back L (gelf_json g)"
  shows "gelf_parse D L now (gelf_dump L g) = Inr g"
proof -
  obtain fs where "gelf_json g = JObj fs" by (simp add: gelf_json_def)
  with gelf_of_members_json [OF assms(1,2) this] assms(3) show ?thesis
    by (simp add: gelf_parse_def gelf_dump_def gelf_calls_json reads_back_def)
qed

lemma GelfMessage_dump:
  assumes "travels E g"
  shows "GelfMessage (ee_dbl E) (ee_json E) z1 z2 now nm (gelf_dump (ee_json E) g) e
    = Inr \<lparr>gm_input = nm, gm_gelf = g, gm_endpoint = e\<rparr>"
proof -
  obtain c r where s: "gelf_dump (ee_json E) g = CHR ''{'' # CHR 0x22 # c # r"
    using assms dump_shape unfolding travels_def by blast
  have "decompress z1 z2 (gelf_dump (ee_json E) g) = Inr (gelf_dump (ee_json E) g)"
    unfolding s by (simp add: decompress_def gelf_magic_def)
  moreover have "gelf_parse (ee_dbl E) (ee_json E) now (gelf_dump (ee_json E) g) = Inr g"
    using assms by (intro gelf_parse_dump) (simp_all add: travels_def)
  ultimately show ?thesis by (simp add: GelfMessage_def)
qed

interpretation gelf_peer: frame_codec peer_dump peer_gelf_export peer_gelf_message "\<lambda>p. travels (fst p)"
proof
  fix p :: "('a, 'b) peer" and g :: "'a gelf"
  assume t: "travels (fst p) g"
  obtain E nm e where p: "p = (E, nm, e)" by (cases p)
  show "peer_gelf_export p (peer_dump p g) = Inr (peer_gelf_message p g)"
    using t by (simp add: p peer_gelf_export_def peer_dump_def peer_gelf_message_def record_exportMessage_def
        Record_def GelfMessage_dump)
  show "peer_dump p g \<noteq> []" using t dump_shape [of "ee_json E" g] by (auto simp: p peer_dump_def travels_def)
  show "nul_free (peer_dump p g)" by (simp add: peer_dump_def gelf_dump_def nul_free_c_str)
qed

interpretation json_peer: frame_codec peer_dump peer_json_export peer_json_message "\<lambda>p. travels (fst p)"
proof
  fix p :: "('a, 'b) peer" and g :: "'a gelf"
  assume t: "travels (fst p) g"
  obtain E nm e where p: "p = (E, nm, e)" by (cases p)
  show "peer_json_export p (peer_dump p g) = Inr (peer_json_message p g)"
    using t by (simp add: p peer_json_export_def peer_dump_def peer_json_message_def record_exportMessage_def
        Record_def JsonMessage_def travels_def reads_back_def gelf_dump_def gelf_calls_json)
  show "peer_dump p g \<noteq> []" by (rule gelf_peer.encode_nonempty [OF t])
  show "nul_free (peer_dump p g)" by (rule gelf_peer.encode_nul_free [OF t])
qed

text \<open>
  A tailed line that is no JSON document, and the GELF message the output makes of it.
\<close>

type_synonym ('d, 'ep) tail_peer_env = "'d output_env \<times> string \<times> 'ep"

definition line_gelf :: "'d output_env \<Rightarrow> tail_message \<Rightarrow> 'd gelf" where
  "line_gelf X m = (oe_gelf X)\<lparr>gf_short_message := tm_data m,
     gf_additionalFields := [(''_file'', VStr (ts_filename (tm_source m)))]\<rparr>"

definition plain_line :: "'d output_env \<Rightarrow> tail_message \<Rightarrow> bool" where
  "plain_line X m \<longleftrightarrow> json_lib_ok (oe_json X) \<and> (\<exists>e. jl_parse (oe_json X) (tm_data m) = Inl e)
     \<and> tm_data m \<noteq> [] \<and> c_str (tm_data m) = tm_data m \<and> c_str (ts_filename (tm_source m)) = ts_filename (tm_source m)
     \<and> oe_hostname X \<noteq> [] \<and> c_str (oe_hostname X) = oe_hostname X
     \<and> \<not> d_less (ee_dbl (oe_export X)) (ee_now (oe_export X)) (min_timestamp (ee_dbl (oe_export X)))
     \<and> writer_opens (oe_json X) \<and> reads_back (oe_json X) (gelf_json (line_gelf X m))"

lemma plain_line_travels: "plain_line X m \<Longrightarrow> travels (oe_export X) (line_gelf X m)"
  by (auto simp: plain_line_def travels_def line_gelf_def oe_gelf_def gelf_default_def oe_json_def gelf_ok_def fields_ok_def
      field_ok_def c_str_def)

definition line_record :: "('d, 'ep) tail_peer_env \<Rightarrow> tail_message \<Rightarrow> string" where
  "line_record p m = (case gelf_record (fst p) (MTail m :: ('d, 'ep) message) of Inr r \<Rightarrow> r | Inl _ \<Rightarrow> [])"

lemma plain_line_record:
  "plain_line X m \<Longrightarrow> gelf_record X (MTail m) = Inr (gelf_dump (oe_json X) (line_gelf X m))"
  using gelf_from_tail_text [of X m] by (auto simp: plain_line_def line_gelf_def)

interpretation tail_peer: frame_codec line_record "\<lambda>(X, p). peer_gelf_export (oe_export X, p)"
  "\<lambda>(X, p) m. peer_gelf_message (oe_export X, p) (line_gelf X m)" "\<lambda>p. plain_line (fst p)"
proof
  fix p :: "('a, 'b) tail_peer_env" and m
  assume g: "plain_line (fst p) m"
  obtain X q where p: "p = (X, q)" by (cases p)
  have r: "line_record p m = peer_dump (oe_export X, q) (line_gelf X m)"
    using g plain_line_record [of X m] by (simp add: p line_record_def peer_dump_def oe_json_def)
  have t: "travels (fst (oe_export X, q)) (line_gelf X m)" using g plain_line_travels by (simp add: p)
  show "(case p of (X, p) \<Rightarrow> peer_gelf_export (oe_export X, p)) (line_record p m)
      = Inr ((case p of (X, p) \<Rightarrow> \<lambda>m. peer_gelf_message (oe_export X, p) (line_gelf X m)) m)"
    using gelf_peer.decode_encode [OF t] r by (simp add: p)
  show "line_record p m \<noteq> []" "nul_free (line_record p m)"
    using gelf_peer.encode_nonempty [OF t] gelf_peer.encode_nul_free [OF t] r by simp_all
qed

subsection \<open>Properties\<close>

text \<open>
  C8: Messages travel from one logger to the next. A GELF output whose queue holds GELF messages that
  a GELF input could have accepted, connected and not stopped, sends a bulk of them to the GELF input
  of another program, through connections that break and reads of any size: what that input makes of
  the records it got are the same messages, under its own name and endpoint, each at least once and in
  order, and exactly these when no write failed. None is refused.
\<close>

theorem gelf_messages_travel:
  assumes "cq_ok Lo" "establish cs new_sender = Some s" "list_all snd cs"
    and "gelf_output_turn Lo as (out, s, total_send) = Some ((out', s', total_send'), as')" "list_all at_running as"
    and "\<forall>r \<in># mq_held Lo (out_queue out). \<exists>g. travels E g \<and> r = gelf_dump (ee_json E) g"
    and "map concat dss = rev (sd_conns s')"
  shows "\<exists>gs ext hs. mq_held Lo (out_queue out) = mq_held Lo (out_queue out') + mset (map (gelf_dump (ee_json E)) gs) \<and> list_all (travels E) gs
    \<and> serve_connections L envs nm e 0 dss mq = map_option Inr (enqueue_frames L envs nm e 0 ext mq)
    \<and> export_bulk (\<lambda>f. record_exportMessage E (GelfRecord (Record nm f e))) ext
        = Inr (map (\<lambda>g. MGelf \<lparr>gm_input = nm, gm_gelf = g, gm_endpoint = e\<rparr>) hs)
    \<and> subseq gs hs \<and> set hs \<subseteq> set gs \<and> (all_written as \<longrightarrow> hs = gs)"
proof -
  have "\<forall>r \<in># mq_held Lo (out_queue out). \<exists>g. travels (fst (E, nm, e)) g \<and> r = peer_dump (E, nm, e) g"
    using assms(6) by (simp add: peer_dump_def)
  from gelf_peer.sent_and_received [OF assms(1-5) this assms(7), of L envs nm e mq] show ?thesis
    by (simp add: peer_dump_def [abs_def] peer_gelf_message_def [abs_def] peer_gelf_export_def [abs_def])
qed

text \<open>Two messages in one bulk, a connection that breaks in the first frame, and the repetition.\<close>

definition brace_doc :: string where
  "brace_doc = ''{'' @ [CHR 0x22] @ ''}''"

definition chain_env :: "int gelf \<Rightarrow> int export_env" where
  "chain_env g = \<lparr>ee_dbl = int_dbl, ee_json = one_doc_lib brace_doc (gelf_json g), ee_gunzip = (\<lambda>_. None),
     ee_inflate = (\<lambda>_. None), ee_now = 1600000000\<rparr>"

lemma chain_env_sel [simp]: "ee_dbl (chain_env g) = int_dbl" "ee_json (chain_env g) = one_doc_lib brace_doc (gelf_json g)"
    "ee_now (chain_env g) = 1600000000"
  by (simp_all add: chain_env_def)

lemma brace_laws: "writer_opens (one_doc_lib brace_doc j)" "reads_back (one_doc_lib brace_doc j) j" "c_str brace_doc = brace_doc"
  by (simp_all add: writer_opens_def one_doc_lib_def brace_doc_def reads_back_def c_str_def)

lemma brace_dump: "gelf_dump (one_doc_lib brace_doc j) g = brace_doc"
  by (simp add: gelf_dump_def brace_laws) (simp add: one_doc_lib_def brace_laws)

lemma chain_turn:
  "gelf_output_turn list_cq demo_attempts (demo_output [brace_doc, brace_doc], connect True new_sender, 0)
    = Some (((demo_output [])\<lparr>out_send_counter := 2\<rparr>,
        \<lparr>sd_conns = [brace_doc @ [CHR 0x00] @ brace_doc @ [CHR 0x00], [], brace_doc], sd_open = True, sd_error = False\<rparr>, 2), [])"
  by (simp add: gelf_output_turn_def demo_output_def demo_attempts_def mq_try_dequeue_bulk_def MessageQueue_def brace_doc_def
      queue_bulk_def buff_len_def flush_def connect_def new_sender_def write_buffer_def deliver_to_def Let_def)

definition chain_reads :: "string list list" where
  "chain_reads = [[brace_doc], [], [''{'', [CHR 0x22] @ ''}'' @ [CHR 0x00], brace_doc @ [CHR 0x00]]]"

lemma chain_premises:
  "establish [(True, True)] new_sender = Some (connect True new_sender)" "list_all snd [(True, True)]"
  "list_all at_running demo_attempts"
  "map concat chain_reads = rev (sd_conns \<lparr>sd_conns = [brace_doc @ [CHR 0x00] @ brace_doc @ [CHR 0x00], [], brace_doc],
     sd_open = True, sd_error = False\<rparr>)"
  "mq_held list_cq (out_queue (demo_output rs)) = mset rs"
  "mq_held list_cq (out_queue ((demo_output rs)\<lparr>out_send_counter := 2\<rparr>)) = mset rs"
  by (simp_all add: connect_def new_sender_def demo_attempts_def chain_reads_def brace_doc_def demo_output_def mq_held_def
      MessageQueue_def)

lemma sample_travels: "travels (chain_env sample_gelf) sample_gelf"
  by (simp add: travels_def brace_laws) (simp add: sample_gelf_def gelf_ok_def int_dbl_def min_timestamp_def c_str_def
      fields_ok_def field_ok_def fits_int32_def)

lemma gelf_messages_travel_witness:
  "\<exists>gs ext hs. {#brace_doc, brace_doc#} = mset (map (\<lambda>_. brace_doc) gs) \<and> list_all (travels (chain_env sample_gelf)) gs
    \<and> serve_connections (list_cq :: ((string, nat) in_record list, (string, nat) in_record) cq_lib) (\<lambda>_. []) ''g'' 7 0
        chain_reads (MessageQueue ''q'' 9 OV_DROP [])
      = map_option Inr (enqueue_frames list_cq (\<lambda>_. []) ''g'' 7 0 ext (MessageQueue ''q'' 9 OV_DROP []))
    \<and> export_bulk (\<lambda>f. record_exportMessage (chain_env sample_gelf) (GelfRecord (Record ''g'' f (7 :: nat)))) ext
        = Inr (map (\<lambda>g. MGelf \<lparr>gm_input = ''g'', gm_gelf = g, gm_endpoint = 7\<rparr>) hs)
    \<and> subseq gs hs \<and> set hs \<subseteq> set gs"
proof -
  have q: "\<forall>r \<in># mq_held list_cq (out_queue (demo_output [brace_doc, brace_doc])).
      \<exists>g. travels (chain_env sample_gelf) g \<and> r = gelf_dump (ee_json (chain_env sample_gelf)) g"
    using sample_travels by (auto simp: chain_premises brace_dump)
  note gelf_messages_travel [OF list_cq_ok chain_premises(1,2) chain_turn chain_premises(3) q chain_premises(4),
      where L = "list_cq :: ((string, nat) in_record list, (string, nat) in_record) cq_lib" and envs = "\<lambda>_. []"
        and nm = "''g''" and e = 7 and mq = "MessageQueue ''q'' 9 OV_DROP []"]
  then show ?thesis
    unfolding chain_premises(5,6) chain_env_sel brace_dump by (elim exE conjE) (intro exI conjI; simp)
qed

text \<open>
  The same bulk sent to a JSON input, whose server is the same code, becomes the documents of the messages: what the input makes of
  the records is, for each message, the JSON document with its fields.
\<close>

lemma gelf_messages_as_json:
  assumes "cq_ok Lo" "establish cs new_sender = Some s" "list_all snd cs"
    and "gelf_output_turn Lo as (out, s, total_send) = Some ((out', s', total_send'), as')" "list_all at_running as"
    and "\<forall>r \<in># mq_held Lo (out_queue out). \<exists>g. travels E g \<and> r = gelf_dump (ee_json E) g"
    and "map concat dss = rev (sd_conns s')"
  shows "\<exists>gs ext hs. mq_held Lo (out_queue out) = mq_held Lo (out_queue out') + mset (map (gelf_dump (ee_json E)) gs) \<and> list_all (travels E) gs
    \<and> serve_connections L envs nm e 0 dss mq = map_option Inr (enqueue_frames L envs nm e 0 ext mq)
    \<and> export_bulk (\<lambda>f. record_exportMessage E (JsonRecord (Record nm f e))) ext
        = Inr (map (\<lambda>g. MJson \<lparr>js_input = nm, js_json = gelf_json g, js_endpoint = e\<rparr>) hs)
    \<and> subseq gs hs \<and> set hs \<subseteq> set gs \<and> (all_written as \<longrightarrow> hs = gs)"
proof -
  have "\<forall>r \<in># mq_held Lo (out_queue out). \<exists>g. travels (fst (E, nm, e)) g \<and> r = peer_dump (E, nm, e) g"
    using assms(6) by (simp add: peer_dump_def)
  from json_peer.sent_and_received [OF assms(1-5) this assms(7), of L envs nm e mq] show ?thesis
    by (simp add: peer_dump_def [abs_def] peer_json_message_def [abs_def] peer_json_export_def [abs_def])
qed

text \<open>
  C9: The lines of a tailed file travel to the next logger. When the queue of a GELF output holds the
  records of tailed lines that are no JSON documents, the GELF input of the other program makes of
  what it gets, at least once and in order, messages whose short message is the line, whose host is
  the host of the file and whose field \<open>_file\<close> is its name.
\<close>

theorem tail_lines_travel:
  fixes X :: "'d output_env" and e :: 'ep
  assumes "cq_ok Lo" "establish cs new_sender = Some s" "list_all snd cs"
    and "gelf_output_turn Lo as (out, s, total_send) = Some ((out', s', total_send'), as')" "list_all at_running as"
    and "\<forall>r \<in># mq_held Lo (out_queue out). \<exists>m. plain_line X m \<and> gelf_record X (MTail m :: ('d, 'ep) message) = Inr r"
    and "map concat dss = rev (sd_conns s')"
  shows "\<exists>ms ext hs. mq_held Lo (out_queue out)
      = mq_held Lo (out_queue out') + mset (map (\<lambda>m. gelf_dump (oe_json X) (line_gelf X m)) ms)
    \<and> list_all (plain_line X) ms
    \<and> serve_connections L envs nm e 0 dss mq = map_option Inr (enqueue_frames L envs nm e 0 ext mq)
    \<and> export_bulk (\<lambda>f. record_exportMessage (oe_export X) (GelfRecord (Record nm f e))) ext
        = Inr (map (\<lambda>m. MGelf \<lparr>gm_input = nm, gm_gelf = (oe_gelf X)\<lparr>gf_short_message := tm_data m,
            gf_additionalFields := [(''_file'', VStr (ts_filename (tm_source m)))]\<rparr>, gm_endpoint = e\<rparr>) hs)
    \<and> subseq ms hs \<and> set hs \<subseteq> set ms \<and> (all_written as \<longrightarrow> hs = ms)"
proof -
  have "\<forall>r \<in># mq_held Lo (out_queue out). \<exists>m. plain_line (fst (X, nm, e)) m \<and> r = line_record (X, nm, e) m"
  proof
    fix r assume "r \<in># mq_held Lo (out_queue out)"
    with assms(6) obtain m where "plain_line X m" "gelf_record X (MTail m :: ('d, 'ep) message) = Inr r" by blast
    then show "\<exists>m. plain_line (fst (X, nm, e)) m \<and> r = line_record (X, nm, e) m"
      by (intro exI [of _ m]) (simp add: line_record_def)
  qed
  from tail_peer.sent_and_received [OF assms(1-5) this assms(7), of L envs nm e mq]
  obtain ms ext hs where ms: "mq_held Lo (out_queue out) = mq_held Lo (out_queue out') + mset (map (line_record (X, nm, e)) ms)"
      "list_all (plain_line X) ms"
      "serve_connections L envs nm e 0 dss mq = map_option Inr (enqueue_frames L envs nm e 0 ext mq)"
      "export_bulk (peer_gelf_export (oe_export X, nm, e)) ext
        = Inr (map (\<lambda>m. peer_gelf_message (oe_export X, nm, e) (line_gelf X m)) hs)"
      "subseq ms hs" "set hs \<subseteq> set ms" "all_written as \<longrightarrow> hs = ms"
    unfolding split_conv fst_conv by (elim exE conjE)
  have "map (line_record (X, nm, e)) ms = map (\<lambda>m. gelf_dump (oe_json X) (line_gelf X m)) ms"
    using ms(2) plain_line_record [of X] by (auto simp: list_all_iff line_record_def)
  with ms show ?thesis
    by (intro exI [of _ ms] exI [of _ ext] exI [of _ hs])
       (simp add: peer_gelf_export_def [abs_def] peer_gelf_message_def line_gelf_def)
qed

definition chain_output :: "int output_env" where
  "chain_output = \<lparr>oe_export = chain_env ((gelf_default ''h'' 1600000000)\<lparr>gf_short_message := ''hi'',
       gf_additionalFields := [(''_file'', VStr ''/f'')]\<rparr>),
     oe_assign = \<lparr>ja_string = (\<lambda>_. Inr None), ja_double = (\<lambda>_. Inr None), ja_uchar = (\<lambda>_. Inr None)\<rparr>,
     oe_hostname = ''h'', oe_stream_dbl = (\<lambda>d. to_string (nat d))\<rparr>"

lemma tail_lines_travel_witness:
  "\<exists>ms ext hs. {#brace_doc, brace_doc#} = mset (map (\<lambda>_. brace_doc) ms) \<and> list_all (plain_line chain_output) ms
    \<and> serve_connections (list_cq :: ((string, nat) in_record list, (string, nat) in_record) cq_lib) (\<lambda>_. []) ''g'' 7 0
        chain_reads (MessageQueue ''q'' 9 OV_DROP [])
      = map_option Inr (enqueue_frames list_cq (\<lambda>_. []) ''g'' 7 0 ext (MessageQueue ''q'' 9 OV_DROP []))
    \<and> export_bulk (\<lambda>f. record_exportMessage (oe_export chain_output) (GelfRecord (Record ''g'' f (7 :: nat)))) ext
        = Inr (map (\<lambda>m. MGelf \<lparr>gm_input = ''g'', gm_gelf = (oe_gelf chain_output)\<lparr>gf_short_message := tm_data m,
            gf_additionalFields := [(''_file'', VStr (ts_filename (tm_source m)))]\<rparr>, gm_endpoint = 7\<rparr>) hs)
    \<and> subseq ms hs \<and> set hs \<subseteq> set ms"
proof -
  let ?m = "TailMessage ''t'' ''hi'' (TailSource ''/f'' None)"
  have l: "line_gelf chain_output ?m = (gelf_default ''h'' 1600000000)\<lparr>gf_short_message := ''hi'',
      gf_additionalFields := [(''_file'', VStr ''/f'')]\<rparr>"
    by (simp add: line_gelf_def oe_gelf_def chain_output_def TailMessage_def TailSource_def)
  have j: "oe_json chain_output = one_doc_lib brace_doc (gelf_json (line_gelf chain_output ?m))"
    unfolding l by (simp add: chain_output_def oe_json_def)
  have p: "plain_line chain_output ?m"
    unfolding plain_line_def j
    by (simp add: brace_laws one_doc_lib_ok)
       (simp add: one_doc_lib_def brace_doc_def chain_output_def TailMessage_def TailSource_def c_str_def int_dbl_def min_timestamp_def)
  have "gelf_record chain_output (MTail ?m :: (int, nat) message) = Inr brace_doc"
    using plain_line_record [OF p] j by (simp add: brace_dump)
  with p have q: "\<forall>r \<in># mq_held list_cq (out_queue (demo_output [brace_doc, brace_doc])).
      \<exists>m. plain_line chain_output m \<and> gelf_record chain_output (MTail m :: (int, nat) message) = Inr r"
    by (auto simp: chain_premises)
  note tail_lines_travel [OF list_cq_ok chain_premises(1,2) chain_turn chain_premises(3) q chain_premises(4),
      where L = "list_cq :: ((string, nat) in_record list, (string, nat) in_record) cq_lib" and envs = "\<lambda>_. []"
        and nm = "''g''" and e = 7 and mq = "MessageQueue ''q'' 9 OV_DROP []"]
  then show ?thesis
    unfolding chain_premises(5,6) j brace_dump by (elim exE conjE) (intro exI conjI; simp)
qed



end
