(* ===== verification/IQ_Log.thy ===== *)
theory IQ_Log
  imports IQ_Config
begin

text \<open>
  Logging (src/core/Log.h, Log.cpp): the logger, its set-up from the configuration, and the macros.
  The logging library is the argument \<open>spdlog_lib\<close>: its registry of loggers, a logger, and what the
  program calls of them. The text of a message is an outcome, since the expressions that are streamed
  into it may throw.
\<close>

subsection \<open>The logger\<close>

datatype log_level = L_trace | L_debug | L_info | L_warn | L_err | L_critical | L_off

record ('r, 'lg) spdlog_lib =
  sp_rotating :: "bool \<Rightarrow> string \<Rightarrow> string \<Rightarrow> 64 word \<Rightarrow> 64 word \<Rightarrow> 'r \<Rightarrow> ('r \<times> 'lg) option"
  sp_set_pattern :: "string \<Rightarrow> 'lg \<Rightarrow> 'lg"
  sp_flush_on :: "log_level \<Rightarrow> 'lg \<Rightarrow> 'lg"
  sp_set_level :: "log_level \<Rightarrow> 'lg \<Rightarrow> 'lg"
  sp_from_str :: "string \<Rightarrow> log_level"
  sp_should_log :: "'lg \<Rightarrow> log_level \<Rightarrow> bool"
  sp_write :: "log_level \<Rightarrow> string \<Rightarrow> 'lg \<Rightarrow> 'lg"

text \<open>What logging changes: the registry, the logger, and the two streams.\<close>

record ('r, 'lg) logging =
  lo_registry :: 'r
  m_logger :: "'lg option"
  lo_cerr :: "string list"
  lo_cout :: "string list"

definition Logger :: "'r \<Rightarrow> ('r, 'lg) logging" where
  "Logger r = \<lparr>lo_registry = r, m_logger = None, lo_cerr = [], lo_cout = []\<rparr>"

text \<open>A logger the library refuses to make is its exception, which is caught.\<close>

definition Logger_init :: "('r, 'lg) spdlog_lib \<Rightarrow> string \<Rightarrow> string \<Rightarrow> 64 word \<Rightarrow> 64 word \<Rightarrow> bool
    \<Rightarrow> ('r, 'lg) logging \<Rightarrow> ('r, 'lg) logging \<times> bool" where
  "Logger_init S filename level max_size max_files async st =
     (case sp_rotating S async ''iqlogger'' filename max_size max_files (lo_registry st) of
        None \<Rightarrow> (st\<lparr>lo_cerr := lo_cerr st @ [''Log initialization failed: '']\<rparr>, False)
      | Some (r, lg) \<Rightarrow>
          (st\<lparr>lo_registry := r,
              m_logger := Some (sp_set_level S (sp_from_str S level) (sp_flush_on S (sp_from_str S level)
                (sp_set_pattern S ''[%Y-%m-%d %H:%M:%S.%e] [PID=%P] [TID=%t] [%n] [%l] %v'' lg)))\<rparr>, True))"

subsection \<open>The macros\<close>

text \<open>
  With a logger, a message below its level is not even built, and what building it throws goes to the
  error stream. Without one the message is streamed outside of any handler: a warning or worse into
  the error stream, an information into the output.
\<close>

definition LOG_PRINT :: "('r, 'lg) spdlog_lib \<Rightarrow> log_level \<Rightarrow> string outcome \<Rightarrow> ('r, 'lg) logging
    \<Rightarrow> ('r, 'lg) logging \<times> exn_class option" where
  "LOG_PRINT S lLevel msg st =
     (case m_logger st of
        Some logger \<Rightarrow>
          (if sp_should_log S logger lLevel then
             (case msg of
                Inr s \<Rightarrow> (st\<lparr>m_logger := Some (sp_write S lLevel s logger)\<rparr>, None)
              | Inl e \<Rightarrow> if catches StdException e then (st\<lparr>lo_cerr := lo_cerr st @ [''Failed on logging a message.'']\<rparr>, None)
                        else (st, Some e))
           else (st, None))
      | None \<Rightarrow>
          (if lLevel = L_warn \<or> lLevel = L_err \<or> lLevel = L_critical then
             (case msg of Inr s \<Rightarrow> (st\<lparr>lo_cerr := lo_cerr st @ [s]\<rparr>, None) | Inl e \<Rightarrow> (st, Some e))
           else if lLevel = L_info then
             (case msg of Inr s \<Rightarrow> (st\<lparr>lo_cout := lo_cout st @ [s]\<rparr>, None) | Inl e \<Rightarrow> (st, Some e))
           else (st, None)))"

definition TRACE :: "('r, 'lg) spdlog_lib \<Rightarrow> string outcome \<Rightarrow> ('r, 'lg) logging \<Rightarrow> ('r, 'lg) logging \<times> exn_class option" where
  "TRACE S msg = LOG_PRINT S L_trace msg"

definition DEBUG :: "('r, 'lg) spdlog_lib \<Rightarrow> string outcome \<Rightarrow> ('r, 'lg) logging \<Rightarrow> ('r, 'lg) logging \<times> exn_class option" where
  "DEBUG S msg = LOG_PRINT S L_debug msg"

definition INFO :: "('r, 'lg) spdlog_lib \<Rightarrow> string outcome \<Rightarrow> ('r, 'lg) logging \<Rightarrow> ('r, 'lg) logging \<times> exn_class option" where
  "INFO S msg = LOG_PRINT S L_info msg"

definition WARNING :: "('r, 'lg) spdlog_lib \<Rightarrow> string outcome \<Rightarrow> ('r, 'lg) logging \<Rightarrow> ('r, 'lg) logging \<times> exn_class option" where
  "WARNING S msg = LOG_PRINT S L_warn msg"

definition ERROR :: "('r, 'lg) spdlog_lib \<Rightarrow> string outcome \<Rightarrow> ('r, 'lg) logging \<Rightarrow> ('r, 'lg) logging \<times> exn_class option" where
  "ERROR S msg = LOG_PRINT S L_err msg"

definition CRITICAL :: "('r, 'lg) spdlog_lib \<Rightarrow> string outcome \<Rightarrow> ('r, 'lg) logging \<Rightarrow> ('r, 'lg) logging \<times> exn_class option" where
  "CRITICAL S msg = LOG_PRINT S L_critical msg"

lemmas log_macros = TRACE_def DEBUG_def INFO_def WARNING_def ERROR_def CRITICAL_def

subsection \<open>Loading the configuration with its logger\<close>

definition init_logger :: "('r, 'lg) spdlog_lib \<Rightarrow> logger_config \<Rightarrow> ('r, 'lg) logging \<Rightarrow> ('r, 'lg) logging \<times> bool" where
  "init_logger S c st = Logger_init S (lc_filename c) (lc_level c) (lc_size c) (lc_count c) False st"

text \<open>
  A reload with the logging it changes: the logger is set up when the configuration could be read and
  not only a check was asked for.
\<close>

definition reload_logged :: "'d json_lib \<Rightarrow> ('r, 'lg) spdlog_lib \<Rightarrow> 'd config_env \<Rightarrow> bool
    \<Rightarrow> 'd config_manager \<times> ('r, 'lg) logging \<Rightarrow> (('d config_manager \<times> ('r, 'lg) logging) \<times> bool) option" where
  "reload_logged L S E checkOnly ms =
     (case ms of (m, st) \<Rightarrow>
        (let E' = E\<lparr>ce_logger_init := (\<lambda>c. snd (init_logger S c st))\<rparr>;
             st' = (case and_then (ce_read_doc E (m_configFilename m))
                       (Config L (ce_files E) (ce_dir_of E (m_configFilename m))) of
                      Inl e \<Rightarrow> st
                    | Inr c \<Rightarrow> if checkOnly then st else fst (init_logger S (cf_logger c) st))
         in case config_reload L E' checkOnly m of
              None \<Rightarrow> None | Some (m', ok) \<Rightarrow> Some ((m', st'), ok)))"

text \<open>What the library documents of its registry: a name can be registered once.\<close>

definition registry_ok :: "('r, 'lg) spdlog_lib \<Rightarrow> ('r \<Rightarrow> string set) \<Rightarrow> bool" where
  "registry_ok S names \<longleftrightarrow>
     (\<forall>a n f sz count r r' lg. sp_rotating S a n f sz count r = Some (r', lg) \<longrightarrow>
        n \<notin> names r \<and> names r' = insert n (names r))"

lemma registry_okD:
  "registry_ok S names \<Longrightarrow> sp_rotating S a n f sz k r = Some (r', lg) \<Longrightarrow> n \<notin> names r \<and> names r' = insert n (names r)"
  unfolding registry_ok_def by blast

lemma Logger_init_registers:
  assumes "registry_ok S names" "Logger_init S filename level max_size max_files async st = (st', True)"
  shows "''iqlogger'' \<notin> names (lo_registry st) \<and> ''iqlogger'' \<in> names (lo_registry st')"
  using assms(2) by (auto simp: Logger_init_def split: option.splits dest: registry_okD [OF assms(1)])

lemma reload_logged_True:
  assumes "registry_ok S names" "reload_logged L S E False (m, st) = Some ((m', st'), True)"
  shows "''iqlogger'' \<notin> names (lo_registry st) \<and> ''iqlogger'' \<in> names (lo_registry st')"
proof -
  from assms(2) have "\<exists>c. st' = fst (init_logger S c st) \<and> snd (init_logger S c st)"
    by (auto simp: reload_logged_def config_reload_def loadLogger_def Let_def split: sum.splits option.splits if_splits)
  then obtain c where "st' = fst (init_logger S c st)" "snd (init_logger S c st)" by blast
  then have "init_logger S c st = (st', True)" by (cases "init_logger S c st") simp
  then show ?thesis using Logger_init_registers [OF assms(1)] by (fastforce simp: init_logger_def)
qed

subsection \<open>Properties\<close>

text \<open>
  Logging does not disturb the program: a macro throws exactly when there is no logger yet, the
  level is at least info, and building the message throws. With a logger no message, whatever it
  throws, leaves the macro, and the logger stays.
\<close>

theorem log_print_throws:
  "snd (LOG_PRINT S l (msg :: string outcome) st) =
     (if m_logger st = None \<and> l \<in> {L_info, L_warn, L_err, L_critical}
      then (case msg of Inl e \<Rightarrow> Some e | Inr _ \<Rightarrow> None) else None)
   \<and> (m_logger (fst (LOG_PRINT S l msg st)) = None) = (m_logger st = None)
   \<and> lo_registry (fst (LOG_PRINT S l msg st)) = lo_registry st"
proof -
  have "catches StdException e" for e by (cases e) simp_all
  then show ?thesis
    by (cases l) (auto simp: LOG_PRINT_def split: option.splits sum.splits)
qed


text \<open>A registry that is the list of its names, and loggers that are the list of what was written.\<close>

definition list_spdlog :: "(string list, (log_level \<times> string) list) spdlog_lib" where
  "list_spdlog = \<lparr>sp_rotating = (\<lambda>a n f sz count r. if n \<in> set r then None else Some (n # r, [])),
     sp_set_pattern = (\<lambda>_ lg. lg), sp_flush_on = (\<lambda>_ lg. lg), sp_set_level = (\<lambda>_ lg. lg),
     sp_from_str = (\<lambda>_. L_info), sp_should_log = (\<lambda>_ l. l \<noteq> L_trace \<and> l \<noteq> L_debug),
     sp_write = (\<lambda>l s lg. lg @ [(l, s)])\<rparr>"


end
