(* ===== verification/IQ_Script.thy ===== *)
theory IQ_Script
  imports IQ_Processor IQ_Metrics
begin

text \<open>
  Around the scripts: the console they may call (src/processor/v8/Console.cpp, ConsoleWrapper.cpp), the
  isolate with its heap metric (Isolate.cpp), the processor of a thread (Processor.cpp) and the whole
  life of such a thread (ProcessorMachine.cpp).
\<close>

subsection \<open>The console\<close>

datatype console_line = JsLog string | JsError string

definition Console_log :: "string \<Rightarrow> console_line list \<Rightarrow> console_line list" where
  "Console_log message ls = ls @ [JsLog message]"

definition Console_error :: "string \<Rightarrow> console_line list \<Rightarrow> console_line list" where
  "Console_error message ls = ls @ [JsError message]"

text \<open>
  \<open>console.log\<close>: an object or an array (an array is an object) is logged as its JSON text, anything else
  as its string. A value the engine cannot stringify throws; what was logged before stays.
\<close>

fun ConsoleWrapper_log :: "('st, 's, 'sc, 'fn, 'v) v8_lib \<Rightarrow> 'st \<Rightarrow> 'v list \<Rightarrow> console_line list
    \<Rightarrow> 'st \<times> console_line list \<times> exn_class option" where
  "ConsoleWrapper_log V st [] ls = (st, ls, None)"
| "ConsoleWrapper_log V st (a # as) ls =
     (if v8_is_object V a then
        (case v8_stringify V st a of
           (st', Some s) \<Rightarrow> ConsoleWrapper_log V st' as (Console_log (c_str s) ls)
         | (st', None) \<Rightarrow> (st', ls, Some ProcessorException))
      else ConsoleWrapper_log V st as (Console_log (c_str (v8_utf8 V a)) ls))"

text \<open>\<open>console.error\<close> takes its first argument only; without one the engine passes undefined.\<close>

definition ConsoleWrapper_error :: "('st, 's, 'sc, 'fn, 'v) v8_lib \<Rightarrow> 'v \<Rightarrow> 'v list \<Rightarrow> console_line list \<Rightarrow> console_line list" where
  "ConsoleWrapper_error V undef as ls =
     Console_error (c_str (v8_utf8 V (case as of [] \<Rightarrow> undef | a # _ \<Rightarrow> a))) ls"

subsection \<open>The isolate and the processor of a thread\<close>

text \<open>
  An isolate registers its metric under the number of its processor. \<open>heap_of\<close> reads the heap size that
  was stored last, in a state of the program.
\<close>

definition heap_metric :: "16 word \<Rightarrow> string" where
  "heap_metric i = ''processor.'' @ to_string (unat i) @ ''.heap_size''"

definition Isolate :: "16 word \<Rightarrow> ('p \<Rightarrow> 64 word) \<Rightarrow> 'p metrics_table \<Rightarrow> 'p metrics_table" where
  "Isolate processorIndex heap_of t = fst (registerMetric (heap_metric processorIndex) (\<lambda>p. Inr (heap_of p)) t)"

record ('st, 'fn) script_processor =
  sp_state :: 'st
  sp_functions :: "(16 word \<times> 'fn) list"
  sp_heap :: "64 word"

definition collectStats :: "('st \<Rightarrow> 64 word) \<Rightarrow> ('st, 'fn) script_processor \<Rightarrow> ('st, 'fn) script_processor" where
  "collectStats total_heap_size p = p\<lparr>sp_heap := total_heap_size (sp_state p)\<rparr>"

text \<open>The heap size has no value, \<open>garbage\<close>, until it is stored for the first time.\<close>

definition Processor :: "('st, 's, 'sc, 'fn, 'v) v8_lib \<Rightarrow> 64 word \<Rightarrow> 'st \<Rightarrow> script_map
    \<Rightarrow> ('st \<times> ('st, 'fn) script_processor run_result) option" where
  "Processor V garbage st scriptMap =
     run_then (IsolateScope V st scriptMap) (\<lambda>st fs. Some (st, Returned \<lparr>sp_state = st, sp_functions = fs, sp_heap = garbage\<rparr>))"

subsection \<open>The life of a processor thread\<close>

text \<open>
  How a thread ends: it returns, once the machine is stopped; an exception reaches its handler, which
  calls \<open>stop\<close> (IQ_Services); the program is aborted.
\<close>

datatype 'a thread_end = ThreadReturns 'a | ThreadStops exn_class | ProgramAborts

fun thread_loop :: "('st, 's, 'sc, 'fn, 'v) v8_lib \<Rightarrow> 'd json_lib \<Rightarrow> ('st \<Rightarrow> 64 word)
   \<Rightarrow> ('p, ('d, 'ep) message \<times> 16 word) cq_lib \<Rightarrow> ('q, ('d, 'ep) message) cq_lib
   \<Rightarrow> ('d, 'ep) message other_act list list list
   \<Rightarrow> ('st, 'fn) script_processor \<times> 'p message_queue \<times> 'q message_queue
   \<Rightarrow> (('st, 'fn) script_processor \<times> 'p message_queue \<times> 'q message_queue) thread_end option" where
  "thread_loop V L heap LP LM [] s = Some (ThreadReturns s)"
| "thread_loop V L heap LP LM (env # envs) (p, pq, mq) =
     (case processor_turn V L (sp_functions p) LP LM env (sp_state p, pq, mq) of
        None \<Rightarrow> None
      | Some Aborted \<Rightarrow> Some ProgramAborts
      | Some (Threw e) \<Rightarrow> Some (if catches StdException e then ThreadStops e else ProgramAborts)
      | Some (Returned (st, pq', mq')) \<Rightarrow> thread_loop V L heap LP LM envs (collectStats heap (p\<lparr>sp_state := st\<rparr>), pq', mq'))"

text \<open>
  \<open>envs\<close> has an entry for every turn the machine is found running: what the other threads do to the main
  queue meanwhile.
\<close>

definition processor_thread :: "('st, 's, 'sc, 'fn, 'v) v8_lib \<Rightarrow> 'd json_lib \<Rightarrow> ('st \<Rightarrow> 64 word) \<Rightarrow> 64 word
   \<Rightarrow> ('p, ('d, 'ep) message \<times> 16 word) cq_lib \<Rightarrow> ('q, ('d, 'ep) message) cq_lib
   \<Rightarrow> ('d, 'ep) message other_act list list list \<Rightarrow> string list \<Rightarrow> 'st \<Rightarrow> 'p message_queue \<times> 'q message_queue
   \<Rightarrow> (('st, 'fn) script_processor \<times> 'p message_queue \<times> 'q message_queue) thread_end option" where
  "processor_thread V L heap garbage LP LM envs sources st qs =
     (case thread_scripts sources of
        None \<Rightarrow> None
      | Some scriptMap \<Rightarrow>
          (case Processor V garbage st scriptMap of
             None \<Rightarrow> None
           | Some (_, Aborted) \<Rightarrow> Some ProgramAborts
           | Some (_, Threw e) \<Rightarrow> Some (if catches StdException e then ThreadStops e else ProgramAborts)
           | Some (_, Returned p) \<Rightarrow> thread_loop V L heap LP LM envs (p, qs)))"

subsection \<open>The console logs in order\<close>

lemma console_log_lines:
  "ConsoleWrapper_log V st as ls = (st', ls', r) \<Longrightarrow>
   \<exists>ms. ls' = ls @ map JsLog ms \<and> (r = None \<and> length ms = length as
      \<or> r = Some ProcessorException \<and> length ms < length as \<and> v8_is_object V (as ! length ms))"
proof (induction V st as ls rule: ConsoleWrapper_log.induct)
  case (2 V st a as ls)
  show ?case
  proof (cases "v8_is_object V a")
    case True
    obtain st1 o1 where s: "v8_stringify V st a = (st1, o1)" by fastforce
    show ?thesis
    proof (cases o1)
      case None
      with 2(3) True s show ?thesis by (intro exI [of _ "[]"]) simp
    next
      case (Some t)
      with 2(3) True s have "ConsoleWrapper_log V st1 as (Console_log (c_str t) ls) = (st', ls', r)" by simp
      from 2(1) [OF True s [symmetric] Some this] obtain ms where
          "ls' = Console_log (c_str t) ls @ map JsLog ms" "r = None \<and> length ms = length as
            \<or> r = Some ProcessorException \<and> length ms < length as \<and> v8_is_object V (as ! length ms)" by blast
      then show ?thesis by (intro exI [of _ "c_str t # ms"]) (auto simp: Console_log_def)
    qed
  next
    case False
    with 2(3) have "ConsoleWrapper_log V st as (Console_log (c_str (v8_utf8 V a)) ls) = (st', ls', r)" by simp
    from 2(2) [OF False this] obtain ms where
        "ls' = Console_log (c_str (v8_utf8 V a)) ls @ map JsLog ms" "r = None \<and> length ms = length as
          \<or> r = Some ProcessorException \<and> length ms < length as \<and> v8_is_object V (as ! length ms)" by blast
    then show ?thesis by (intro exI [of _ "c_str (v8_utf8 V a) # ms"]) (auto simp: Console_log_def)
  qed
qed simp

text \<open>
  The metric of a thread shows the heap of the first isolate that was made under its number: after the
  check of a script, which makes a temporary one under number 0, the first thread's own is ignored.
\<close>

lemma heap_metric_of_first:
  "map_of (m_metricsCallbacks (Isolate i h2 (Isolate i h1 t))) (heap_metric i)
    = map_of (m_metricsCallbacks (Isolate i h1 t)) (heap_metric i)"
  by (simp add: Isolate_def registerMetric_def map_of_emplace split: option.splits)

subsection \<open>A thread that has started has every script\<close>

text \<open>\<open>compiled V s f\<close>: the function \<open>f\<close> is what the engine made of the script \<open>s\<close>.\<close>

definition compiled :: "('st, 's, 'sc, 'fn, 'v) v8_lib \<Rightarrow> string \<Rightarrow> 'fn \<Rightarrow> bool" where
  "compiled V s f \<longleftrightarrow> (\<exists>st st'. compile_script V st s = Some (st', Returned f))"

lemma compile_scripts_all:
  "compile_scripts V st sm fs0 = Some (st', Returned fs) \<Longrightarrow> distinct (map fst sm) \<Longrightarrow> distinct (map fst fs0) \<Longrightarrow>
   distinct (map fst fs) \<and> fst ` set fs = fst ` set fs0 \<union> fst ` set sm
   \<and> (\<forall>i s. map_of sm i = Some s \<longrightarrow> (\<exists>f. map_of fs i = Some f \<and> compiled V s f))
   \<and> (\<forall>i. map_of sm i = None \<longrightarrow> map_of fs i = map_of fs0 i)"
proof (induction sm arbitrary: st fs0)
  case Nil
  then show ?case by simp
next
  case (Cons x sm)
  obtain i s where x: "x = (i, s)" by (cases x)
  with Cons.prems(1) obtain st1 f where c: "compile_script V st s = Some (st1, Returned f)"
      "compile_scripts V st1 sm (AList.update i f fs0) = Some (st', Returned fs)"
    by (auto simp: run_then_Some_iff)
  have d: "distinct (map fst (AList.update i f fs0))" using Cons.prems(3) by (simp add: distinct_update)
  have n: "map_of sm i = None" using Cons.prems(2) x by (simp add: map_of_eq_None_iff)
  have "distinct (map fst sm)" using Cons.prems(2) x by simp
  note ih = Cons.IH [OF c(2) this d]
  then have "map_of fs i = Some f" using n by (simp add: update_conv')
  moreover have "compiled V s f" using c(1) by (auto simp: compiled_def)
  ultimately have here: "\<exists>f. map_of fs i = Some f \<and> compiled V s f" by blast
  show ?case
  proof (intro conjI allI impI)
    show "distinct (map fst fs)" "fst ` set fs = fst ` set fs0 \<union> fst ` set (x # sm)"
      using ih x by (auto simp: dom_update)
    show "\<exists>f. map_of fs j = Some f \<and> compiled V t f" if "map_of (x # sm) j = Some t" for j t
      using that ih here x by (cases "j = i") auto
    show "map_of fs j = map_of fs0 j" if "map_of (x # sm) j = None" for j
      using that ih x by (simp add: update_conv' split: if_splits)
  qed
qed

lemma IsolateScope_compiles:
  "IsolateScope V st sm = Some (st', Returned fs) \<Longrightarrow> \<exists>st1. compile_scripts V st1 sm [] = Some (st', Returned fs)"
  by (auto simp: IsolateScope_def run_then_Some_iff split: prod.splits bool.splits if_splits)

lemma thread_scripts_Some:
  assumes "thread_scripts sources = Some sm"
  shows "length sources < 2 ^ 16" "distinct (map fst sm)" "length sm = length sources"
    "n < length sources \<Longrightarrow> map_of sm (of_nat n) = Some (sources ! n)"
proof -
  from assms have s: "length sources < 2 ^ 16" "sm = map (\<lambda>i. (of_nat i, sources ! i)) [0..<length sources]"
    by (simp_all add: thread_scripts_def split: if_splits)
  then show "length sources < 2 ^ 16" "length sm = length sources" by simp_all
  show "distinct (map fst sm)"
    unfolding s(2) using s(1) by (auto simp: distinct_map inj_on_def comp_def intro: of_nat16_inj)
  show "map_of sm (of_nat n) = Some (sources ! n)" if "n < length sources"
    unfolding s(2) by (rule map_of_indexed) (use that s(1) in simp_all)
qed

subsection \<open>The turns of a thread together\<close>

definition turns_balance :: "('p, 'r) cq_lib \<Rightarrow> ('q, ('d, 'ep) message) cq_lib \<Rightarrow> 'p message_queue \<Rightarrow> 'q message_queue
    \<Rightarrow> 'p message_queue \<Rightarrow> 'q message_queue \<Rightarrow> bool" where
  "turns_balance LP LM pq mq pq' mq' \<longleftrightarrow>
     (\<exists>records messages taken put. mq_held LP pq = mq_held LP pq' + mset records
        \<and> mq_held LM mq' + mset taken = mq_held LM mq + mset put + mset messages
        \<and> length messages \<le> length records \<and> list_all (\<lambda>m. \<exists>s. m = MProcessor s) messages)"

lemma turns_balance_refl: "turns_balance LP LM pq mq pq mq"
  unfolding turns_balance_def by (intro exI [of _ "[]"]) simp

lemma turns_balance_trans:
  assumes "turns_balance LP LM pq mq pq1 mq1" "turns_balance LP LM pq1 mq1 pq2 mq2"
  shows "turns_balance LP LM pq mq pq2 mq2"
proof -
  from assms obtain r1 m1 t1 p1 r2 m2 t2 p2 where
      "mq_held LP pq = mq_held LP pq1 + mset r1" "mq_held LM mq1 + mset t1 = mq_held LM mq + mset p1 + mset m1"
      "length m1 \<le> length r1" "list_all (\<lambda>m. \<exists>s. m = MProcessor s) m1"
      "mq_held LP pq1 = mq_held LP pq2 + mset r2" "mq_held LM mq2 + mset t2 = mq_held LM mq1 + mset p2 + mset m2"
      "length m2 \<le> length r2" "list_all (\<lambda>m. \<exists>s. m = MProcessor s) m2"
    unfolding turns_balance_def by (elim exE conjE)
  note b = this
  have "mq_held LM mq2 + mset (t1 @ t2) = mq_held LM mq + mset (p1 @ p2) + mset (m1 @ m2)"
    using b(2,6) by (simp add: ac_simps)
  with b show ?thesis
    unfolding turns_balance_def
    by (intro exI [of _ "r2 @ r1"] exI [of _ "m1 @ m2"] exI [of _ "t1 @ t2"] exI [of _ "p1 @ p2"]) (simp add: ac_simps)
qed

lemma processor_turn_balances:
  assumes "cq_ok LP" "cq_ok LM" "processor_turn V L fs LP LM env (st, pq, mq) = Some (Returned (st', pq', mq'))"
  shows "turns_balance LP LM pq mq pq' mq'"
  using processor_turn_balance [OF assms] unfolding turns_balance_def list_all_iff by blast

lemma thread_loop_kept:
  assumes "cq_ok LP" "cq_ok LM"
  shows "thread_loop V L heap LP LM envs (p, pq, mq) = Some (ThreadReturns (p', pq', mq')) \<Longrightarrow>
    turns_balance LP LM pq mq pq' mq' \<and> sp_functions p' = sp_functions p \<and> (envs \<noteq> [] \<longrightarrow> sp_heap p' = heap (sp_state p'))"
proof (induction envs arbitrary: p pq mq)
  case Nil
  then show ?case by (simp add: turns_balance_refl)
next
  case (Cons env envs)
  then obtain st pq1 mq1 where t: "processor_turn V L (sp_functions p) LP LM env (sp_state p, pq, mq) = Some (Returned (st, pq1, mq1))"
      "thread_loop V L heap LP LM envs (collectStats heap (p\<lparr>sp_state := st\<rparr>), pq1, mq1) = Some (ThreadReturns (p', pq', mq'))"
    by (auto split: option.splits run_result.splits if_splits)
  from Cons.IH [OF t(2)] have ih: "turns_balance LP LM pq1 mq1 pq' mq'" "sp_functions p' = sp_functions p"
      "envs \<noteq> [] \<longrightarrow> sp_heap p' = heap (sp_state p')" by (simp_all add: collectStats_def)
  have "sp_heap p' = heap (sp_state p')" if "envs = []" using that t(2) by (auto simp: collectStats_def)
  with ih turns_balance_trans [OF processor_turn_balances [OF assms t(1)] ih(1)] show ?case by blast
qed

subsection \<open>Properties\<close>


text \<open>A script that never compiles keeps every thread from returning, whichever input uses it.\<close>

lemma bad_script_ends_threads:
  assumes "s \<in> set sources" "\<And>st st' f. compile_script V st s \<noteq> Some (st', Returned f)"
  shows "processor_thread V L heap garbage LP LM envs sources st (pq, mq) \<noteq> Some (ThreadReturns r)"
proof
  assume r: "processor_thread V L heap garbage LP LM envs sources st (pq, mq) = Some (ThreadReturns r)"
  then obtain sm p0 st1 where sm: "thread_scripts sources = Some sm" "Processor V garbage st sm = Some (st1, Returned p0)"
    by (auto simp: processor_thread_def split: option.splits run_result.splits prod.splits if_splits)
  then obtain st2 where "compile_scripts V st2 sm [] = Some (st1, Returned (sp_functions p0))"
    using IsolateScope_compiles by (fastforce simp: Processor_def run_then_Some_iff)
  note fs = compile_scripts_all [OF this thread_scripts_Some(2) [OF sm(1)]]
  obtain n where "n < length sources" "sources ! n = s" using assms(1) by (auto simp: in_set_conv_nth)
  then have "map_of sm (of_nat n) = Some s" using thread_scripts_Some(4) [OF sm(1)] by blast
  with fs obtain f where "compiled V s f" by fastforce
  then show False using assms(2) by (auto simp: compiled_def)
qed


end
